(* ===== verification/Prelude.thy ===== *)
theory Prelude
  imports Main "HOL-Library.Word"
begin

text \<open>
  Shared vocabulary of the wager-ledger development: Go's \<open>int64\<close> with its
  wrap-around, the result type of Go's \<open>(T, error)\<close> functions with its
  sequencing operator, decimal digits, and the lemma collections the component
  theories fill.
\<close>

section \<open>Lemma collections\<close>

named_theorems int64_simps
  \<comment> \<open>signed reading of 64-bit words\<close>
named_theorems result_elims
  \<comment> \<open>inversion of sequenced results\<close>

section \<open>Signed 64-bit integers\<close>

text \<open>
  Go's \<open>int64\<close> is a 64-bit word read in two's complement by \<open>sint\<close>; its \<open>+\<close>,
  \<open>-\<close> and unary minus wrap around, as the word operations do.
\<close>

type_synonym int64 = "64 word"

definition in_int64 :: "int \<Rightarrow> bool" where
  "in_int64 x \<longleftrightarrow> - (2 ^ 63) \<le> x \<and> x < 2 ^ 63"

definition wrap64 :: "int \<Rightarrow> int" where
  "wrap64 x = (x + 2 ^ 63) mod 2 ^ 64 - 2 ^ 63"

lemma signed_take_bit_63: "signed_take_bit 63 x = wrap64 x"
  by (simp add: signed_take_bit_eq_take_bit_shift take_bit_eq_mod wrap64_def)

lemma sint_plus64: "sint (a + b :: int64) = wrap64 (sint a + sint b)"
  by (simp add: sint_word_ariths signed_take_bit_63 flip: signed_take_bit_63)

lemma sint_minus64: "sint (a - b :: int64) = wrap64 (sint a - sint b)"
  by (simp add: sint_word_ariths signed_take_bit_63 flip: signed_take_bit_63)

lemma sint_uminus64: "sint (- a :: int64) = wrap64 (- sint a)"
  by (simp add: sint_word_ariths signed_take_bit_63 flip: signed_take_bit_63)

lemma sint_of_int64: "sint (word_of_int x :: int64) = wrap64 x"
  by (simp add: sint_sbintrunc' signed_take_bit_63)

lemma in_int64_sint [simp]: "in_int64 (sint (a :: int64))"
  using sint_lt [of a] sint_ge [of a] by (simp add: in_int64_def)

lemma wrap64_id [int64_simps]: "in_int64 x \<Longrightarrow> wrap64 x = x"
  by (simp add: in_int64_def wrap64_def)

lemma wrap64_in_range [simp]: "in_int64 (wrap64 x)"
  by (simp add: in_int64_def wrap64_def)

lemma sint64_eq_iff: "(a :: int64) = b \<longleftrightarrow> sint a = sint b"
  by (simp add: word_eq_iff_signed)

lemma sint64_bounds: "- (2 ^ 63) \<le> sint (a :: int64)" "sint (a :: int64) < 2 ^ 63"
  using in_int64_sint [of a] by (simp_all only: in_int64_def)

lemmas int64_arith = sint_plus64 sint_minus64 sint_uminus64 sint_of_int64
  word_sless_alt word_sle_eq

lemma sint_plus_exact [int64_simps]:
  "in_int64 (sint a + sint b) \<Longrightarrow> sint (a + b :: int64) = sint a + sint b"
  by (simp add: sint_plus64 wrap64_id)

lemma sint_minus_exact [int64_simps]:
  "in_int64 (sint a - sint b) \<Longrightarrow> sint (a - b :: int64) = sint a - sint b"
  by (simp add: sint_minus64 wrap64_id)

lemma centered_mod:
  fixes M x :: int
  assumes M: "0 < M" and lo: "- (2 * M) \<le> x" and hi: "x < 2 * M"
  shows "(x + M) mod (2 * M) - M = (if M \<le> x then x - 2 * M else if x < - M then x + 2 * M else x)"
proof -
  consider "M \<le> x" | "x < - M" | "- M \<le> x" "x < M" by linarith
  then show ?thesis
  proof cases
    case 1
    have "(x + M) mod (2 * M) = (x - M) mod (2 * M)"
      using mod_add_self2 [of "x - M" "2 * M"] by (simp add: algebra_simps)
    also have "\<dots> = x - M" using 1 hi M by (intro mod_pos_pos_trivial) auto
    finally show ?thesis using 1 by simp
  next
    case 2
    have "(x + M) mod (2 * M) = (x + 3 * M) mod (2 * M)"
      using mod_add_self2 [of "x + M" "2 * M"] by (simp add: algebra_simps)
    also have "\<dots> = x + 3 * M" using 2 lo M by (intro mod_pos_pos_trivial) auto
    finally show ?thesis using 2 M by simp
  next
    case 3
    then have "(x + M) mod (2 * M) = x + M" using M by (intro mod_pos_pos_trivial) auto
    then show ?thesis using 3 by simp
  qed
qed

lemma wrap64_once:
  assumes "- (2 ^ 64) \<le> x" "x < 2 ^ 64"
  shows "wrap64 x = (if 2 ^ 63 \<le> x then x - 2 ^ 64 else if x < - (2 ^ 63) then x + 2 ^ 64 else x)"
  using centered_mod [of "2 ^ 63" x] assms by (simp add: wrap64_def)
text \<open>What one wrapped addition or subtraction of two 64-bit values returns.\<close>

lemma sint_plus_cases:
  "sint (a + b :: int64) = (if 2 ^ 63 \<le> sint a + sint b then sint a + sint b - 2 ^ 64
     else if sint a + sint b < - (2 ^ 63) then sint a + sint b + 2 ^ 64 else sint a + sint b)"
  unfolding sint_plus64 using sint64_bounds [of a] sint64_bounds [of b]
  by (intro wrap64_once) simp_all

lemma sint_minus_cases:
  "sint (a - b :: int64) = (if 2 ^ 63 \<le> sint a - sint b then sint a - sint b - 2 ^ 64
     else if sint a - sint b < - (2 ^ 63) then sint a - sint b + 2 ^ 64 else sint a - sint b)"
  unfolding sint_minus64 using sint64_bounds [of a] sint64_bounds [of b]
  by (intro wrap64_once) simp_all

section \<open>Results and their sequencing\<close>

text \<open>
  A Go function that returns \<open>(T, error)\<close> returns here a value of \<open>error + T\<close>:
  \<open>Inl e\<close> for a non-nil error, \<open>Inr x\<close> for a nil one. \<open>bindE m f\<close> is
  \<open>x, err := m; if err != nil { return err }; f(x)\<close>.
\<close>

definition bindE :: "'e + 'a \<Rightarrow> ('a \<Rightarrow> 'e + 'b) \<Rightarrow> 'e + 'b" where
  "bindE m f = (case m of Inl e \<Rightarrow> Inl e | Inr x \<Rightarrow> f x)"

lemma bindE_simps [simp]:
  "bindE (Inl e) f = Inl e"
  "bindE (Inr x) f = f x"
  by (simp_all add: bindE_def)

lemma bindE_Inr_iff [result_elims]:
  "bindE m f = Inr y \<longleftrightarrow> (\<exists>x. m = Inr x \<and> f x = Inr y)"
  by (cases m) simp_all

lemma bindE_Inl_iff:
  "bindE m f = Inl e \<longleftrightarrow> m = Inl e \<or> (\<exists>x. m = Inr x \<and> f x = Inl e)"
  by (cases m) simp_all

lemma bindE_assoc: "bindE (bindE m f) g = bindE m (\<lambda>x. bindE (f x) g)"
  by (cases m) simp_all

lemma if_Inl_eq_Inr [result_elims]:
  "(if b then Inl e else m) = Inr x \<longleftrightarrow> \<not> b \<and> m = Inr x"
  by simp

section \<open>Decimal digits\<close>

definition is_digit :: "char \<Rightarrow> bool" where
  "is_digit c \<longleftrightarrow> 48 \<le> (of_char c :: nat) \<and> (of_char c :: nat) \<le> 57"

definition digit_val :: "char \<Rightarrow> nat" where
  "digit_val c = of_char c - 48"

definition digit_char :: "nat \<Rightarrow> char" where
  "digit_char n = char_of (48 + n)"

lemma of_char_digit_char: "n < 10 \<Longrightarrow> of_char (digit_char n) = 48 + n"
  by (simp add: digit_char_def)

lemma is_digit_digit_char [simp]: "n < 10 \<Longrightarrow> is_digit (digit_char n)"
  by (simp add: is_digit_def of_char_digit_char)

lemma digit_val_digit_char [simp]: "n < 10 \<Longrightarrow> digit_val (digit_char n) = n"
  by (simp add: digit_val_def of_char_digit_char)

lemma digit_val_less: "is_digit c \<Longrightarrow> digit_val c < 10"
  unfolding digit_val_def is_digit_def by arith

text \<open>The value of a string of digits, most significant first, and the digits of a number.\<close>

definition digits_val :: "string \<Rightarrow> nat" where
  "digits_val s = foldl (\<lambda>n c. 10 * n + digit_val c) 0 s"

fun show_nat :: "nat \<Rightarrow> string" where
  "show_nat n = (if n < 10 then [digit_char n] else show_nat (n div 10) @ [digit_char (n mod 10)])"

declare show_nat.simps [simp del]

lemma digits_val_Nil [simp]: "digits_val [] = 0"
  by (simp add: digits_val_def)

lemma digits_val_snoc [simp]: "digits_val (s @ [c]) = 10 * digits_val s + digit_val c"
  by (simp add: digits_val_def)

lemma digits_val_append:
  "digits_val (s @ t) = digits_val s * 10 ^ length t + digits_val t"
proof (induction t rule: rev_induct)
  case Nil
  then show ?case by simp
next
  case (snoc c t)
  have "digits_val (s @ t @ [c]) = 10 * digits_val (s @ t) + digit_val c"
    using digits_val_snoc [of "s @ t" c] by simp
  then show ?case by (simp add: snoc algebra_simps)
qed

lemma digits_val_show_nat [simp]: "digits_val (show_nat n) = n"
proof (induction n rule: show_nat.induct)
  case (1 n)
  then show ?case by (subst show_nat.simps) (simp add: digits_val_def)
qed

lemma list_all_digit_show_nat [simp]: "list_all is_digit (show_nat n)"
proof (induction n rule: show_nat.induct)
  case (1 n)
  then show ?case by (subst show_nat.simps) simp
qed

lemma show_nat_nonempty [simp]: "show_nat n \<noteq> []"
  by (subst show_nat.simps) simp

lemma length_show_nat_less10: "n < 10 \<Longrightarrow> length (show_nat n) = 1"
  by (subst show_nat.simps) simp

lemma length_show_nat_less100: "10 \<le> n \<Longrightarrow> n < 100 \<Longrightarrow> length (show_nat n) = 2"
  by (subst show_nat.simps) (simp add: length_show_nat_less10)

lemma show_nat_inject [simp]: "show_nat m = show_nat n \<longleftrightarrow> m = n"
  by (metis digits_val_show_nat)

end
