(* ===== verification/Errors.thy ===== *)
theory Errors
  imports Prelude
begin

text \<open>
  The sentinel errors of the packages, one datatype per package in the order of its
  \<open>var\<close> block, and their union \<open>go_error\<close>. The code wraps sentinels with \<open>%w\<close> only
  to add a message, and tests them with \<open>errors.Is\<close> only, so an error is identified
  with the sentinel it wraps and \<open>errors.Is\<close> is equality. The messages are not modelled.
\<close>

datatype money_err =
    Money_ErrEmptyAmount
  | Money_ErrInvalidFormat
  | Money_ErrExcessiveScale
  | Money_ErrNegativeNotAllowed
  | Money_ErrEmptyCurrency
  | Money_ErrInvalidCurrency
  | Money_ErrCurrencyMismatch
  | Money_ErrOverflow

datatype wallet_err =
    Wallet_ErrEmptyID
  | Wallet_ErrEmptyPlayerID
  | Wallet_ErrNegativeInitial
  | Wallet_ErrCurrencyMismatch
  | Wallet_ErrAmountMustBePositive
  | Wallet_ErrInsufficientBalance
  | Wallet_ErrInvalidVersion

datatype wagertx_err =
    Wagertx_ErrEmptyID
  | Wagertx_ErrEmptyProviderID
  | Wagertx_ErrEmptyExternalID
  | Wagertx_ErrEmptyIdempotencyKey
  | Wagertx_ErrEmptyPayloadHash
  | Wagertx_ErrEmptyWalletID
  | Wagertx_ErrEmptyPlayerID
  | Wagertx_ErrEmptyRoundID
  | Wagertx_ErrEmptyGameID
  | Wagertx_ErrEmptyCurrency
  | Wagertx_ErrOpeningNotExternal
  | Wagertx_ErrInvalidKind
  | Wagertx_ErrLossAmountMustBeZero
  | Wagertx_ErrAmountMustBePositive
  | Wagertx_ErrReferenceRequired
  | Wagertx_ErrReferenceNotAllowed
  | Wagertx_ErrEmptyFailureCode
  | Wagertx_ErrInvalidTransition

datatype ledger_err =
    Ledger_ErrEmptyID
  | Ledger_ErrEmptyWalletID
  | Ledger_ErrEmptyTransactionID
  | Ledger_ErrInvalidDirection
  | Ledger_ErrAmountMustBePositive
  | Ledger_ErrCurrencyMismatch
  | Ledger_ErrBalanceMismatch

datatype ports_err =
    Ports_ErrNotFound
  | Ports_ErrOptimisticLock
  | Ports_ErrAlreadyExists

datatype usecase_err =
    Usecase_ErrIdempotencyConflict
  | Usecase_ErrUnsupportedKind
  | Usecase_ErrWalletPlayerMismatch
  | Usecase_ErrTooManyRetries
  | Usecase_ErrWalletAlreadyExists

text \<open>
  Errors that come from outside the program. A statement the schema refuses carries the
  class of the violated constraint (\<open>pg_err\<close>; \<open>PgUnique\<close> is SQLSTATE 23505). Any
  statement may also fail for a reason the program does not control: a lost connection
  or an aborted transaction (\<open>InfraUnavailable\<close>), or the cancellation of its context.
  \<open>InfraPanic\<close> stands for a nil dereference, \<open>PgNoRows\<close> is \<open>pgx.ErrNoRows\<close>, \<open>InfraBadData\<close> an error of
  a codec or an unnamed \<open>errors.New\<close>.
\<close>

datatype pg_err = PgUnique | PgCheck | PgForeignKey | PgOutOfRange | PgNoRows

datatype infra_err = InfraUnavailable | InfraContextCanceled | InfraDeadlineExceeded | InfraPanic | InfraBadData

datatype go_error =
    MoneyErr money_err
  | WalletErr wallet_err
  | WagertxErr wagertx_err
  | LedgerErr ledger_err
  | PortsErr ports_err
  | UsecaseErr usecase_err
  | PgErr pg_err
  | InfraErr infra_err

type_synonym 'a result = "go_error + 'a"

text \<open>The errors a retry loop of the use case absorbs: \<open>errors.Is\<close> against the two ports sentinels.\<close>

definition retryable :: "go_error \<Rightarrow> bool" where
  "retryable e \<longleftrightarrow> e = PortsErr Ports_ErrOptimisticLock \<or> e = PortsErr Ports_ErrAlreadyExists"

end
