(* ===== verification/Money.thy ===== *)
theory Money
  imports Errors
begin

text \<open>
  The value object \<open>Money\<close> of \<open>internal/domain/money/money.go\<close>: an amount in minor
  units (\<open>int64\<close>) with its ISO 4217 currency, the construction of a currency, and the
  checked arithmetic. Decimal strings (parsing and printing) are in \<open>Money_Text\<close>.
\<close>

section \<open>The value object\<close>

record Money =
  minorUnits :: int64
  currency :: string

text \<open>\<open>Money{}\<close>, the zero value a failing constructor returns beside its error.\<close>

definition zeroMoney :: Money where
  "zeroMoney = \<lparr>minorUnits = 0, currency = ''''\<rparr>"

section \<open>Currency codes\<close>

text \<open>
  \<open>strings.ToUpper\<close> on bytes. ASCII letters are mapped; of the other runes only U+0131
  (bytes C4 B1) and U+017F (bytes C5 BF) upper-case to an ASCII letter, and they are
  mapped too. Every other non-ASCII rune upper-cases to a non-ASCII rune, which no caller
  accepts in either form, so its bytes are kept.
\<close>

definition byte_upper :: "char \<Rightarrow> char" where
  "byte_upper c = (if 97 \<le> (of_char c :: nat) \<and> (of_char c :: nat) \<le> 122
     then char_of (of_char c - (32 :: nat)) else c)"

fun toUpper :: "string \<Rightarrow> string" where
  "toUpper [] = []"
| "toUpper [c] = [byte_upper c]"
| "toUpper (c # d # cs) =
     (if c = CHR 0xC4 \<and> d = CHR 0xB1 then CHR ''I'' # toUpper cs
      else if c = CHR 0xC5 \<and> d = CHR 0xBF then CHR ''S'' # toUpper cs
      else byte_upper c # toUpper (d # cs))"

definition isAllLetters :: "string \<Rightarrow> bool" where
  "isAllLetters s \<longleftrightarrow> list_all (\<lambda>c. 65 \<le> (of_char c :: nat) \<and> (of_char c :: nat) \<le> 90) s"

definition iso4217Currencies :: "string list" where
  "iso4217Currencies = [
    ''AED'', ''AFN'', ''ALL'', ''AMD'', ''ANG'', ''AOA'', ''ARS'', ''AUD'',
    ''AWG'', ''AZN'', ''BAM'', ''BBD'', ''BDT'', ''BGN'', ''BHD'', ''BIF'',
    ''BMD'', ''BND'', ''BOB'', ''BRL'', ''BSD'', ''BTN'', ''BWP'', ''BYN'',
    ''BZD'', ''CAD'', ''CDF'', ''CHF'', ''CLP'', ''CNY'', ''COP'', ''CRC'',
    ''CUP'', ''CVE'', ''CZK'', ''DJF'', ''DKK'', ''DOP'', ''DZD'', ''EGP'',
    ''ERN'', ''ETB'', ''EUR'', ''FJD'', ''FKP'', ''GBP'', ''GEL'', ''GHS'',
    ''GIP'', ''GMD'', ''GNF'', ''GTQ'', ''GYD'', ''HKD'', ''HNL'', ''HTG'',
    ''HUF'', ''IDR'', ''ILS'', ''INR'', ''IQD'', ''IRR'', ''ISK'', ''JMD'',
    ''JOD'', ''JPY'', ''KES'', ''KGS'', ''KHR'', ''KMF'', ''KPW'', ''KRW'',
    ''KWD'', ''KYD'', ''KZT'', ''LAK'', ''LBP'', ''LKR'', ''LRD'', ''LSL'',
    ''LYD'', ''MAD'', ''MDL'', ''MGA'', ''MKD'', ''MMK'', ''MNT'', ''MOP'',
    ''MRU'', ''MUR'', ''MVR'', ''MWK'', ''MXN'', ''MYR'', ''MZN'', ''NAD'',
    ''NGN'', ''NIO'', ''NOK'', ''NPR'', ''NZD'', ''OMR'', ''PAB'', ''PEN'',
    ''PGK'', ''PHP'', ''PKR'', ''PLN'', ''PYG'', ''QAR'', ''RON'', ''RSD'',
    ''RUB'', ''RWF'', ''SAR'', ''SBD'', ''SCR'', ''SDG'', ''SEK'', ''SGD'',
    ''SHP'', ''SLE'', ''SOS'', ''SRD'', ''SSP'', ''STN'', ''SYP'', ''SZL'',
    ''THB'', ''TJS'', ''TMT'', ''TND'', ''TOP'', ''TRY'', ''TTD'', ''TWD'',
    ''TZS'', ''UAH'', ''UGX'', ''USD'', ''UYU'', ''UZS'', ''VES'', ''VND'',
    ''VUV'', ''WST'', ''XAF'', ''XCD'', ''XOF'', ''XPF'', ''YER'', ''ZAR'',
    ''ZMW'', ''ZWL'']"

definition normalizeCurrency :: "string \<Rightarrow> string result" where
  "normalizeCurrency c =
     (if c = '''' then Inl (MoneyErr Money_ErrEmptyCurrency)
      else let cur = toUpper c in
        if length cur \<noteq> 3 \<or> \<not> isAllLetters cur then Inl (MoneyErr Money_ErrInvalidCurrency)
        else if cur \<notin> set iso4217Currencies then Inl (MoneyErr Money_ErrInvalidCurrency)
        else Inr cur)"

section \<open>Construction and observation\<close>

definition Zero :: "string \<Rightarrow> Money result" where
  "Zero c = bindE (normalizeCurrency c) (\<lambda>cur. Inr \<lparr>minorUnits = 0, currency = cur\<rparr>)"

definition FromMinorUnits :: "int64 \<Rightarrow> string \<Rightarrow> Money result" where
  "FromMinorUnits n c = bindE (normalizeCurrency c) (\<lambda>cur. Inr \<lparr>minorUnits = n, currency = cur\<rparr>)"

definition IsNegative :: "Money \<Rightarrow> bool" where
  "IsNegative m \<longleftrightarrow> minorUnits m <s 0"

definition IsZero :: "Money \<Rightarrow> bool" where
  "IsZero m \<longleftrightarrow> minorUnits m = 0"

section \<open>Checked arithmetic\<close>

definition addInt64 :: "int64 \<Rightarrow> int64 \<Rightarrow> int64 \<times> bool" where
  "addInt64 a b =
     (let s = a + b in
      if (0 <s b \<and> s <s a) \<or> (b <s 0 \<and> a <s s) then (0, False) else (s, True))"

definition subInt64 :: "int64 \<Rightarrow> int64 \<Rightarrow> int64 \<times> bool" where
  "subInt64 a b =
     (let d = a - b in
      if (b <s 0 \<and> d <s a) \<or> (0 <s b \<and> a <s d) then (0, False) else (d, True))"

definition Add :: "Money \<Rightarrow> Money \<Rightarrow> Money result" where
  "Add m other =
     (if currency m = '''' \<or> currency other = '''' then Inl (MoneyErr Money_ErrEmptyCurrency)
      else if currency m \<noteq> currency other then Inl (MoneyErr Money_ErrCurrencyMismatch)
      else let (s, ok) = addInt64 (minorUnits m) (minorUnits other) in
        if \<not> ok then Inl (MoneyErr Money_ErrOverflow)
        else Inr \<lparr>minorUnits = s, currency = currency m\<rparr>)"

definition Sub :: "Money \<Rightarrow> Money \<Rightarrow> Money result" where
  "Sub m other =
     (if currency m = '''' \<or> currency other = '''' then Inl (MoneyErr Money_ErrEmptyCurrency)
      else if currency m \<noteq> currency other then Inl (MoneyErr Money_ErrCurrencyMismatch)
      else let (d, ok) = subInt64 (minorUnits m) (minorUnits other) in
        if \<not> ok then Inl (MoneyErr Money_ErrOverflow)
        else Inr \<lparr>minorUnits = d, currency = currency m\<rparr>)"

text \<open>\<open>math.MinInt64\<close> and \<open>math.MaxInt64\<close>.\<close>

definition MinInt64 :: int64 where
  "MinInt64 = 0x8000000000000000"

definition MaxInt64 :: int64 where
  "MaxInt64 = 0x7FFFFFFFFFFFFFFF"

definition Negate :: "Money \<Rightarrow> Money result" where
  "Negate m =
     (if currency m = '''' then Inl (MoneyErr Money_ErrEmptyCurrency)
      else if minorUnits m = MinInt64 then Inl (MoneyErr Money_ErrOverflow)
      else Inr \<lparr>minorUnits = - minorUnits m, currency = currency m\<rparr>)"

definition Compare :: "Money \<Rightarrow> Money \<Rightarrow> int result" where
  "Compare m other =
     (if currency m = '''' \<or> currency other = '''' then Inl (MoneyErr Money_ErrEmptyCurrency)
      else if currency m \<noteq> currency other then Inl (MoneyErr Money_ErrCurrencyMismatch)
      else if minorUnits m <s minorUnits other then Inr (- 1)
      else if minorUnits other <s minorUnits m then Inr 1
      else Inr 0)"

definition Equals :: "Money \<Rightarrow> Money \<Rightarrow> bool" where
  "Equals m other \<longleftrightarrow> minorUnits m = minorUnits other \<and> currency m = currency other"

section \<open>The signed reading of an amount\<close>

text \<open>\<open>amt m\<close> is the number of minor units as an integer, the value all specifications are stated over.\<close>

abbreviation amt :: "Money \<Rightarrow> int" where
  "amt m \<equiv> sint (minorUnits m)"

lemma IsNegative_iff [simp]: "IsNegative m \<longleftrightarrow> amt m < 0"
  by (simp add: IsNegative_def word_sless_alt)

lemma IsZero_iff [simp]: "IsZero m \<longleftrightarrow> amt m = 0"
  by (simp add: IsZero_def sint64_eq_iff)

lemma Money_eqI: "amt m = amt n \<Longrightarrow> currency m = currency n \<Longrightarrow> m = (n :: Money)"
  by (cases m, cases n) (simp add: sint64_eq_iff)

lemma Equals_iff_eq [simp]: "Equals m n \<longleftrightarrow> m = n"
  by (cases m, cases n) (simp add: Equals_def)

section \<open>Overflow detection is exact\<close>

lemma addInt64_spec:
  "addInt64 a b = (if in_int64 (sint a + sint b) then (a + b, True) else (0, False))"
proof -
  have "(0 < sint b \<and> sint (a + b) < sint a) \<or> (sint b < 0 \<and> sint a < sint (a + b))
      \<longleftrightarrow> \<not> in_int64 (sint a + sint b)"
    using sint64_bounds [of a] sint64_bounds [of b]
    by (simp add: sint_plus_cases in_int64_def)
  then show ?thesis
    by (simp add: addInt64_def Let_def word_sless_alt)
qed

lemma subInt64_spec:
  "subInt64 a b = (if in_int64 (sint a - sint b) then (a - b, True) else (0, False))"
proof -
  have "(sint b < 0 \<and> sint (a - b) < sint a) \<or> (0 < sint b \<and> sint a < sint (a - b))
      \<longleftrightarrow> \<not> in_int64 (sint a - sint b)"
    using sint64_bounds [of a] sint64_bounds [of b]
    by (simp add: sint_minus_cases in_int64_def)
  then show ?thesis
    by (simp add: subInt64_def Let_def word_sless_alt)
qed

text \<open>
  The contract both checked operations of \<open>Money\<close> keep: they refuse an amount without
  currency, then a mixed pair, then a result outside \<open>int64\<close>, and otherwise return the
  exact result in the common currency.
\<close>

locale checked_money_op =
  fixes money_op :: "Money \<Rightarrow> Money \<Rightarrow> Money result"
    and exact :: "int \<Rightarrow> int \<Rightarrow> int"
  assumes op_no_currency:
      "currency m = [] \<or> currency n = [] \<Longrightarrow> money_op m n = Inl (MoneyErr Money_ErrEmptyCurrency)"
    and op_mixed:
      "currency m \<noteq> [] \<Longrightarrow> currency n \<noteq> [] \<Longrightarrow> currency m \<noteq> currency n \<Longrightarrow>
        money_op m n = Inl (MoneyErr Money_ErrCurrencyMismatch)"
    and op_overflow:
      "currency m \<noteq> [] \<Longrightarrow> currency n = currency m \<Longrightarrow> \<not> in_int64 (exact (amt m) (amt n)) \<Longrightarrow>
        money_op m n = Inl (MoneyErr Money_ErrOverflow)"
    and op_exact:
      "currency m \<noteq> [] \<Longrightarrow> currency n = currency m \<Longrightarrow> in_int64 (exact (amt m) (amt n)) \<Longrightarrow>
        \<exists>r. money_op m n = Inr r \<and> amt r = exact (amt m) (amt n) \<and> currency r = currency m"
begin

lemma op_Inr_iff:
  "money_op m n = Inr r \<longleftrightarrow>
     currency m \<noteq> [] \<and> currency n = currency m \<and> in_int64 (exact (amt m) (amt n)) \<and>
     amt r = exact (amt m) (amt n) \<and> currency r = currency m"
  (is "?L \<longleftrightarrow> ?R")
proof
  assume L: ?L
  have c1: "currency m \<noteq> []" "currency n \<noteq> []" using L op_no_currency [of m n] by auto
  then have c2: "currency n = currency m" using L op_mixed [of m n] by fastforce
  have "in_int64 (exact (amt m) (amt n))" using L op_overflow [of m n] c1 c2 by fastforce
  then show ?R using L op_exact [of m n] c1 c2 by auto
next
  assume R: ?R
  then obtain r' where "money_op m n = Inr r'" "amt r' = amt r" "currency r' = currency r"
    using op_exact [of m n] by auto
  then show ?L using Money_eqI [of r' r] by simp
qed

lemma op_total:
  "(\<exists>r. money_op m n = Inr r) \<or> money_op m n = Inl (MoneyErr Money_ErrEmptyCurrency)
     \<or> money_op m n = Inl (MoneyErr Money_ErrCurrencyMismatch)
     \<or> money_op m n = Inl (MoneyErr Money_ErrOverflow)"
  using op_no_currency [of m n] op_mixed [of m n] op_overflow [of m n] op_exact [of m n] by metis

end

interpretation madd: checked_money_op Add "(+)"
  by unfold_locales (auto simp: Add_def addInt64_spec int64_simps)

interpretation msub: checked_money_op Sub "(-)"
  by unfold_locales (auto simp: Sub_def subInt64_spec int64_simps)

lemmas money_op_iffs = madd.op_Inr_iff msub.op_Inr_iff

lemma Negate_Inr_iff:
  "Negate m = Inr r \<longleftrightarrow> currency m \<noteq> [] \<and> amt m \<noteq> - (2 ^ 63) \<and> amt r = - amt m \<and> currency r = currency m"
proof -
  have min: "minorUnits m = MinInt64 \<longleftrightarrow> amt m = - (2 ^ 63)"
    by (simp add: sint64_eq_iff MinInt64_def)
  show ?thesis
  proof (cases "amt m = - (2 ^ 63)")
    case True
    then show ?thesis by (simp add: Negate_def min)
  next
    case False
    then have neg: "sint (- minorUnits m) = - amt m"
      using sint64_bounds [of "minorUnits m"] by (simp add: sint_uminus64 wrap64_id in_int64_def)
    have "Negate m = Inr r \<longleftrightarrow> currency m \<noteq> [] \<and> r = \<lparr>minorUnits = - minorUnits m, currency = currency m\<rparr>"
      using False min by (auto simp: Negate_def)
    then show ?thesis using False neg by (auto intro: Money_eqI)
  qed
qed

lemma Compare_Inr_iff:
  "Compare m n = Inr c \<longleftrightarrow> currency m \<noteq> [] \<and> currency n = currency m \<and> c = sgn (amt m - amt n)"
  by (auto simp: Compare_def word_sless_alt)

section \<open>Currency normalisation\<close>

lemma iso4217_shape: "list_all (\<lambda>c. length c = 3 \<and> isAllLetters c) iso4217Currencies"
  by code_simp

lemma iso4217_nonempty [simp]: "[] \<notin> set iso4217Currencies"
  using iso4217_shape by (auto simp: list_all_iff)

lemma normalizeCurrency_Inr_iff:
  "normalizeCurrency c = Inr cur \<longleftrightarrow> toUpper c = cur \<and> cur \<in> set iso4217Currencies"
  using iso4217_shape by (auto simp: normalizeCurrency_def Let_def list_all_iff)

lemma byte_upper_id: "65 \<le> (of_char c :: nat) \<Longrightarrow> (of_char c :: nat) \<le> 90 \<Longrightarrow> byte_upper c = c"
  by (simp add: byte_upper_def)

lemma toUpper_letters: "isAllLetters s \<Longrightarrow> toUpper s = s"
  by (induction s rule: toUpper.induct) (auto simp: isAllLetters_def byte_upper_id)

lemma normalizeCurrency_iso [simp]:
  "c \<in> set iso4217Currencies \<Longrightarrow> normalizeCurrency c = Inr c"
  using iso4217_shape by (auto simp: normalizeCurrency_Inr_iff list_all_iff toUpper_letters)

lemma normalizeCurrency_result:
  "normalizeCurrency c = Inr cur \<Longrightarrow> cur \<in> set iso4217Currencies \<and> cur \<noteq> []"
  by (auto simp: normalizeCurrency_Inr_iff)

lemma iso4217_BRL [simp]: "''BRL'' \<in> set iso4217Currencies"
  by (simp add: iso4217Currencies_def)

text \<open>A well-formed amount: its currency is one of the table. Every constructor returns one.\<close>

definition money_ok :: "Money \<Rightarrow> bool" where
  "money_ok m \<longleftrightarrow> currency m \<in> set iso4217Currencies"

lemma money_ok_nonempty: "money_ok m \<Longrightarrow> currency m \<noteq> []"
  by (auto simp: money_ok_def)

lemma FromMinorUnits_Inr_iff:
  "FromMinorUnits n c = Inr m \<longleftrightarrow>
     minorUnits m = n \<and> currency m = toUpper c \<and> toUpper c \<in> set iso4217Currencies"
  by (cases m) (auto simp: FromMinorUnits_def bindE_Inr_iff normalizeCurrency_Inr_iff)

lemma FromMinorUnits_self [simp]: "money_ok m \<Longrightarrow> FromMinorUnits (minorUnits m) (currency m) = Inr m"
  by (cases m) (simp add: FromMinorUnits_def money_ok_def)

lemma Zero_Inr_iff:
  "Zero c = Inr m \<longleftrightarrow> minorUnits m = 0 \<and> currency m = toUpper c \<and> toUpper c \<in> set iso4217Currencies"
  by (cases m) (auto simp: Zero_def bindE_Inr_iff normalizeCurrency_Inr_iff)

section \<open>Properties\<close>

text \<open>C33: \<open>Money.Add\<close> and \<open>Money.Sub\<close> on every input: an amount without currency, then a mixed
  pair, then a result that does not fit \<open>int64\<close> are refused with their own errors, in this
  order, and in every other case the result is exact. The overflow tests, which look only at
  the wrapped result, miss no overflow and report no false one.\<close>

theorem money_arithmetic_exact:
  "Add m n =
     (if currency m = [] \<or> currency n = [] then Inl (MoneyErr Money_ErrEmptyCurrency)
      else if currency m \<noteq> currency n then Inl (MoneyErr Money_ErrCurrencyMismatch)
      else if - (2 ^ 63) \<le> amt m + amt n \<and> amt m + amt n < 2 ^ 63
      then Inr \<lparr>minorUnits = word_of_int (amt m + amt n), currency = currency m\<rparr>
      else Inl (MoneyErr Money_ErrOverflow))
   \<and> Sub m n =
     (if currency m = [] \<or> currency n = [] then Inl (MoneyErr Money_ErrEmptyCurrency)
      else if currency m \<noteq> currency n then Inl (MoneyErr Money_ErrCurrencyMismatch)
      else if - (2 ^ 63) \<le> amt m - amt n \<and> amt m - amt n < 2 ^ 63
      then Inr \<lparr>minorUnits = word_of_int (amt m - amt n), currency = currency m\<rparr>
      else Inl (MoneyErr Money_ErrOverflow))"
proof -
  have "x + y = (word_of_int (sint x + sint y) :: int64)" "x - y = (word_of_int (sint x - sint y) :: int64)" for x y
    by (simp_all add: wi_hom_syms)
  then show ?thesis by (auto simp: Add_def Sub_def addInt64_spec subInt64_spec in_int64_def)
qed

end
