(* ===== verification/Money_Text.thy ===== *)
theory Money_Text
  imports Money
begin

text \<open>
  The text form of \<open>Money\<close>: \<open>parseDecimalToMinorUnits\<close> and \<open>FromDecimalString\<close>, the
  printer \<open>DecimalString\<close>, and the JSON object both sides exchange, with the grammar the
  parser accepts and the round trip between the two.
\<close>

section \<open>The string functions the parser calls\<close>

text \<open>
  \<open>strings.TrimSpace\<close> and \<open>strings.ToLower\<close> on ASCII. Both also act on non-ASCII runes;
  the parser only compares their result with the input, and an input with a non-ASCII byte
  ends in \<open>ErrInvalidFormat\<close> whether that comparison fails or not (its parts are not all
  digits), so the ASCII action decides the result.
\<close>

definition is_space :: "char \<Rightarrow> bool" where
  "is_space c \<longleftrightarrow> (of_char c :: nat) \<in> {9, 10, 11, 12, 13, 32}"

definition trimSpace :: "string \<Rightarrow> string" where
  "trimSpace s = rev (dropWhile is_space (rev (dropWhile is_space s)))"

definition byte_lower :: "char \<Rightarrow> char" where
  "byte_lower c = (if 65 \<le> (of_char c :: nat) \<and> (of_char c :: nat) \<le> 90
     then char_of (of_char c + (32 :: nat)) else c)"

definition toLower :: "string \<Rightarrow> string" where
  "toLower s = map byte_lower s"

definition containsAny :: "string \<Rightarrow> string \<Rightarrow> bool" where
  "containsAny s chars \<longleftrightarrow> list_ex (\<lambda>c. c \<in> set chars) s"

text \<open>\<open>strings.SplitN(s, sep, 2)\<close> for a separator of one byte.\<close>

fun splitN2 :: "char \<Rightarrow> string \<Rightarrow> string list" where
  "splitN2 sep [] = [[]]"
| "splitN2 sep (c # cs) =
     (if c = sep then [[], cs]
      else case splitN2 sep cs of [] \<Rightarrow> [[c]] | p # ps \<Rightarrow> (c # p) # ps)"

definition isAllDigits :: "string \<Rightarrow> bool" where
  "isAllDigits s \<longleftrightarrow> list_all is_digit s"

text \<open>
  \<open>strconv.ParseInt(s, 10, 64)\<close>: an optional sign and at least one digit; \<open>None\<close> is its
  error, a syntax error or a value outside \<open>int64\<close>.
\<close>

definition parseInt64 :: "string \<Rightarrow> int64 option" where
  "parseInt64 s =
     (let neg = (case s of c # _ \<Rightarrow> c = CHR ''-'' | [] \<Rightarrow> False);
          body = (case s of c # cs \<Rightarrow> if c = CHR ''-'' \<or> c = CHR ''+'' then cs else s | [] \<Rightarrow> s);
          v = (if neg then - int (digits_val body) else int (digits_val body))
      in if body = [] \<or> \<not> isAllDigits body \<or> \<not> in_int64 v then None else Some (word_of_int v))"

section \<open>Parsing\<close>

text \<open>The loop \<open>for len(fracPart) < 2 { fracPart += "0" }\<close>.\<close>

function padFrac :: "string \<Rightarrow> string" where
  "padFrac s = (if length s < 2 then padFrac (s @ ''0'') else s)"
  by pat_completeness auto
termination
  by (relation "measure (\<lambda>s. 2 - length s)") auto

declare padFrac.simps [simp del]

text \<open>
  The body of \<open>parseDecimalToMinorUnits\<close> in three steps: the checks on the whole string
  and the sign, the split at the first dot, and the two parts.
\<close>

definition parseParts :: "bool \<Rightarrow> string \<Rightarrow> string \<Rightarrow> int64 result" where
  "parseParts negative intPart fracPart =
     (if intPart = [] then Inl (MoneyErr Money_ErrInvalidFormat)
      else if \<not> isAllDigits intPart then Inl (MoneyErr Money_ErrInvalidFormat)
      else if fracPart \<noteq> [] \<and> \<not> isAllDigits fracPart then Inl (MoneyErr Money_ErrInvalidFormat)
      else if length fracPart > 2 then Inl (MoneyErr Money_ErrExcessiveScale)
      else case parseInt64 intPart of
        None \<Rightarrow> Inl (MoneyErr Money_ErrOverflow)
      | Some intValue \<Rightarrow>
          (case parseInt64 (padFrac fracPart) of
             None \<Rightarrow> Inl (MoneyErr Money_ErrInvalidFormat)
           | Some fracValue \<Rightarrow>
               if (MaxInt64 - fracValue) div 100 <s intValue then Inl (MoneyErr Money_ErrOverflow)
               else let total = intValue * 100 + fracValue in
                 Inr (if negative then - total else total)))"

definition parseRest :: "bool \<Rightarrow> string \<Rightarrow> int64 result" where
  "parseRest negative rest =
     (if rest = [] then Inl (MoneyErr Money_ErrInvalidFormat)
      else let parts = splitN2 CHR ''.'' rest;
               intPart = hd parts;
               fracPart = (if length parts = 2 then parts ! 1 else [])
           in parseParts negative intPart fracPart)"

definition parseDecimalToMinorUnits :: "string \<Rightarrow> int64 result" where
  "parseDecimalToMinorUnits amount =
     (if amount = [] then Inl (MoneyErr Money_ErrEmptyAmount)
      else let lower = toLower (trimSpace amount) in
      if lower \<noteq> amount then Inl (MoneyErr Money_ErrInvalidFormat)
      else if containsAny lower ''einf'' then Inl (MoneyErr Money_ErrInvalidFormat)
      else if hd amount = CHR ''-'' then parseRest True (tl amount)
      else if hd amount = CHR ''+'' then parseRest False (tl amount)
      else parseRest False amount)"

definition FromDecimalString :: "string \<Rightarrow> string \<Rightarrow> Money result" where
  "FromDecimalString amount c =
     bindE (normalizeCurrency c) (\<lambda>cur.
     bindE (parseDecimalToMinorUnits amount) (\<lambda>n.
       if n <s 0 then Inl (MoneyErr Money_ErrNegativeNotAllowed)
       else Inr \<lparr>minorUnits = n, currency = cur\<rparr>))"

section \<open>Printing\<close>

text \<open>\<open>fmt.Sprintf("%02d", n)\<close>.\<close>

definition pad2 :: "string \<Rightarrow> string" where
  "pad2 s = replicate (2 - length s) CHR ''0'' @ s"

text \<open>
  \<open>uint64(x)\<close> keeps the bits of an \<open>int64\<close>, so \<open>abs\<close> is a word again; \<open>/\<close> and \<open>%\<close> on
  \<open>uint64\<close> are the unsigned word division.
\<close>

definition DecimalString :: "Money \<Rightarrow> string" where
  "DecimalString m =
     (let negative = minorUnits m <s 0;
          abs = (if negative then - (minorUnits m + 1) + 1 else minorUnits m);
          intPart = abs div 100;
          fracPart = abs mod 100;
          sgn = (if negative then ''-'' else [])
      in sgn @ show_nat (unat intPart) @ ''.'' @ pad2 (show_nat (unat fracPart)))"

section \<open>The JSON object\<close>

record moneyJSON =
  js_amount :: string
  js_currency :: string

definition MarshalJSON :: "Money \<Rightarrow> moneyJSON result" where
  "MarshalJSON m =
     (if currency m = [] then Inl (MoneyErr Money_ErrEmptyCurrency)
      else Inr \<lparr>js_amount = DecimalString m, js_currency = currency m\<rparr>)"

text \<open>The argument is what \<open>json.Unmarshal\<close> made of the bytes, \<open>None\<close> when it failed.\<close>

definition UnmarshalJSON :: "moneyJSON option \<Rightarrow> Money result" where
  "UnmarshalJSON raw =
     (case raw of None \<Rightarrow> Inl (MoneyErr Money_ErrInvalidFormat)
      | Some r \<Rightarrow> FromDecimalString (js_amount r) (js_currency r))"

section \<open>Auxiliary facts\<close>

lemma padFrac_eq: "padFrac s = s @ replicate (2 - length s) CHR ''0''"
proof (induction s rule: padFrac.induct)
  case (1 s)
  show ?case
  proof (cases "length s < 2")
    case True
    then have "2 - length s = Suc (2 - length (s @ ''0''))" by simp
    with True 1 show ?thesis by (subst padFrac.simps) (simp add: replicate_append_same)
  next
    case False
    then show ?thesis by (subst padFrac.simps) simp
  qed
qed

lemma is_digit_0 [simp]: "is_digit CHR ''0''"
  by (simp add: is_digit_def)

lemma splitN2_no_sep: "sep \<notin> set s \<Longrightarrow> splitN2 sep s = [s]"
  by (induction s) auto

lemma splitN2_sep: "sep \<notin> set p \<Longrightarrow> splitN2 sep (p @ sep # q) = [p, q]"
  by (induction p) auto

lemma parseInt64_digits:
  assumes "s \<noteq> []" "list_all is_digit s"
  shows "parseInt64 s = (if int (digits_val s) < 2 ^ 63 then Some (word_of_int (int (digits_val s))) else None)"
proof -
  obtain c cs where s: "s = c # cs" using assms(1) by (cases s) auto
  have "c \<noteq> CHR ''-''" "c \<noteq> CHR ''+''" using assms(2) s by (auto simp: is_digit_def)
  then show ?thesis using assms s
    by (simp add: parseInt64_def Let_def isAllDigits_def in_int64_def)
qed

lemma overflow_guard:
  assumes "0 \<le> i" "i < 2 ^ 63" "0 \<le> f" "f < 100"
  shows "((MaxInt64 - word_of_int f) div 100 <s (word_of_int i :: int64)) \<longleftrightarrow> 2 ^ 63 \<le> i * 100 + f"
proof -
  have i: "sint (word_of_int i :: int64) = i"
    using assms by (simp add: sint_of_int64 wrap64_id in_int64_def)
  have u: "uint (MaxInt64 - word_of_int f :: int64) = 2 ^ 63 - 1 - f"
    using assms by (simp add: MaxInt64_def uint_word_ariths uint_word_of_int mod_pos_pos_trivial)
  have r: "in_int64 ((2 ^ 63 - 1 - f) div 100)"
    using assms unfolding in_int64_def by simp arith
  from u have d: "uint ((MaxInt64 - word_of_int f) div 100 :: int64) = (2 ^ 63 - 1 - f) div 100"
    by (simp add: uint_div)
  then have "sint ((MaxInt64 - word_of_int f) div 100 :: int64) = (2 ^ 63 - 1 - f) div 100"
    using r by (simp add: sint_uint signed_take_bit_63 wrap64_id)
  then have "((MaxInt64 - word_of_int f) div 100 <s (word_of_int i :: int64)) \<longleftrightarrow> (2 ^ 63 - 1 - f) div 100 < i"
    using i by (simp add: word_sless_alt)
  also have "\<dots> \<longleftrightarrow> 2 ^ 63 \<le> i * 100 + f"
    using assms by simp arith
  finally show ?thesis .
qed


section \<open>The grammar of accepted amounts\<close>

text \<open>
  \<open>decimal_form s sg ip fp\<close>: the string \<open>s\<close> is an optional sign \<open>sg\<close>, at least one digit
  \<open>ip\<close>, and at most two fraction digits \<open>fp\<close>, the dot being optional when there are none.
  \<open>decimal_value\<close> is the amount it denotes, in minor units.
\<close>

definition decimal_form :: "string \<Rightarrow> string \<Rightarrow> string \<Rightarrow> string \<Rightarrow> bool" where
  "decimal_form s sg ip fp \<longleftrightarrow>
     sg \<in> {[], ''-'', ''+''} \<and> ip \<noteq> [] \<and> list_all is_digit ip \<and> list_all is_digit fp \<and> length fp \<le> 2
     \<and> (s = sg @ ip @ ''.'' @ fp \<or> fp = [] \<and> s = sg @ ip)"

definition decimal_value :: "string \<Rightarrow> string \<Rightarrow> string \<Rightarrow> int" where
  "decimal_value sg ip fp =
     (if sg = ''-'' then - 1 else 1) * (int (digits_val ip) * 100 + int (digits_val (padFrac fp)))"

definition plain_char :: "char \<Rightarrow> bool" where
  "plain_char c \<longleftrightarrow> is_digit c \<or> c \<in> set ''.-+''"

lemma plain_char_facts:
  assumes "plain_char c"
  shows "\<not> is_space c" "byte_lower c = c" "c \<notin> set ''einf''"
  using assms by (auto simp: plain_char_def is_digit_def is_space_def byte_lower_def)

lemma plain_string:
  assumes "list_all plain_char s"
  shows "toLower (trimSpace s) = s" "\<not> containsAny s ''einf''"
proof -
  have d: "dropWhile is_space t = t" if "list_all plain_char t" for t
    using that by (cases t) (auto simp: plain_char_facts)
  have "trimSpace s = s" using assms by (simp add: trimSpace_def d)
  moreover have "toLower s = s"
    using assms by (simp add: toLower_def list_all_iff map_idI plain_char_facts)
  ultimately show "toLower (trimSpace s) = s" by simp
  show "\<not> containsAny s ''einf''"
    using assms plain_char_facts(3) by (auto simp: containsAny_def list_all_iff list_ex_iff)
qed

lemma list_all_plain_digits: "list_all is_digit s \<Longrightarrow> list_all plain_char s"
  by (auto simp: list_all_iff plain_char_def)

lemma plain_char_punct [simp]: "plain_char CHR ''.''" "plain_char CHR ''-''" "plain_char CHR ''+''"
  by (simp_all add: plain_char_def)

lemma decimal_form_plain: "decimal_form s sg ip fp \<Longrightarrow> list_all plain_char s"
  by (auto simp: decimal_form_def list_all_plain_digits)

lemma digit_not_punct: "is_digit c \<Longrightarrow> c \<noteq> CHR ''.'' \<and> c \<noteq> CHR ''-'' \<and> c \<noteq> CHR ''+''"
  by (auto simp: is_digit_def)

lemma digits_no_dot: "list_all is_digit s \<Longrightarrow> CHR ''.'' \<notin> set s"
  by (auto simp: list_all_iff dest: digit_not_punct)

lemma digits_val_less: "list_all is_digit s \<Longrightarrow> digits_val s < 10 ^ length s"
proof (induction s rule: rev_induct)
  case Nil
  then show ?case by simp
next
  case (snoc c s)
  then have "digits_val s < 10 ^ length s" "digit_val c < 10" by (simp_all add: digit_val_less)
  then show ?case by simp
qed

lemma padFrac_digits:
  assumes "list_all is_digit fp" "length fp \<le> 2"
  shows "list_all is_digit (padFrac fp)" "length (padFrac fp) = 2" "digits_val (padFrac fp) < 100"
proof -
  show d: "list_all is_digit (padFrac fp)" "length (padFrac fp) = 2"
    using assms by (auto simp: padFrac_eq list_all_iff)
  show "digits_val (padFrac fp) < 100"
    using digits_val_less [OF d(1)] d(2) by simp
qed
lemma parseRest_form:
  assumes "ip \<noteq> []" "list_all is_digit ip" "list_all is_digit fp"
    "r = ip @ ''.'' @ fp \<or> fp = [] \<and> r = ip"
  shows "parseRest neg r = parseParts neg ip fp"
  using assms splitN2_sep [OF digits_no_dot [OF assms(2)]] splitN2_no_sep [OF digits_no_dot [OF assms(2)]]
  by (auto simp: parseRest_def)

lemma parseParts_form:
  assumes "ip \<noteq> []" "list_all is_digit ip" "list_all is_digit fp" "length fp \<le> 2"
  shows "parseParts neg ip fp =
    (let n = int (digits_val ip) * 100 + int (digits_val (padFrac fp)) in
     if n < 2 ^ 63 then Inr (word_of_int (if neg then - n else n)) else Inl (MoneyErr Money_ErrOverflow))"
proof -
  note pf = padFrac_digits [OF assms(3,4)]
  have pfrac: "parseInt64 (padFrac fp) = Some (word_of_int (int (digits_val (padFrac fp))))"
    using pf by (subst parseInt64_digits) auto
  show ?thesis
  proof (cases "int (digits_val ip) < 2 ^ 63")
    case False
    then show ?thesis using assms by (simp add: parseParts_def isAllDigits_def parseInt64_digits)
  next
    case True
    then have "parseInt64 ip = Some (word_of_int (int (digits_val ip)))"
      using assms by (simp add: parseInt64_digits)
    then show ?thesis
      using assms True pf(3) pfrac overflow_guard [of "int (digits_val ip)" "int (digits_val (padFrac fp))"]
      by (simp add: parseParts_def isAllDigits_def Let_def)
  qed
qed

lemma parse_of_form:
  assumes f: "decimal_form s sg ip fp"
  shows "parseDecimalToMinorUnits s =
    (if \<bar>decimal_value sg ip fp\<bar> < 2 ^ 63
     then Inr (word_of_int (decimal_value sg ip fp)) else Inl (MoneyErr Money_ErrOverflow))"
proof -
  have parts: "ip \<noteq> []" "list_all is_digit ip" "list_all is_digit fp" "length fp \<le> 2"
    using f by (auto simp: decimal_form_def)
  obtain r where r: "s = sg @ r" "r = ip @ ''.'' @ fp \<or> fp = [] \<and> r = ip" and sg: "sg \<in> {[], ''-'', ''+''}"
    using f by (auto simp: decimal_form_def)
  have "is_digit (hd r)" "r \<noteq> []" using parts r(2) by (auto simp: neq_Nil_conv)
  then have "parseDecimalToMinorUnits s = parseRest (sg = ''-'') r"
    using sg r(1) plain_string [OF decimal_form_plain [OF f]] digit_not_punct [of "hd r"]
    by (auto simp: parseDecimalToMinorUnits_def Let_def)
  then show ?thesis
    using parts r(2) by (simp add: parseRest_form parseParts_form decimal_value_def)
qed

lemma splitN2_cases:
  obtains "CHR ''.'' \<notin> set r" "splitN2 CHR ''.'' r = [r]"
  | p q where "r = p @ ''.'' @ q" "splitN2 CHR ''.'' r = [p, q]"
proof (cases "CHR ''.'' \<in> set r")
  case True
  then obtain p q where "r = p @ CHR ''.'' # q" "CHR ''.'' \<notin> set p" by (metis split_list_first)
  then show thesis using that(2) [of p q] splitN2_sep by simp
next
  case False
  then show thesis using that(1) splitN2_no_sep by simp
qed

lemma form_of_parseParts:
  "parseParts neg ip fp = Inr v \<Longrightarrow> ip \<noteq> [] \<and> list_all is_digit ip \<and> list_all is_digit fp \<and> length fp \<le> 2"
  by (auto simp: parseParts_def isAllDigits_def split: if_splits)

lemma form_of_parseRest:
  assumes "parseRest neg r = Inr v" "sg \<in> {[], ''-'', ''+''}"
  shows "\<exists>ip fp. decimal_form (sg @ r) sg ip fp"
proof (rule splitN2_cases [of r])
  assume "splitN2 CHR ''.'' r = [r]"
  then have "parseParts neg r [] = Inr v"
    using assms(1) by (simp add: parseRest_def split: if_splits)
  then show ?thesis
    using assms(2) form_of_parseParts [of neg r "[]" v] unfolding decimal_form_def by blast
next
  fix p q assume pq: "r = p @ ''.'' @ q" "splitN2 CHR ''.'' r = [p, q]"
  then have "parseParts neg p q = Inr v"
    using assms(1) by (simp add: parseRest_def split: if_splits)
  then show ?thesis
    using assms(2) form_of_parseParts [of neg p q v] pq(1) unfolding decimal_form_def by blast
qed

lemma form_of_parse:
  assumes p: "parseDecimalToMinorUnits s = Inr v"
  shows "\<exists>sg ip fp. decimal_form s sg ip fp"
proof -
  obtain c cs where s: "s = c # cs" using p by (cases s) (auto simp: parseDecimalToMinorUnits_def)
  then have "(\<exists>neg. parseRest neg s = Inr v) \<or> (c = CHR ''-'' \<or> c = CHR ''+'') \<and> (\<exists>neg. parseRest neg cs = Inr v)"
    using p by (auto simp: parseDecimalToMinorUnits_def Let_def split: if_splits)
  then show ?thesis
    using s form_of_parseRest [of _ s v "[]"] form_of_parseRest [of _ cs v "[c]"] by (auto; blast)
qed

lemma parse_iff:
  "parseDecimalToMinorUnits s = Inr v \<longleftrightarrow>
     (\<exists>sg ip fp. decimal_form s sg ip fp \<and> \<bar>decimal_value sg ip fp\<bar> < 2 ^ 63 \<and> sint v = decimal_value sg ip fp)"
  (is "?L \<longleftrightarrow> ?R")
proof -
  have w: "sint v = x \<longleftrightarrow> v = word_of_int x" if "\<bar>x\<bar> < 2 ^ 63" for x
  proof -
    have "in_int64 x" using that by (simp add: in_int64_def abs_less_iff)
    then show ?thesis by (simp add: sint64_eq_iff sint_of_int64 wrap64_id)
  qed
  show ?thesis
  proof
    assume L: ?L
    then obtain sg ip fp where f: "decimal_form s sg ip fp" using form_of_parse by blast
    with L have "\<bar>decimal_value sg ip fp\<bar> < 2 ^ 63" "v = word_of_int (decimal_value sg ip fp)"
      by (simp_all add: parse_of_form split: if_splits)
    with f w show ?R by blast
  next
    assume ?R
    then obtain sg ip fp where f: "decimal_form s sg ip fp" and lt: "\<bar>decimal_value sg ip fp\<bar> < 2 ^ 63"
      and v: "sint v = decimal_value sg ip fp" by blast
    with w [OF lt] show ?L by (simp add: parse_of_form)
  qed
qed

section \<open>Printing\<close>

lemma digits_val_zeros: "digits_val (replicate n CHR ''0'' @ s) = digits_val s"
proof -
  have "digits_val (replicate n CHR ''0'') = 0"
  proof (induction n)
    case (Suc n)
    then show ?case using digits_val_snoc [of "replicate n CHR ''0''" "CHR ''0''"]
      by (simp add: replicate_append_same digit_val_def)
  qed simp
  then show ?thesis by (simp add: digits_val_append)
qed

lemma pad2_show_nat:
  assumes "k < 100"
  shows "length (pad2 (show_nat k)) = 2" "list_all is_digit (pad2 (show_nat k))"
    "digits_val (pad2 (show_nat k)) = k"
proof -
  have "length (show_nat k) \<le> 2"
    using assms length_show_nat_less10 [of k] length_show_nat_less100 [of k] by (cases "k < 10") auto
  then show "length (pad2 (show_nat k)) = 2" by (simp add: pad2_def)
  show "list_all is_digit (pad2 (show_nat k))"
    using list_all_digit_show_nat [of k] by (auto simp: pad2_def list_all_iff)
  show "digits_val (pad2 (show_nat k)) = k"
    by (simp add: pad2_def digits_val_zeros)
qed

lemma uint_of_sint: "uint (x :: int64) = sint x mod 2 ^ 64"
  by (simp add: uint_sint take_bit_eq_mod)

lemma unat_nonneg: "0 \<le> sint x \<Longrightarrow> unat (x :: int64) = nat (sint x)"
  using sint64_bounds [of x] by (simp add: unat_eq_nat_uint uint_of_sint mod_pos_pos_trivial)

lemma unat_uminus: 
  assumes "sint x < 0" shows "unat (- x :: int64) = nat (- sint x)"
proof -
  have "wrap64 y mod 2 ^ 64 = y mod 2 ^ 64" for y
    using mod_diff_left_eq [of "y + 2 ^ 63" "2 ^ 64" "2 ^ 63"] by (simp add: wrap64_def)
  then have "uint (- x) = (- sint x) mod 2 ^ 64"
    by (simp only: uint_of_sint sint_uminus64)
  also have "\<dots> = - sint x"
    using assms sint64_bounds [of x] by (intro mod_pos_pos_trivial) auto
  finally show ?thesis by (simp add: unat_eq_nat_uint)
qed

lemma DecimalString_eq:
  "DecimalString m = (if amt m < 0 then ''-'' else []) @ show_nat (nat \<bar>amt m\<bar> div 100)
     @ ''.'' @ pad2 (show_nat (nat \<bar>amt m\<bar> mod 100))"
proof (cases "amt m < 0")
  case True
  then show ?thesis
    by (simp add: DecimalString_def Let_def word_sless_alt unat_div unat_mod unat_uminus)
next
  case False
  then show ?thesis
    by (simp add: DecimalString_def Let_def word_sless_alt unat_div unat_mod unat_nonneg)
qed

lemma DecimalString_form:
  "decimal_form (DecimalString m) (if amt m < 0 then ''-'' else []) (show_nat (nat \<bar>amt m\<bar> div 100))
     (pad2 (show_nat (nat \<bar>amt m\<bar> mod 100)))"
  using pad2_show_nat [of "nat \<bar>amt m\<bar> mod 100"] by (simp add: decimal_form_def DecimalString_eq)

lemma DecimalString_value:
  "decimal_value (if amt m < 0 then ''-'' else []) (show_nat (nat \<bar>amt m\<bar> div 100))
     (pad2 (show_nat (nat \<bar>amt m\<bar> mod 100))) = amt m"
proof -
  have k: "nat \<bar>amt m\<bar> mod 100 < 100" by simp
  have "int (nat \<bar>amt m\<bar> div 100) * 100 + int (nat \<bar>amt m\<bar> mod 100) = int (nat \<bar>amt m\<bar>)"
    by (metis div_mult_mod_eq of_nat_add of_nat_mult of_nat_numeral)
  also have "\<dots> = \<bar>amt m\<bar>" by simp
  finally have "int (nat \<bar>amt m\<bar> div 100) * 100 + int (nat \<bar>amt m\<bar> mod 100) = \<bar>amt m\<bar>" .
  then show ?thesis
    using pad2_show_nat [OF k] by (simp add: decimal_value_def padFrac_eq)
qed

lemma parse_DecimalString:
  assumes "amt m \<noteq> - (2 ^ 63)"
  shows "parseDecimalToMinorUnits (DecimalString m) = Inr (minorUnits m)"
proof -
  have "\<bar>amt m\<bar> < 2 ^ 63" using assms sint64_bounds [of "minorUnits m"] by (simp add: abs_less_iff)
  then show ?thesis
    using DecimalString_form [of m] DecimalString_value [of m] by (simp add: parse_of_form)
qed
section \<open>Round trips\<close>

lemma FromDecimalString_print:
  assumes "money_ok m"
  shows "FromDecimalString (DecimalString m) (currency m) =
    (if amt m = - (2 ^ 63) then Inl (MoneyErr Money_ErrOverflow)
     else if amt m < 0 then Inl (MoneyErr Money_ErrNegativeNotAllowed) else Inr m)"
proof (cases "amt m = - (2 ^ 63)")
  case True
  then show ?thesis
    using assms DecimalString_form [of m] DecimalString_value [of m]
    by (simp add: FromDecimalString_def money_ok_def parse_of_form)
next
  case False
  then show ?thesis
    using assms by (cases m) (simp add: FromDecimalString_def money_ok_def parse_DecimalString word_sless_alt)
qed

lemma FromDecimalString_Inr_iff:
  "FromDecimalString a c = Inr m \<longleftrightarrow>
     parseDecimalToMinorUnits a = Inr (minorUnits m) \<and> 0 \<le> amt m \<and> normalizeCurrency c = Inr (currency m)"
  by (cases m) (fastforce simp: FromDecimalString_def bindE_Inr_iff word_sless_alt split: if_splits)

lemma FromDecimalString_ok: "FromDecimalString a c = Inr m \<Longrightarrow> money_ok m \<and> 0 \<le> amt m"
  by (auto simp: FromDecimalString_Inr_iff money_ok_def normalizeCurrency_Inr_iff)

section \<open>Properties\<close>

text \<open>C34: \<open>FromDecimalString\<close> accepts exactly the grammar: an optional sign, at least one digit, at
  most two fraction digits, a non-negative value that fits \<open>int64\<close> minor units, and a currency
  whose upper case is an ISO 4217 code of the table; and it returns exactly the value the text
  denotes in that currency. Exponents, blanks, \<open>NaN\<close>, a third decimal place or a missing
  integer part are never accepted.\<close>

theorem FromDecimalString_accepts_grammar:
  "FromDecimalString a c = Inr m \<longleftrightarrow>
     (\<exists>sg ip fp. decimal_form a sg ip fp \<and> amt m = decimal_value sg ip fp) \<and> 0 \<le> amt m \<and>
     currency m = toUpper c \<and> toUpper c \<in> set iso4217Currencies"
proof -
  have "\<bar>amt m\<bar> < 2 ^ 63" if "0 \<le> amt m"
    using that sint64_bounds [of "minorUnits m"] by (simp add: abs_less_iff)
  then have "0 \<le> amt m \<Longrightarrow> parseDecimalToMinorUnits a = Inr (minorUnits m) \<longleftrightarrow>
      (\<exists>sg ip fp. decimal_form a sg ip fp \<and> amt m = decimal_value sg ip fp)"
    unfolding parse_iff by metis
  then show ?thesis by (auto simp: FromDecimalString_Inr_iff normalizeCurrency_Inr_iff)
qed

text \<open>C35: A well-formed amount survives the trip through its text and through its JSON object:
  printing and parsing give the same amount back whenever it is not negative; a negative one is
  refused on the way in, as \<open>UnmarshalJSON\<close> documents.\<close>

theorem money_text_roundtrip:
  assumes "money_ok m"
  shows "\<exists>j. MarshalJSON m = Inr j \<and> js_amount j = DecimalString m \<and>
    UnmarshalJSON (Some j) =
      (if amt m = - (2 ^ 63) then Inl (MoneyErr Money_ErrOverflow)
       else if amt m < 0 then Inl (MoneyErr Money_ErrNegativeNotAllowed) else Inr m)"
  using FromDecimalString_print [OF assms] money_ok_nonempty [OF assms]
  by (simp add: MarshalJSON_def UnmarshalJSON_def)

theorem money_text_roundtrip_witness:
  "\<exists>j. MarshalJSON \<lparr>minorUnits = 2530, currency = ''BRL''\<rparr> = Inr j \<and>
     js_amount j = DecimalString \<lparr>minorUnits = 2530, currency = ''BRL''\<rparr> \<and>
     UnmarshalJSON (Some j) = Inr \<lparr>minorUnits = 2530, currency = ''BRL''\<rparr>"
  using money_text_roundtrip [of "\<lparr>minorUnits = 2530, currency = ''BRL''\<rparr>"] by (simp add: money_ok_def)

end
