(* ===== verification/Wallet.thy ===== *)
theory Wallet
  imports Money_Text
begin

text \<open>
  The aggregate \<open>Wallet\<close> of \<open>internal/domain/wallet/wallet.go\<close>: construction,
  rehydration, \<open>Debit\<close> and \<open>Credit\<close>. A method that mutates its receiver and returns an
  error returns here the pair of the error (\<open>None\<close> for nil) and the receiver after the call.
\<close>

section \<open>Mutators\<close>

text \<open>Instants are nanoseconds since the Unix epoch.\<close>

type_synonym Time = int

type_synonym 's mutated = "go_error option \<times> 's"

text \<open>\<open>if err := x.M(..); err != nil { return err }\<close>: the caller gives up on an error.\<close>

definition orReturn :: "'s mutated \<Rightarrow> 's result" where
  "orReturn r = (case r of (Some e, _) \<Rightarrow> Inl e | (None, s) \<Rightarrow> Inr s)"

lemma orReturn_simps [simp]:
  "orReturn (Some e, s) = Inl e"
  "orReturn (None, s) = Inr s"
  by (simp_all add: orReturn_def)

lemma orReturn_Inr_iff [simp]: "orReturn r = Inr s \<longleftrightarrow> r = (None, s)"
  by (cases r; cases "fst r") auto

section \<open>The aggregate\<close>

record Wallet =
  w_id :: string
  w_playerID :: string
  w_balance :: Money
  w_version :: int64
  w_createdAt :: Time
  w_updatedAt :: Time

definition w_currency :: "Wallet \<Rightarrow> string" where
  "w_currency w = currency (w_balance w)"

definition NewWallet :: "string \<Rightarrow> string \<Rightarrow> Money \<Rightarrow> Time \<Rightarrow> Wallet result" where
  "NewWallet wid playerID initialBalance now =
     (if wid = [] then Inl (WalletErr Wallet_ErrEmptyID)
      else if playerID = [] then Inl (WalletErr Wallet_ErrEmptyPlayerID)
      else if IsNegative initialBalance then Inl (WalletErr Wallet_ErrNegativeInitial)
      else Inr \<lparr>w_id = wid, w_playerID = playerID, w_balance = initialBalance, w_version = 1,
        w_createdAt = now, w_updatedAt = now\<rparr>)"

definition RehydrateWallet ::
    "string \<Rightarrow> string \<Rightarrow> Money \<Rightarrow> int64 \<Rightarrow> Time \<Rightarrow> Time \<Rightarrow> Wallet result" where
  "RehydrateWallet wid playerID balance version createdAt updatedAt =
     (if wid = [] then Inl (WalletErr Wallet_ErrEmptyID)
      else if playerID = [] then Inl (WalletErr Wallet_ErrEmptyPlayerID)
      else if IsNegative balance then Inl (WalletErr Wallet_ErrNegativeInitial)
      else if version <s 1 then Inl (WalletErr Wallet_ErrInvalidVersion)
      else Inr \<lparr>w_id = wid, w_playerID = playerID, w_balance = balance, w_version = version,
        w_createdAt = createdAt, w_updatedAt = updatedAt\<rparr>)"

definition Debit :: "Wallet \<Rightarrow> Money \<Rightarrow> Time \<Rightarrow> Wallet mutated" where
  "Debit w amount now =
     (if IsNegative amount \<or> IsZero amount then (Some (WalletErr Wallet_ErrAmountMustBePositive), w)
      else if currency amount \<noteq> w_currency w then (Some (WalletErr Wallet_ErrCurrencyMismatch), w)
      else case Sub (w_balance w) amount of
        Inl e \<Rightarrow> (Some e, w)
      | Inr newBalance \<Rightarrow>
          if IsNegative newBalance then (Some (WalletErr Wallet_ErrInsufficientBalance), w)
          else (None, w\<lparr>w_balance := newBalance, w_version := w_version w + 1, w_updatedAt := now\<rparr>))"

definition Credit :: "Wallet \<Rightarrow> Money \<Rightarrow> Time \<Rightarrow> Wallet mutated" where
  "Credit w amount now =
     (if IsNegative amount \<or> IsZero amount then (Some (WalletErr Wallet_ErrAmountMustBePositive), w)
      else if currency amount \<noteq> w_currency w then (Some (WalletErr Wallet_ErrCurrencyMismatch), w)
      else case Add (w_balance w) amount of
        Inl e \<Rightarrow> (Some e, w)
      | Inr newBalance \<Rightarrow>
          (None, w\<lparr>w_balance := newBalance, w_version := w_version w + 1, w_updatedAt := now\<rparr>))"

section \<open>The contract of a balance movement\<close>

text \<open>
  What the use cases rely on in \<open>Debit\<close> and \<open>Credit\<close> alike, \<open>dir\<close> being \<open>-1\<close> or \<open>1\<close>: a
  failed call leaves the wallet as it was; a successful one moves the balance by exactly the
  amount, in its own currency, counts one version and touches no identity field.
\<close>

locale balance_move =
  fixes move :: "Wallet \<Rightarrow> Money \<Rightarrow> Time \<Rightarrow> Wallet mutated"
    and dir :: int
  assumes move_failed: "fst (move w a now) \<noteq> None \<Longrightarrow> snd (move w a now) = w"
    and move_done: "fst (move w a now) = None \<Longrightarrow>
      (\<exists>b. snd (move w a now) = w\<lparr>w_balance := b, w_version := w_version w + 1, w_updatedAt := now\<rparr>
        \<and> amt b = amt (w_balance w) + dir * amt a \<and> currency b = w_currency w)
      \<and> 0 < amt a \<and> currency a = w_currency w \<and> w_currency w \<noteq> []"
begin

lemma move_error_keeps: "move w a now = (Some e, w') \<Longrightarrow> w' = w"
  using move_failed [of w a now] by simp

lemma move_effect:
  assumes "move w a now = (None, w')"
  shows "amt (w_balance w') = amt (w_balance w) + dir * amt a"
    and "w_currency w' = w_currency w" and "currency (w_balance w') = currency (w_balance w)"
    and "w_id w' = w_id w" and "w_playerID w' = w_playerID w"
    and "w_version w' = w_version w + 1"
    and "w_createdAt w' = w_createdAt w" and "w_updatedAt w' = now"
    and "0 < amt a" and "currency a = currency (w_balance w)"
  using move_done [of w a now] assms by (auto simp: w_currency_def)

lemma move_changes_balance:
  assumes "move w a now = (None, w')" "dir \<noteq> 0"
  shows "amt (w_balance w') \<noteq> amt (w_balance w)"
  using move_effect(1) [OF assms(1)] move_effect(9) [OF assms(1)] assms(2) by simp

end

interpretation debit: balance_move Debit "- 1"
proof (unfold_locales, goal_cases)
  case (1 w a now)
  then show ?case by (cases "Sub (w_balance w) a") (auto simp: Debit_def split: if_splits)
next
  case (2 w a now)
  then show ?case
    by (cases "Sub (w_balance w) a")
      (auto simp: Debit_def w_currency_def split: if_splits dest: msub.op_Inr_iff [THEN iffD1])
qed

interpretation credit: balance_move Credit 1
proof (unfold_locales, goal_cases)
  case (1 w a now)
  then show ?case by (cases "Add (w_balance w) a") (auto simp: Credit_def split: if_splits)
next
  case (2 w a now)
  then show ?case
    by (cases "Add (w_balance w) a")
      (auto simp: Credit_def w_currency_def split: if_splits dest: madd.op_Inr_iff [THEN iffD1])
qed

section \<open>The invariant of the aggregate\<close>

definition wallet_inv :: "Wallet \<Rightarrow> bool" where
  "wallet_inv w \<longleftrightarrow> w_id w \<noteq> [] \<and> w_playerID w \<noteq> [] \<and> 0 \<le> amt (w_balance w) \<and> 1 \<le> sint (w_version w)"

lemma sint_version_1 [simp]: "sint (1 :: int64) = 1"
  by simp

lemma NewWallet_Inr_iff:
  "NewWallet wid p b now = Inr w \<longleftrightarrow> wid \<noteq> [] \<and> p \<noteq> [] \<and> 0 \<le> amt b \<and>
     w = \<lparr>w_id = wid, w_playerID = p, w_balance = b, w_version = 1, w_createdAt = now, w_updatedAt = now\<rparr>"
  by (auto simp: NewWallet_def)

lemma RehydrateWallet_Inr_iff:
  "RehydrateWallet wid p b v c u = Inr w \<longleftrightarrow>
     w = \<lparr>w_id = wid, w_playerID = p, w_balance = b, w_version = v, w_createdAt = c, w_updatedAt = u\<rparr>
     \<and> wallet_inv w"
  by (auto simp: RehydrateWallet_def wallet_inv_def word_sless_alt)

lemma Debit_None_iff:
  "Debit w a now = (None, w') \<longleftrightarrow>
     0 < amt a \<and> currency a = w_currency w \<and> w_currency w \<noteq> [] \<and> amt a \<le> amt (w_balance w) \<and>
     w' = w\<lparr>w_balance := \<lparr>minorUnits = minorUnits (w_balance w) - minorUnits a, currency = w_currency w\<rparr>,
            w_version := w_version w + 1, w_updatedAt := now\<rparr>"
proof -
  have "in_int64 (amt (w_balance w) - amt a)" if "0 < amt a" "amt a \<le> amt (w_balance w)"
    using that sint64_bounds [of "minorUnits (w_balance w)"] by (simp add: in_int64_def)
  then show ?thesis
    by (auto simp: Debit_def Sub_def subInt64_spec w_currency_def int64_simps)
qed

lemma Credit_None_iff:
  "Credit w a now = (None, w') \<longleftrightarrow>
     0 < amt a \<and> currency a = w_currency w \<and> w_currency w \<noteq> [] \<and> in_int64 (amt (w_balance w) + amt a) \<and>
     w' = w\<lparr>w_balance := \<lparr>minorUnits = minorUnits (w_balance w) + minorUnits a, currency = w_currency w\<rparr>,
            w_version := w_version w + 1, w_updatedAt := now\<rparr>"
  by (auto simp: Credit_def Add_def addInt64_spec w_currency_def)

text \<open>A debit of a wallet with a non-negative balance cannot overflow: only the wallet's own errors are left.\<close>

lemma Debit_error:
  assumes "0 \<le> amt (w_balance w)"
  shows "fst (Debit w a now) =
    (if amt a \<le> 0 then Some (WalletErr Wallet_ErrAmountMustBePositive)
     else if currency a \<noteq> w_currency w then Some (WalletErr Wallet_ErrCurrencyMismatch)
     else if w_currency w = [] then Some (MoneyErr Money_ErrEmptyCurrency)
     else if amt (w_balance w) < amt a then Some (WalletErr Wallet_ErrInsufficientBalance)
     else None)"
proof -
  have "in_int64 (amt (w_balance w) - amt a)" if "0 < amt a"
    using that assms sint64_bounds [of "minorUnits (w_balance w)"] sint64_bounds [of "minorUnits a"]
    by (simp add: in_int64_def)
  then show ?thesis
    by (auto simp: Debit_def Sub_def subInt64_spec w_currency_def int64_simps)
qed

lemma version_step: "1 \<le> sint v \<Longrightarrow> sint v < 2 ^ 63 - 1 \<Longrightarrow> sint (v + 1 :: int64) = sint v + 1"
  by (simp add: sint_plus_exact in_int64_def)

lemma Debit_inv:
  assumes "wallet_inv w" "sint (w_version w) < 2 ^ 63 - 1"
  shows "wallet_inv (snd (Debit w a now))"
proof (cases "fst (Debit w a now)")
  case None
  then have d: "Debit w a now = (None, snd (Debit w a now))" by (simp add: prod_eq_iff)
  have "amt a \<le> amt (w_balance w)" using d by (simp add: Debit_None_iff)
  then show ?thesis
    using debit.move_effect [OF d] assms by (simp add: wallet_inv_def version_step)
next
  case (Some e)
  then show ?thesis using debit.move_failed [of w a now] assms(1) by simp
qed

lemma Credit_inv:
  assumes "wallet_inv w" "sint (w_version w) < 2 ^ 63 - 1"
  shows "wallet_inv (snd (Credit w a now))"
proof (cases "fst (Credit w a now)")
  case None
  then have d: "Credit w a now = (None, snd (Credit w a now))" by (simp add: prod_eq_iff)
  then show ?thesis
    using credit.move_effect [OF d] assms by (simp add: wallet_inv_def version_step)
next
  case (Some e)
  then show ?thesis using credit.move_failed [of w a now] assms(1) by simp
qed

section \<open>Histories of one wallet\<close>

text \<open>A sequence of calls, each on what the previous one left, whatever it returned; \<open>True\<close> stands for \<open>Credit\<close>.\<close>

fun wallet_call :: "Wallet \<Rightarrow> bool \<times> Money \<times> Time \<Rightarrow> Wallet mutated" where
  "wallet_call w (True, a, now) = Credit w a now"
| "wallet_call w (False, a, now) = Debit w a now"

fun wallet_history :: "Wallet \<Rightarrow> (bool \<times> Money \<times> Time) list \<Rightarrow> Wallet" where
  "wallet_history w [] = w"
| "wallet_history w (c # cs) = wallet_history (snd (wallet_call w c)) cs"

text \<open>What the calls that succeeded moved, and how many they were.\<close>

fun moved :: "Wallet \<Rightarrow> (bool \<times> Money \<times> Time) list \<Rightarrow> int" where
  "moved w [] = 0"
| "moved w (c # cs) =
     (if fst (wallet_call w c) = None then (if fst c then 1 else - 1) * amt (fst (snd c)) else 0)
     + moved (snd (wallet_call w c)) cs"

fun moves :: "Wallet \<Rightarrow> (bool \<times> Money \<times> Time) list \<Rightarrow> nat" where
  "moves w [] = 0"
| "moves w (c # cs) =
     (if fst (wallet_call w c) = None then 1 else 0) + moves (snd (wallet_call w c)) cs"

lemma wallet_call_step:
  assumes "wallet_inv w" "sint (w_version w) < 2 ^ 63 - 1"
  shows "wallet_inv (snd (wallet_call w c))"
    and "amt (w_balance (snd (wallet_call w c))) = amt (w_balance w)
      + (if fst (wallet_call w c) = None then (if fst c then 1 else - 1) * amt (fst (snd c)) else 0)"
    and "sint (w_version (snd (wallet_call w c))) = sint (w_version w)
      + (if fst (wallet_call w c) = None then 1 else 0)"
    and "w_currency (snd (wallet_call w c)) = w_currency w"
    and "w_id (snd (wallet_call w c)) = w_id w \<and> w_playerID (snd (wallet_call w c)) = w_playerID w"
proof -
  obtain b a now where c: "c = (b, a, now)" by (cases c)
  obtain r w' where r: "wallet_call w c = (r, w')" by fastforce
  have v: "sint (w_version w + 1) = sint (w_version w) + 1"
    using assms by (simp add: wallet_inv_def version_step)
  show "wallet_inv (snd (wallet_call w c))"
    using Debit_inv [OF assms] Credit_inv [OF assms] by (cases b) (simp_all add: c)
  have d: "amt (w_balance w') = amt (w_balance w) + (if r = None then (if b then 1 else - 1) * amt a else 0) \<and>
      sint (w_version w') = sint (w_version w) + (if r = None then 1 else 0) \<and>
      w_currency w' = w_currency w \<and> w_id w' = w_id w \<and> w_playerID w' = w_playerID w"
  proof (cases r)
    case None
    show ?thesis
    proof (cases b)
      case True
      then have "Credit w a now = (None, w')" using r c None by simp
      from credit.move_effect [OF this] show ?thesis using True None v by simp
    next
      case False
      then have "Debit w a now = (None, w')" using r c None by simp
      from debit.move_effect [OF this] show ?thesis using False None v by simp
    qed
  next
    case (Some e)
    then have "w' = w"
      using r c debit.move_error_keeps [of w a now e w'] credit.move_error_keeps [of w a now e w']
      by (cases b) simp_all
    then show ?thesis using Some by simp
  qed
  then show "amt (w_balance (snd (wallet_call w c))) = amt (w_balance w)
      + (if fst (wallet_call w c) = None then (if fst c then 1 else - 1) * amt (fst (snd c)) else 0)"
    "sint (w_version (snd (wallet_call w c))) = sint (w_version w)
      + (if fst (wallet_call w c) = None then 1 else 0)"
    "w_currency (snd (wallet_call w c)) = w_currency w"
    "w_id (snd (wallet_call w c)) = w_id w \<and> w_playerID (snd (wallet_call w c)) = w_playerID w"
    by (simp_all add: r) (simp_all add: c)
qed

section \<open>Properties\<close>

text \<open>C36: \<open>Wallet.Debit\<close> on every input, for a wallet that satisfies its invariant: the checks in
  order, and on success the exact new balance, one more version and the new update time. It never
  overflows and never makes the balance negative; a refused debit leaves the wallet as it was.\<close>

theorem Debit_exact:
  assumes "wallet_inv w"
  shows "Debit w a now =
    (if amt a \<le> 0 then (Some (WalletErr Wallet_ErrAmountMustBePositive), w)
     else if currency a \<noteq> w_currency w then (Some (WalletErr Wallet_ErrCurrencyMismatch), w)
     else if w_currency w = [] then (Some (MoneyErr Money_ErrEmptyCurrency), w)
     else if amt (w_balance w) < amt a then (Some (WalletErr Wallet_ErrInsufficientBalance), w)
     else (None, w\<lparr>w_balance := \<lparr>minorUnits = word_of_int (amt (w_balance w) - amt a), currency = w_currency w\<rparr>,
       w_version := w_version w + 1, w_updatedAt := now\<rparr>))"
proof -
  have "0 \<le> amt (w_balance w)" using assms by (simp add: wallet_inv_def)
  note err = Debit_error [OF this, of a now]
  show ?thesis
  proof (cases "fst (Debit w a now)")
    case None
    then have d: "Debit w a now = (None, snd (Debit w a now))" by (simp add: prod_eq_iff)
    then show ?thesis by (simp add: Debit_None_iff wi_hom_syms)
  next
    case (Some e)
    then have "snd (Debit w a now) = w" by (simp add: debit.move_failed)
    then show ?thesis using err Some by (auto simp: prod_eq_iff split: if_splits)
  qed
qed

theorem Debit_exact_witness:
  "Debit \<lparr>w_id = ''w'', w_playerID = ''p'', w_balance = \<lparr>minorUnits = 10000, currency = ''BRL''\<rparr>,
      w_version = 1, w_createdAt = 0, w_updatedAt = 0\<rparr> \<lparr>minorUnits = 8000, currency = ''BRL''\<rparr> 7
   = (None, \<lparr>w_id = ''w'', w_playerID = ''p'', w_balance = \<lparr>minorUnits = 2000, currency = ''BRL''\<rparr>,
      w_version = 2, w_createdAt = 0, w_updatedAt = 7\<rparr>)"
  by (subst Debit_exact) (simp_all add: wallet_inv_def w_currency_def)

text \<open>C37: A sequence of \<open>Debit\<close> and \<open>Credit\<close> calls in any order, with any amounts, some of them
  refused: the invariant of the wallet (non-negative balance, positive version, identity set)
  holds at the end, the balance is the initial one plus exactly what the successful calls moved,
  the version has counted exactly the successful calls, and owner and currency never change. The
  bound says that the version counter, an \<open>int64\<close>, does not run out.\<close>

theorem wallet_history_accounts:
  assumes "wallet_inv w" "sint (w_version w) + int (length cs) < 2 ^ 63"
  shows "wallet_inv (wallet_history w cs) \<and>
    amt (w_balance (wallet_history w cs)) = amt (w_balance w) + moved w cs \<and>
    sint (w_version (wallet_history w cs)) = sint (w_version w) + int (moves w cs) \<and>
    w_currency (wallet_history w cs) = w_currency w \<and>
    w_id (wallet_history w cs) = w_id w \<and> w_playerID (wallet_history w cs) = w_playerID w"
  using assms
proof (induction cs arbitrary: w)
  case Nil
  then show ?case by simp
next
  case (Cons c cs)
  have "sint (w_version w) < 2 ^ 63 - 1" using Cons.prems(2) by simp
  note step = wallet_call_step [OF Cons.prems(1) this, of c]
  have "sint (w_version (snd (wallet_call w c))) + int (length cs) < 2 ^ 63"
    using Cons.prems(2) step(3) by simp
  from Cons.IH [OF step(1) this] show ?case using step by simp
qed

theorem wallet_history_accounts_witness:
  "amt (w_balance (wallet_history \<lparr>w_id = ''w'', w_playerID = ''p'',
       w_balance = \<lparr>minorUnits = 10000, currency = ''BRL''\<rparr>, w_version = 1, w_createdAt = 0, w_updatedAt = 0\<rparr>
     [(False, \<lparr>minorUnits = 8000, currency = ''BRL''\<rparr>, 1), (False, \<lparr>minorUnits = 8000, currency = ''BRL''\<rparr>, 2)])) = 2000"
  using wallet_history_accounts [of "\<lparr>w_id = ''w'', w_playerID = ''p'',
       w_balance = \<lparr>minorUnits = 10000, currency = ''BRL''\<rparr>, w_version = 1, w_createdAt = 0, w_updatedAt = 0\<rparr>"
     "[(False, \<lparr>minorUnits = 8000, currency = ''BRL''\<rparr>, 1), (False, \<lparr>minorUnits = 8000, currency = ''BRL''\<rparr>, 2)]"]
  by (simp add: wallet_inv_def Debit_def Sub_def subInt64_def Let_def w_currency_def word_sless_alt)

end
