(* ===== verification/Wager_Tx.thy ===== *)
theory Wager_Tx
  imports Wallet
begin

text \<open>
  \<open>WagerTransaction\<close> of \<open>internal/domain/wagertx\<close>: the record of one financial operation
  and its state machine. \<open>Kind\<close> and \<open>Status\<close> are Go strings; a \<open>Kind\<close> that is none of the
  declared constants is \<open>KindOther\<close>. A \<open>Status\<close> is only ever one of the constants (the code
  assigns no other, and the schema admits no other to be read back).
\<close>

section \<open>Kinds, statuses, failure codes\<close>

datatype Kind = KindBet | KindWin | KindLoss | KindRefund | KindRollback | KindOpening
  | KindOther string

datatype Status = StatusPending | StatusPendingReference | StatusProcessed | StatusRejected
  | StatusFailed

text \<open>The conversions \<open>wagertx.Kind(s)\<close>, \<open>string(k)\<close> and \<open>string(status)\<close>.\<close>

definition Kind_of :: "string \<Rightarrow> Kind" where
  "Kind_of s =
     (if s = ''BET'' then KindBet else if s = ''WIN'' then KindWin else if s = ''LOSS'' then KindLoss
      else if s = ''REFUND'' then KindRefund else if s = ''ROLLBACK'' then KindRollback
      else if s = ''OPENING'' then KindOpening else KindOther s)"

fun Kind_str :: "Kind \<Rightarrow> string" where
  "Kind_str KindBet = ''BET''"
| "Kind_str KindWin = ''WIN''"
| "Kind_str KindLoss = ''LOSS''"
| "Kind_str KindRefund = ''REFUND''"
| "Kind_str KindRollback = ''ROLLBACK''"
| "Kind_str KindOpening = ''OPENING''"
| "Kind_str (KindOther s) = s"

fun Status_str :: "Status \<Rightarrow> string" where
  "Status_str StatusPending = ''PENDING''"
| "Status_str StatusPendingReference = ''PENDING_REFERENCE''"
| "Status_str StatusProcessed = ''PROCESSED''"
| "Status_str StatusRejected = ''REJECTED''"
| "Status_str StatusFailed = ''FAILED''"

lemma Kind_str_of [simp]: "Kind_str (Kind_of s) = s"
  by (simp add: Kind_of_def)

definition FailureCodeInsufficientBalance :: string where
  "FailureCodeInsufficientBalance = ''INSUFFICIENT_BALANCE''"

definition FailureCodeCurrencyMismatch :: string where
  "FailureCodeCurrencyMismatch = ''CURRENCY_MISMATCH''"

section \<open>The transaction\<close>

record WagerTransaction =
  t_id :: string
  t_kind :: Kind
  t_status :: Status
  t_walletID :: string
  t_playerID :: string
  t_money :: Money
  t_providerID :: string
  t_externalID :: string
  t_idempotencyKey :: string
  t_payloadHash :: string
  t_roundID :: string
  t_gameID :: string
  t_referenceExternalID :: string
  t_resolvedReferenceID :: string
  t_failureCode :: string
  t_financialResult :: "Money option"
  t_referenceRetryAttempts :: int64
  t_referenceNextRetryAt :: "Time option"
  t_createdAt :: Time
  t_updatedAt :: Time

datatype amountRule = amountMustBePositive | amountMustBeZero

text \<open>\<open>rulesFor\<close> returns the amount rule and whether a reference is required and allowed; \<open>None\<close> is \<open>ok = false\<close>.\<close>

fun rulesFor :: "Kind \<Rightarrow> (amountRule \<times> bool \<times> bool) option" where
  "rulesFor KindBet = Some (amountMustBePositive, False, False)"
| "rulesFor KindWin = Some (amountMustBePositive, False, True)"
| "rulesFor KindLoss = Some (amountMustBeZero, False, False)"
| "rulesFor KindRefund = Some (amountMustBePositive, True, True)"
| "rulesFor KindRollback = Some (amountMustBePositive, True, True)"
| "rulesFor _ = None"

fun checkAmount :: "amountRule \<Rightarrow> Money \<Rightarrow> wagertx_err option" where
  "checkAmount amountMustBeZero amount =
     (if \<not> IsZero amount then Some Wagertx_ErrLossAmountMustBeZero else None)"
| "checkAmount amountMustBePositive amount =
     (if IsZero amount \<or> IsNegative amount then Some Wagertx_ErrAmountMustBePositive else None)"

definition NewExternalTransaction ::
    "string \<Rightarrow> string \<Rightarrow> string \<Rightarrow> string \<Rightarrow> string \<Rightarrow> string \<Rightarrow> string \<Rightarrow> string \<Rightarrow> string \<Rightarrow>
     Kind \<Rightarrow> Money \<Rightarrow> string \<Rightarrow> Time \<Rightarrow> WagerTransaction result" where
  "NewExternalTransaction txid providerID externalID idempotencyKey payloadHash walletID playerID
     roundID gameID kind amount referenceExternalID now =
     (if txid = [] then Inl (WagertxErr Wagertx_ErrEmptyID)
      else if kind = KindOpening then Inl (WagertxErr Wagertx_ErrOpeningNotExternal)
      else case rulesFor kind of
        None \<Rightarrow> Inl (WagertxErr Wagertx_ErrInvalidKind)
      | Some (rule, refRequired, refAllowed) \<Rightarrow>
      if providerID = [] then Inl (WagertxErr Wagertx_ErrEmptyProviderID)
      else if externalID = [] then Inl (WagertxErr Wagertx_ErrEmptyExternalID)
      else if idempotencyKey = [] then Inl (WagertxErr Wagertx_ErrEmptyIdempotencyKey)
      else if payloadHash = [] then Inl (WagertxErr Wagertx_ErrEmptyPayloadHash)
      else if walletID = [] then Inl (WagertxErr Wagertx_ErrEmptyWalletID)
      else if playerID = [] then Inl (WagertxErr Wagertx_ErrEmptyPlayerID)
      else if roundID = [] then Inl (WagertxErr Wagertx_ErrEmptyRoundID)
      else if gameID = [] then Inl (WagertxErr Wagertx_ErrEmptyGameID)
      else if currency amount = [] then Inl (WagertxErr Wagertx_ErrEmptyCurrency)
      else case checkAmount rule amount of
        Some e \<Rightarrow> Inl (WagertxErr e)
      | None \<Rightarrow>
      if refRequired \<and> referenceExternalID = [] then Inl (WagertxErr Wagertx_ErrReferenceRequired)
      else if \<not> refAllowed \<and> referenceExternalID \<noteq> [] then Inl (WagertxErr Wagertx_ErrReferenceNotAllowed)
      else Inr \<lparr>t_id = txid, t_kind = kind, t_status = StatusPending, t_walletID = walletID,
        t_playerID = playerID, t_money = amount, t_providerID = providerID, t_externalID = externalID,
        t_idempotencyKey = idempotencyKey, t_payloadHash = payloadHash, t_roundID = roundID,
        t_gameID = gameID, t_referenceExternalID = referenceExternalID, t_resolvedReferenceID = [],
        t_failureCode = [], t_financialResult = None, t_referenceRetryAttempts = 0,
        t_referenceNextRetryAt = None, t_createdAt = now, t_updatedAt = now\<rparr>)"

definition NewOpeningTransaction ::
    "string \<Rightarrow> string \<Rightarrow> string \<Rightarrow> Money \<Rightarrow> Time \<Rightarrow> WagerTransaction result" where
  "NewOpeningTransaction txid walletID playerID amount now =
     (if txid = [] then Inl (WagertxErr Wagertx_ErrEmptyID)
      else if walletID = [] then Inl (WagertxErr Wagertx_ErrEmptyWalletID)
      else if playerID = [] then Inl (WagertxErr Wagertx_ErrEmptyPlayerID)
      else if IsZero amount \<or> IsNegative amount then Inl (WagertxErr Wagertx_ErrAmountMustBePositive)
      else Inr \<lparr>t_id = txid, t_kind = KindOpening, t_status = StatusProcessed, t_walletID = walletID,
        t_playerID = playerID, t_money = amount, t_providerID = [], t_externalID = [],
        t_idempotencyKey = [], t_payloadHash = [], t_roundID = [], t_gameID = [],
        t_referenceExternalID = [], t_resolvedReferenceID = [],
        t_failureCode = [], t_financialResult = None, t_referenceRetryAttempts = 0,
        t_referenceNextRetryAt = None, t_createdAt = now, t_updatedAt = now\<rparr>)"

text \<open>\<open>Rehydrate\<close> takes every field and only refuses an empty id; its argument is the record of the fields.\<close>

definition RehydrateTx :: "WagerTransaction \<Rightarrow> WagerTransaction result" where
  "RehydrateTx t =
     (if t_id t = [] then Inl (WagertxErr Wagertx_ErrEmptyID) else Inr t)"

section \<open>The state machine\<close>

definition IsTerminal :: "WagerTransaction \<Rightarrow> bool" where
  "IsTerminal t \<longleftrightarrow> (case t_status t of
     StatusProcessed \<Rightarrow> True | StatusRejected \<Rightarrow> True | StatusFailed \<Rightarrow> True | _ \<Rightarrow> False)"

definition MarkPendingReference :: "WagerTransaction \<Rightarrow> Time \<Rightarrow> WagerTransaction mutated" where
  "MarkPendingReference t now =
     (if t_status t \<noteq> StatusPending then (Some (WagertxErr Wagertx_ErrInvalidTransition), t)
      else (None, t\<lparr>t_status := StatusPendingReference, t_updatedAt := now\<rparr>))"

definition MarkProcessed :: "WagerTransaction \<Rightarrow> Money \<Rightarrow> Time \<Rightarrow> WagerTransaction mutated" where
  "MarkProcessed t financialResult now =
     (if t_status t \<noteq> StatusPending \<and> t_status t \<noteq> StatusPendingReference
      then (Some (WagertxErr Wagertx_ErrInvalidTransition), t)
      else (None, t\<lparr>t_status := StatusProcessed, t_financialResult := Some financialResult,
        t_updatedAt := now\<rparr>))"

definition markRejected ::
    "WagerTransaction \<Rightarrow> string \<Rightarrow> Money option \<Rightarrow> Time \<Rightarrow> WagerTransaction mutated" where
  "markRejected t failureCode financialResult now =
     (if failureCode = [] then (Some (WagertxErr Wagertx_ErrEmptyFailureCode), t)
      else if t_status t \<noteq> StatusPending \<and> t_status t \<noteq> StatusPendingReference
      then (Some (WagertxErr Wagertx_ErrInvalidTransition), t)
      else (None, t\<lparr>t_status := StatusRejected, t_failureCode := failureCode,
        t_financialResult := financialResult, t_updatedAt := now\<rparr>))"

definition MarkRejected :: "WagerTransaction \<Rightarrow> string \<Rightarrow> Time \<Rightarrow> WagerTransaction mutated" where
  "MarkRejected t failureCode now = markRejected t failureCode None now"

definition MarkRejectedWithResult ::
    "WagerTransaction \<Rightarrow> string \<Rightarrow> Money \<Rightarrow> Time \<Rightarrow> WagerTransaction mutated" where
  "MarkRejectedWithResult t failureCode financialResult now =
     markRejected t failureCode (Some financialResult) now"

definition MarkFailed :: "WagerTransaction \<Rightarrow> string \<Rightarrow> Time \<Rightarrow> WagerTransaction mutated" where
  "MarkFailed t failureCode now =
     (if failureCode = [] then (Some (WagertxErr Wagertx_ErrEmptyFailureCode), t)
      else if t_status t \<noteq> StatusPending \<and> t_status t \<noteq> StatusPendingReference
      then (Some (WagertxErr Wagertx_ErrInvalidTransition), t)
      else (None, t\<lparr>t_status := StatusFailed, t_failureCode := failureCode, t_updatedAt := now\<rparr>))"

definition ResolveReference :: "WagerTransaction \<Rightarrow> string \<Rightarrow> Time \<Rightarrow> WagerTransaction mutated" where
  "ResolveReference t referenceID now =
     (if referenceID = [] then (Some (WagertxErr Wagertx_ErrEmptyID), t)
      else if IsTerminal t then (Some (WagertxErr Wagertx_ErrInvalidTransition), t)
      else (None, t\<lparr>t_resolvedReferenceID := referenceID, t_referenceRetryAttempts := 0,
        t_referenceNextRetryAt := None, t_updatedAt := now\<rparr>))"

definition RecordReferenceRetryAttempt ::
    "WagerTransaction \<Rightarrow> Time \<Rightarrow> Time \<Rightarrow> WagerTransaction mutated" where
  "RecordReferenceRetryAttempt t nextRetryAt now =
     (if t_status t \<noteq> StatusPendingReference then (Some (WagertxErr Wagertx_ErrInvalidTransition), t)
      else (None, t\<lparr>t_referenceRetryAttempts := t_referenceRetryAttempts t + 1,
        t_referenceNextRetryAt := Some nextRetryAt, t_updatedAt := now\<rparr>))"

section \<open>Classification of input errors\<close>

definition inputValidationErrors :: "wagertx_err list" where
  "inputValidationErrors =
     [Wagertx_ErrEmptyID, Wagertx_ErrEmptyProviderID, Wagertx_ErrEmptyExternalID,
      Wagertx_ErrEmptyIdempotencyKey, Wagertx_ErrEmptyPayloadHash, Wagertx_ErrEmptyWalletID,
      Wagertx_ErrEmptyPlayerID, Wagertx_ErrEmptyRoundID, Wagertx_ErrEmptyGameID,
      Wagertx_ErrEmptyCurrency, Wagertx_ErrOpeningNotExternal, Wagertx_ErrInvalidKind,
      Wagertx_ErrLossAmountMustBeZero, Wagertx_ErrAmountMustBePositive,
      Wagertx_ErrReferenceRequired, Wagertx_ErrReferenceNotAllowed]"

definition IsInputValidationError :: "go_error \<Rightarrow> bool" where
  "IsInputValidationError err \<longleftrightarrow> list_ex (\<lambda>sentinel. err = WagertxErr sentinel) inputValidationErrors"

section \<open>The transition relation\<close>

text \<open>The state machine the methods implement: one rule per edge of its diagram.\<close>

inductive status_step :: "Status \<Rightarrow> Status \<Rightarrow> bool" where
  wait_reference: "status_step StatusPending StatusPendingReference"
| close_pending: "s \<in> {StatusProcessed, StatusRejected, StatusFailed} \<Longrightarrow> status_step StatusPending s"
| close_waiting: "s \<in> {StatusProcessed, StatusRejected, StatusFailed} \<Longrightarrow> status_step StatusPendingReference s"

code_pred status_step .

inductive_cases status_step_fromE: "status_step s s'"

inductive_simps status_step_from_simps [simp]:
  "status_step StatusPending s"
  "status_step StatusPendingReference s"
  "status_step StatusProcessed s"
  "status_step StatusRejected s"
  "status_step StatusFailed s"

definition terminal_status :: "Status \<Rightarrow> bool" where
  "terminal_status s \<longleftrightarrow> s = StatusProcessed \<or> s = StatusRejected \<or> s = StatusFailed"

lemma IsTerminal_iff: "IsTerminal t \<longleftrightarrow> terminal_status (t_status t)"
  by (cases "t_status t") (simp_all add: IsTerminal_def terminal_status_def)

lemma terminal_status_simps [simp]:
  "\<not> terminal_status StatusPending" "\<not> terminal_status StatusPendingReference"
  "terminal_status StatusProcessed" "terminal_status StatusRejected" "terminal_status StatusFailed"
  by (simp_all add: terminal_status_def)

lemma terminal_iff_stuck: "terminal_status s \<longleftrightarrow> (\<forall>s'. \<not> status_step s s')"
  by (cases s) (auto simp: terminal_status_def)

lemma status_step_irrefl: "\<not> status_step s s"
  by (cases s) auto

section \<open>Exact behaviour of the transitions\<close>

lemma MarkPendingReference_None_iff [simp]:
  "MarkPendingReference t now = (None, t') \<longleftrightarrow>
     t_status t = StatusPending \<and> t' = t\<lparr>t_status := StatusPendingReference, t_updatedAt := now\<rparr>"
  by (auto simp: MarkPendingReference_def)

lemma MarkProcessed_None_iff [simp]:
  "MarkProcessed t fr now = (None, t') \<longleftrightarrow> \<not> IsTerminal t \<and>
     t' = t\<lparr>t_status := StatusProcessed, t_financialResult := Some fr, t_updatedAt := now\<rparr>"
  by (cases "t_status t") (auto simp: MarkProcessed_def IsTerminal_def)

lemma markRejected_None_iff [simp]:
  "markRejected t fc fr now = (None, t') \<longleftrightarrow> fc \<noteq> [] \<and> \<not> IsTerminal t \<and>
     t' = t\<lparr>t_status := StatusRejected, t_failureCode := fc, t_financialResult := fr, t_updatedAt := now\<rparr>"
  by (cases "t_status t") (auto simp: markRejected_def IsTerminal_def)

lemma MarkRejectedWithResult_None_iff [simp]:
  "MarkRejectedWithResult t fc fr now = (None, t') \<longleftrightarrow> fc \<noteq> [] \<and> \<not> IsTerminal t \<and>
     t' = t\<lparr>t_status := StatusRejected, t_failureCode := fc, t_financialResult := Some fr, t_updatedAt := now\<rparr>"
  by (simp add: MarkRejectedWithResult_def)

lemma MarkFailed_None_iff [simp]:
  "MarkFailed t fc now = (None, t') \<longleftrightarrow> fc \<noteq> [] \<and> \<not> IsTerminal t \<and>
     t' = t\<lparr>t_status := StatusFailed, t_failureCode := fc, t_updatedAt := now\<rparr>"
  by (cases "t_status t") (auto simp: MarkFailed_def IsTerminal_def)

lemma ResolveReference_None_iff [simp]:
  "ResolveReference t r now = (None, t') \<longleftrightarrow> r \<noteq> [] \<and> \<not> IsTerminal t \<and>
     t' = t\<lparr>t_resolvedReferenceID := r, t_referenceRetryAttempts := 0,
        t_referenceNextRetryAt := None, t_updatedAt := now\<rparr>"
  by (auto simp: ResolveReference_def)

lemma RecordReferenceRetryAttempt_None_iff [simp]:
  "RecordReferenceRetryAttempt t next now = (None, t') \<longleftrightarrow> t_status t = StatusPendingReference \<and>
     t' = t\<lparr>t_referenceRetryAttempts := t_referenceRetryAttempts t + 1,
        t_referenceNextRetryAt := Some next, t_updatedAt := now\<rparr>"
  by (auto simp: RecordReferenceRetryAttempt_def)

text \<open>A refused transition leaves the transaction as it was.\<close>

lemma Mark_error_keeps:
  "MarkPendingReference t now = (Some e, t') \<Longrightarrow> t' = t"
  "MarkProcessed t fr now = (Some e, t') \<Longrightarrow> t' = t"
  "markRejected t fc fro now = (Some e, t') \<Longrightarrow> t' = t"
  "MarkFailed t fc now = (Some e, t') \<Longrightarrow> t' = t"
  "ResolveReference t r now = (Some e, t') \<Longrightarrow> t' = t"
  "RecordReferenceRetryAttempt t next now = (Some e, t') \<Longrightarrow> t' = t"
  by (simp_all add: MarkPendingReference_def MarkProcessed_def markRejected_def MarkFailed_def
      ResolveReference_def RecordReferenceRetryAttempt_def split: if_split_asm)

section \<open>The contract of the mutators\<close>

text \<open>What a transaction is: everything but its progress. No method changes it.\<close>

definition tx_identity :: "WagerTransaction \<Rightarrow> _" where
  "tx_identity t = (t_id t, t_kind t, t_walletID t, t_playerID t, t_money t, t_providerID t,
     t_externalID t, t_idempotencyKey t, t_payloadHash t, t_roundID t, t_gameID t,
     t_referenceExternalID t, t_createdAt t)"

text \<open>
  The contract every mutating method keeps: an error leaves the transaction as it was; a
  success is only possible from a non-terminal state, keeps the identity, and either stays
  in the status or follows an edge of the machine.
\<close>

locale tx_mutator =
  fixes mut :: "WagerTransaction \<Rightarrow> Time \<Rightarrow> WagerTransaction mutated"
  assumes mut_failed: "mut t now = (Some e, t') \<Longrightarrow> t' = t"
    and mut_done: "mut t now = (None, t') \<Longrightarrow>
      \<not> IsTerminal t \<and> tx_identity t' = tx_identity t \<and>
      (t_status t' = t_status t \<or> status_step (t_status t) (t_status t')) \<and> t_updatedAt t' = now"
begin

lemma mut_terminal: "IsTerminal t \<Longrightarrow> \<exists>e. mut t now = (Some e, t)"
  using mut_failed mut_done by (metis not_None_eq surj_pair)

lemma mut_identity: "tx_identity (snd (mut t now)) = tx_identity t"
  using mut_failed mut_done by (metis not_None_eq snd_conv surj_pair)

lemma mut_path: "status_step\<^sup>*\<^sup>* (t_status t) (t_status (snd (mut t now)))"
proof (cases "mut t now")
  case (Pair r t')
  then show ?thesis
    using mut_failed [of t now _ t'] mut_done [of t now t'] by (cases r) auto
qed

end

lemmas tx_mut_defs = tx_identity_def IsTerminal_iff

lemma status_step_from_open: "\<not> IsTerminal t \<Longrightarrow> terminal_status s \<Longrightarrow> status_step (t_status t) s"
  by (cases "t_status t") (simp_all add: IsTerminal_iff terminal_status_def)

interpretation mpr: tx_mutator MarkPendingReference
proof (unfold_locales, goal_cases)
  case 1 then show ?case by (rule Mark_error_keeps)
next
  case 2 then show ?case by (simp add: status_step_from_open tx_identity_def IsTerminal_iff)
qed

interpretation mproc: tx_mutator "\<lambda>t. MarkProcessed t fr"
proof (unfold_locales, goal_cases)
  case 1 then show ?case by (rule Mark_error_keeps)
next
  case 2 then show ?case by (simp add: status_step_from_open tx_identity_def IsTerminal_iff)
qed

interpretation mrej: tx_mutator "\<lambda>t. markRejected t fc fr"
proof (unfold_locales, goal_cases)
  case 1 then show ?case by (rule Mark_error_keeps)
next
  case 2 then show ?case by (simp add: status_step_from_open tx_identity_def IsTerminal_iff)
qed

interpretation mfail: tx_mutator "\<lambda>t. MarkFailed t fc"
proof (unfold_locales, goal_cases)
  case 1 then show ?case by (rule Mark_error_keeps)
next
  case 2 then show ?case by (simp add: status_step_from_open tx_identity_def IsTerminal_iff)
qed

interpretation mres: tx_mutator "\<lambda>t. ResolveReference t r"
proof (unfold_locales, goal_cases)
  case 1 then show ?case by (rule Mark_error_keeps)
next
  case 2 then show ?case by (simp add: status_step_from_open tx_identity_def IsTerminal_iff)
qed

interpretation mretry: tx_mutator "\<lambda>t. RecordReferenceRetryAttempt t next"
proof (unfold_locales, goal_cases)
  case 1 then show ?case by (rule Mark_error_keeps)
next
  case 2 then show ?case by (simp add: status_step_from_open tx_identity_def IsTerminal_iff)
qed

section \<open>Histories of one transaction\<close>

datatype tx_op =
    OpPendingReference
  | OpProcessed Money
  | OpRejected string "Money option"
  | OpFailed string
  | OpResolve string
  | OpRetry Time

fun tx_apply :: "WagerTransaction \<Rightarrow> tx_op \<Rightarrow> Time \<Rightarrow> WagerTransaction mutated" where
  "tx_apply t OpPendingReference = MarkPendingReference t"
| "tx_apply t (OpProcessed fr) = MarkProcessed t fr"
| "tx_apply t (OpRejected fc fr) = markRejected t fc fr"
| "tx_apply t (OpFailed fc) = MarkFailed t fc"
| "tx_apply t (OpResolve r) = ResolveReference t r"
| "tx_apply t (OpRetry next) = RecordReferenceRetryAttempt t next"

lemma tx_mutator_apply: "tx_mutator (\<lambda>t. tx_apply t op)"
proof (cases op)
  case OpPendingReference
  then show ?thesis by (simp add: mpr.tx_mutator_axioms)
next
  case (OpProcessed fr)
  then show ?thesis by (simp add: mproc.tx_mutator_axioms)
next
  case (OpRejected fc fr)
  then show ?thesis by (simp add: mrej.tx_mutator_axioms)
next
  case (OpFailed fc)
  then show ?thesis by (simp add: mfail.tx_mutator_axioms)
next
  case (OpResolve r)
  then show ?thesis by (simp add: mres.tx_mutator_axioms)
next
  case (OpRetry at)
  then show ?thesis by (simp add: mretry.tx_mutator_axioms)
qed

interpretation txop: tx_mutator "\<lambda>t. tx_apply t op"
  by (rule tx_mutator_apply)

text \<open>A history: method calls in order, each on what the previous one left, whatever it returned.\<close>

fun tx_history :: "WagerTransaction \<Rightarrow> (tx_op \<times> Time) list \<Rightarrow> WagerTransaction" where
  "tx_history t [] = t"
| "tx_history t ((op, now) # h) = tx_history (snd (tx_apply t op now)) h"

lemma tx_history_identity: "tx_identity (tx_history t h) = tx_identity t"
  by (induction t h rule: tx_history.induct) (simp_all add: txop.mut_identity)

lemma tx_history_path: "status_step\<^sup>*\<^sup>* (t_status t) (t_status (tx_history t h))"
proof (induction t h rule: tx_history.induct)
  case (2 t op now h)
  then show ?case using txop.mut_path [of t op now] by (simp add: rtranclp_trans [rotated])
qed simp

lemma tx_history_terminal: "IsTerminal t \<Longrightarrow> tx_history t h = t"
proof (induction t h rule: tx_history.induct)
  case (1 t)
  then show ?case by simp
next
  case (2 t op now h)
  then have "snd (tx_apply t op now) = t" using txop.mut_terminal [of t op now] by auto
  with 2 show ?case by simp
qed

section \<open>Construction\<close>

definition external_rule_ok :: "Kind \<Rightarrow> Money \<Rightarrow> string \<Rightarrow> bool" where
  "external_rule_ok kind amount ref \<longleftrightarrow>
     (kind = KindBet \<and> 0 < amt amount \<and> ref = []
      \<or> kind = KindWin \<and> 0 < amt amount
      \<or> kind = KindLoss \<and> amt amount = 0 \<and> ref = []
      \<or> kind \<in> {KindRefund, KindRollback} \<and> 0 < amt amount \<and> ref \<noteq> [])"

lemma NewExternalTransaction_Inr_iff:
  "NewExternalTransaction i p x k h w pl r g kind a ref now = Inr t \<longleftrightarrow>
     [] \<notin> {i, p, x, k, h, w, pl, r, g, currency a} \<and> external_rule_ok kind a ref \<and>
     t = \<lparr>t_id = i, t_kind = kind, t_status = StatusPending, t_walletID = w,
        t_playerID = pl, t_money = a, t_providerID = p, t_externalID = x,
        t_idempotencyKey = k, t_payloadHash = h, t_roundID = r,
        t_gameID = g, t_referenceExternalID = ref, t_resolvedReferenceID = [],
        t_failureCode = [], t_financialResult = None, t_referenceRetryAttempts = 0,
        t_referenceNextRetryAt = None, t_createdAt = now, t_updatedAt = now\<rparr>"
  by (cases kind) (auto simp: NewExternalTransaction_def external_rule_ok_def split: if_splits)

lemma NewExternalTransaction_error:
  "NewExternalTransaction i p x k h w pl r g kind a ref now = Inl e \<Longrightarrow> IsInputValidationError e"
  by (cases kind)
    (auto simp: NewExternalTransaction_def IsInputValidationError_def inputValidationErrors_def split: if_splits)

lemma NewOpeningTransaction_Inr_iff:
  "NewOpeningTransaction i w pl a now = Inr t \<longleftrightarrow>
     i \<noteq> [] \<and> w \<noteq> [] \<and> pl \<noteq> [] \<and> 0 < amt a \<and>
     t = \<lparr>t_id = i, t_kind = KindOpening, t_status = StatusProcessed, t_walletID = w,
        t_playerID = pl, t_money = a, t_providerID = [], t_externalID = [],
        t_idempotencyKey = [], t_payloadHash = [], t_roundID = [], t_gameID = [],
        t_referenceExternalID = [], t_resolvedReferenceID = [],
        t_failureCode = [], t_financialResult = None, t_referenceRetryAttempts = 0,
        t_referenceNextRetryAt = None, t_createdAt = now, t_updatedAt = now\<rparr>"
  by (auto simp: NewOpeningTransaction_def)

section \<open>What the status says about the record\<close>

text \<open>
  An open transaction carries no failure code and no result, a refused or failed one carries a
  failure code, and a processed external one the balance it left.
\<close>

definition tx_inv :: "WagerTransaction \<Rightarrow> bool" where
  "tx_inv t \<longleftrightarrow> t_id t \<noteq> [] \<and>
     (case t_status t of
        StatusProcessed \<Rightarrow> t_failureCode t = [] \<and> (t_kind t \<noteq> KindOpening \<longrightarrow> t_financialResult t \<noteq> None)
      | StatusRejected \<Rightarrow> t_failureCode t \<noteq> []
      | StatusFailed \<Rightarrow> t_failureCode t \<noteq> [] \<and> t_financialResult t = None
      | _ \<Rightarrow> t_failureCode t = [] \<and> t_financialResult t = None)"

lemma tx_inv_call: "tx_inv t \<Longrightarrow> tx_inv (snd (tx_apply t op now))"
proof (cases "tx_apply t op now")
  case (Pair r t')
  assume inv: "tx_inv t"
  show ?thesis
  proof (cases r)
    case None
    then have "tx_apply t op now = (None, t')" using Pair by simp
    then have "tx_inv t'" using inv
      by (cases op; cases "t_status t") (auto simp: tx_inv_def IsTerminal_def)
    then show ?thesis using Pair by simp
  next
    case (Some e)
    then show ?thesis using Pair inv txop.mut_failed [of t op now e t'] by simp
  qed
qed

lemma tx_inv_history: "tx_inv t \<Longrightarrow> tx_inv (tx_history t h)"
  by (induction t h rule: tx_history.induct) (simp_all add: tx_inv_call)

section \<open>Properties\<close>

text \<open>C38: The life of a transaction, over any sequence of calls of the methods of
  \<open>WagerTransaction\<close>: its identity (ids, kind, amount, keys, hash, reference, creation time) never
  changes, its status only moves along the edges of the state machine, a terminal transaction
  is frozen whatever is called on it, and the fields that depend on the status (failure code,
  recorded result) agree with it at every moment.\<close>

theorem tx_lifecycle:
  assumes "tx_inv t"
  shows "tx_identity (tx_history t h) = tx_identity t \<and>
    status_step\<^sup>*\<^sup>* (t_status t) (t_status (tx_history t h)) \<and>
    (IsTerminal t \<longrightarrow> tx_history t h = t) \<and> tx_inv (tx_history t h)"
  using assms by (simp add: tx_history_identity tx_history_path tx_history_terminal tx_inv_history)

definition sample_tx :: WagerTransaction where
  "sample_tx = \<lparr>t_id = ''t1'', t_kind = KindRefund, t_status = StatusPending, t_walletID = ''w'',
     t_playerID = ''p'', t_money = \<lparr>minorUnits = 500, currency = ''BRL''\<rparr>, t_providerID = ''prov'',
     t_externalID = ''x'', t_idempotencyKey = ''k'', t_payloadHash = ''h'', t_roundID = ''r'',
     t_gameID = ''g'', t_referenceExternalID = ''b'', t_resolvedReferenceID = [], t_failureCode = [],
     t_financialResult = None, t_referenceRetryAttempts = 0, t_referenceNextRetryAt = None,
     t_createdAt = 0, t_updatedAt = 0\<rparr>"

theorem tx_lifecycle_witness:
  "status_step\<^sup>*\<^sup>* StatusPending (t_status (tx_history sample_tx
     [(OpPendingReference, 1), (OpRetry 9, 2), (OpFailed ''REFERENCE_EXPIRED'', 3), (OpResolve ''t0'', 4)])) \<and>
   t_status (tx_history sample_tx
     [(OpPendingReference, 1), (OpRetry 9, 2), (OpFailed ''REFERENCE_EXPIRED'', 3), (OpResolve ''t0'', 4)]) = StatusFailed"
  using tx_lifecycle [of sample_tx
     "[(OpPendingReference, 1), (OpRetry 9, 2), (OpFailed ''REFERENCE_EXPIRED'', 3), (OpResolve ''t0'', 4)]"]
  by (simp add: sample_tx_def tx_inv_def MarkPendingReference_def RecordReferenceRetryAttempt_def
      MarkFailed_def ResolveReference_def IsTerminal_def)

text \<open>C39: \<open>NewExternalTransaction\<close> accepts exactly the requests the rules allow: every field
  present, and per kind a positive amount (BET, WIN, REFUND, ROLLBACK) or zero (LOSS), a reference
  required (REFUND, ROLLBACK), optional (WIN) or forbidden (BET, LOSS); OPENING and unknown kinds
  never pass. The new transaction is PENDING, satisfies the invariant and holds the fields it was
  given; and every refusal is one that \<open>IsInputValidationError\<close> recognises as the caller's fault.\<close>

theorem NewExternalTransaction_exact:
  "(case NewExternalTransaction i p x k h w pl r g kind a ref now of
      Inr t \<Rightarrow> [] \<notin> {i, p, x, k, h, w, pl, r, g, currency a} \<and> external_rule_ok kind a ref \<and>
        t_status t = StatusPending \<and> tx_inv t \<and>
        tx_identity t = (i, kind, w, pl, a, p, x, k, h, r, g, ref, now)
    | Inl e \<Rightarrow> ([] \<in> {i, p, x, k, h, w, pl, r, g, currency a} \<or> \<not> external_rule_ok kind a ref) \<and>
        IsInputValidationError e)"
proof (cases "NewExternalTransaction i p x k h w pl r g kind a ref now")
  case (Inl e)
  then have "\<nexists>t. NewExternalTransaction i p x k h w pl r g kind a ref now = Inr t" by simp
  then show ?thesis
    using Inl NewExternalTransaction_error [OF Inl] unfolding NewExternalTransaction_Inr_iff by simp
next
  case (Inr t)
  then show ?thesis using Inr [unfolded NewExternalTransaction_Inr_iff]
    by (auto simp: tx_inv_def tx_identity_def)
qed

theorem NewExternalTransaction_exact_witness:
  "case NewExternalTransaction ''t1'' ''prov'' ''x'' ''k'' ''h'' ''w'' ''p'' ''r'' ''g'' KindBet
      \<lparr>minorUnits = 500, currency = ''BRL''\<rparr> [] 7 of
     Inr t \<Rightarrow> t_status t = StatusPending \<and> tx_inv t \<and> t_kind t = KindBet
   | Inl e \<Rightarrow> False"
  using NewExternalTransaction_exact [of "''t1''" "''prov''" "''x''" "''k''" "''h''" "''w''" "''p''" "''r''" "''g''"
      "\<lparr>minorUnits = 500, currency = ''BRL''\<rparr>" KindBet "[]" 7]
  by (auto simp: external_rule_ok_def tx_identity_def split: sum.splits)

end
