(* ===== verification/Ledger.thy ===== *)
theory Ledger
  imports Wager_Tx
begin

text \<open>
  \<open>internal/domain/ledger/ledger.go\<close>: one entry of the append-only ledger and the
  constructor that refuses an entry whose balances do not add up. A \<open>Direction\<close> is a Go
  string; one that is neither constant is \<open>DirectionOther\<close>.
\<close>

datatype Direction = DirectionDebit | DirectionCredit | DirectionOther string

fun Direction_str :: "Direction \<Rightarrow> string" where
  "Direction_str DirectionDebit = ''DEBIT''"
| "Direction_str DirectionCredit = ''CREDIT''"
| "Direction_str (DirectionOther s) = s"

record Entry =
  l_id :: string
  l_walletID :: string
  l_transactionID :: string
  l_direction :: Direction
  l_amount :: Money
  l_balanceBefore :: Money
  l_balanceAfter :: Money
  l_createdAt :: Time

text \<open>The switch on \<open>direction\<close>; its third case is unreachable after the direction check and leaves both variables zero.\<close>

definition expectedAfter :: "Direction \<Rightarrow> Money \<Rightarrow> Money \<Rightarrow> Money result" where
  "expectedAfter direction balanceBefore amount =
     (case direction of
        DirectionDebit \<Rightarrow> Sub balanceBefore amount
      | DirectionCredit \<Rightarrow> Add balanceBefore amount
      | DirectionOther _ \<Rightarrow> Inr zeroMoney)"

definition NewEntry ::
    "string \<Rightarrow> string \<Rightarrow> string \<Rightarrow> Direction \<Rightarrow> Money \<Rightarrow> Money \<Rightarrow> Money \<Rightarrow> Time \<Rightarrow> Entry result" where
  "NewEntry eid walletID transactionID direction amount balanceBefore balanceAfter createdAt =
     (if eid = [] then Inl (LedgerErr Ledger_ErrEmptyID)
      else if walletID = [] then Inl (LedgerErr Ledger_ErrEmptyWalletID)
      else if transactionID = [] then Inl (LedgerErr Ledger_ErrEmptyTransactionID)
      else if direction \<noteq> DirectionDebit \<and> direction \<noteq> DirectionCredit
      then Inl (LedgerErr Ledger_ErrInvalidDirection)
      else if IsZero amount \<or> IsNegative amount then Inl (LedgerErr Ledger_ErrAmountMustBePositive)
      else if currency amount \<noteq> currency balanceBefore \<or> currency amount \<noteq> currency balanceAfter
      then Inl (LedgerErr Ledger_ErrCurrencyMismatch)
      else bindE (expectedAfter direction balanceBefore amount) (\<lambda>expected.
        if \<not> Equals expected balanceAfter then Inl (LedgerErr Ledger_ErrBalanceMismatch)
        else Inr \<lparr>l_id = eid, l_walletID = walletID, l_transactionID = transactionID,
          l_direction = direction, l_amount = amount, l_balanceBefore = balanceBefore,
          l_balanceAfter = balanceAfter, l_createdAt = createdAt\<rparr>))"

section \<open>What an entry records\<close>

text \<open>The signed effect of an entry on the balance.\<close>

fun dir_sign :: "Direction \<Rightarrow> int" where
  "dir_sign DirectionDebit = - 1"
| "dir_sign DirectionCredit = 1"
| "dir_sign (DirectionOther _) = 0"

definition entry_delta :: "Entry \<Rightarrow> int" where
  "entry_delta e = dir_sign (l_direction e) * amt (l_amount e)"

definition entry_ok :: "Entry \<Rightarrow> bool" where
  "entry_ok e \<longleftrightarrow>
     l_id e \<noteq> [] \<and> l_walletID e \<noteq> [] \<and> l_transactionID e \<noteq> [] \<and>
     l_direction e \<in> {DirectionDebit, DirectionCredit} \<and> 0 < amt (l_amount e) \<and>
     currency (l_amount e) \<noteq> [] \<and>
     currency (l_balanceBefore e) = currency (l_amount e) \<and>
     currency (l_balanceAfter e) = currency (l_amount e) \<and>
     amt (l_balanceAfter e) = amt (l_balanceBefore e) + entry_delta e"

lemma amt_in_range: "amt m = x \<Longrightarrow> in_int64 x"
  using in_int64_sint [of "minorUnits m"] by metis

lemma expectedAfter_Inr_iff:
  assumes "d \<in> {DirectionDebit, DirectionCredit}"
  shows "expectedAfter d b a = Inr m \<longleftrightarrow>
    currency b \<noteq> [] \<and> currency a \<noteq> [] \<and> currency b = currency a \<and>
    amt m = amt b + dir_sign d * amt a \<and> currency m = currency b"
  using assms by (auto simp: expectedAfter_def madd.op_Inr_iff msub.op_Inr_iff intro: amt_in_range)

lemma Equals_iff: "Equals m n \<longleftrightarrow> m = n"
  by (auto simp: Equals_def)

lemma money_eq_iff: "(m :: Money) = n \<longleftrightarrow> amt m = amt n \<and> currency m = currency n"
  by (cases m; cases n) (auto simp: sint64_eq_iff)

lemma NewEntry_Inr_iff:
  "NewEntry i w x d a b c t = Inr e \<longleftrightarrow>
     e = \<lparr>l_id = i, l_walletID = w, l_transactionID = x, l_direction = d, l_amount = a,
       l_balanceBefore = b, l_balanceAfter = c, l_createdAt = t\<rparr> \<and> entry_ok e"
proof (cases "i \<noteq> [] \<and> w \<noteq> [] \<and> x \<noteq> [] \<and> d \<in> {DirectionDebit, DirectionCredit} \<and> 0 < amt a
    \<and> currency a = currency b \<and> currency a = currency c")
  case True
  then have ok: "entry_ok \<lparr>l_id = i, l_walletID = w, l_transactionID = x, l_direction = d, l_amount = a,
      l_balanceBefore = b, l_balanceAfter = c, l_createdAt = t\<rparr> \<longleftrightarrow> expectedAfter d b a = Inr c"
    using expectedAfter_Inr_iff [of d b a c] by (auto simp: entry_ok_def entry_delta_def)
  have "NewEntry i w x d a b c t = bindE (expectedAfter d b a) (\<lambda>m. if m \<noteq> c then Inl (LedgerErr Ledger_ErrBalanceMismatch)
      else Inr \<lparr>l_id = i, l_walletID = w, l_transactionID = x, l_direction = d, l_amount = a,
        l_balanceBefore = b, l_balanceAfter = c, l_createdAt = t\<rparr>)"
    using True by (auto simp: NewEntry_def Equals_iff)
  then show ?thesis unfolding ok [symmetric] by (cases "expectedAfter d b a") (auto simp: ok)
next
  case False
  then show ?thesis by (auto simp: NewEntry_def entry_ok_def)
qed

lemma entry_ok_no_wrap: "entry_ok e \<Longrightarrow> in_int64 (amt (l_balanceBefore e) + entry_delta e)"
  by (metis entry_ok_def in_int64_sint)

section \<open>Properties\<close>

text \<open>C40: \<open>ledger.NewEntry\<close> accepts exactly the entries whose books balance: ids present, a DEBIT
  or CREDIT direction, a positive amount, one currency throughout, and a balance after that is
  the balance before plus or minus the amount in exact arithmetic. No other entry can be built.\<close>

theorem NewEntry_exact:
  "NewEntry i w x d a b c t = Inr e \<longleftrightarrow>
     e = \<lparr>l_id = i, l_walletID = w, l_transactionID = x, l_direction = d, l_amount = a,
       l_balanceBefore = b, l_balanceAfter = c, l_createdAt = t\<rparr> \<and>
     i \<noteq> [] \<and> w \<noteq> [] \<and> x \<noteq> [] \<and> 0 < amt a \<and>
     currency a \<noteq> [] \<and> currency b = currency a \<and> currency c = currency a \<and>
     (d = DirectionDebit \<and> amt c = amt b - amt a \<or> d = DirectionCredit \<and> amt c = amt b + amt a)"
  unfolding NewEntry_Inr_iff by (auto simp: entry_ok_def entry_delta_def)

end
