(* ===== verification/Json.thy ===== *)
theory Json
  imports Money_Text "HOL-Library.List_Lexorder" "HOL-Library.Char_ord"
begin

text \<open>
  The JSON values the program builds and the bytes \<open>encoding/json.Marshal\<close> makes of them:
  no blanks, the fields of a struct in order, the keys of a map sorted bytewise, and Go's
  string escaping (HTML characters and U+2028/U+2029 escaped, bytes that are not UTF-8
  replaced by U+FFFD). A Go string is a list of bytes.
\<close>

datatype json = JString string | JInt int | JBool bool | JObject "(string \<times> json) list"

text \<open>A Go map has its keys sorted when it is marshalled.\<close>

definition json_map :: "(string \<times> json) list \<Rightarrow> json" where
  "json_map kvs = JObject (sort_key fst kvs)"

definition money_json :: "Money \<Rightarrow> json result" where
  "money_json m = bindE (MarshalJSON m) (\<lambda>j.
     Inr (JObject [(''amount'', JString (js_amount j)), (''currency'', JString (js_currency j))]))"

section \<open>UTF-8\<close>

definition cont_in :: "nat \<Rightarrow> nat \<Rightarrow> char \<Rightarrow> bool" where
  "cont_in lo hi c \<longleftrightarrow> lo \<le> of_char c \<and> of_char c \<le> hi"

abbreviation cont :: "char \<Rightarrow> bool" where
  "cont \<equiv> cont_in 128 191"

text \<open>
  The first byte of an encoding gives its width and the range its second byte must be in, as in
  the tables of Go's \<open>unicode/utf8\<close>; width 0 for a byte that starts none.
\<close>

definition utf8_class :: "nat \<Rightarrow> nat \<times> nat \<times> nat" where
  "utf8_class b =
     (if b < 128 then (1, 0, 0)
      else if 194 \<le> b \<and> b \<le> 223 then (2, 128, 191)
      else if b = 224 then (3, 160, 191)
      else if b = 237 then (3, 128, 159)
      else if 225 \<le> b \<and> b \<le> 239 then (3, 128, 191)
      else if b = 240 then (4, 144, 191)
      else if 241 \<le> b \<and> b \<le> 243 then (4, 128, 191)
      else if b = 244 then (4, 128, 143)
      else (0, 0, 0))"

text \<open>The width of the encoding a string starts with, 0 when it starts with none (\<open>utf8.RuneError\<close>).\<close>

definition utf8_width :: "string \<Rightarrow> nat" where
  "utf8_width s = (case s of [] \<Rightarrow> 0 | c # cs \<Rightarrow>
     (case utf8_class (of_char c) of (w, lo, hi) \<Rightarrow>
        if w \<le> 1 then w
        else if w \<le> length s \<and> cont_in lo hi (cs ! 0) \<and> list_all cont (take (w - 2) (tl cs)) then w
        else 0))"

lemma utf8_width_le: "utf8_width s \<le> length s"
  by (cases s) (auto simp: utf8_width_def split: prod.splits)

function valid_utf8 :: "string \<Rightarrow> bool" where
  "valid_utf8 s =
     (if s = [] then True else if utf8_width s = 0 then False else valid_utf8 (drop (utf8_width s) s))"
  by auto
termination
  by (relation "measure length") auto
declare valid_utf8.simps [simp del]

section \<open>Strings\<close>

definition hex_char :: "nat \<Rightarrow> char" where
  "hex_char n = (if n < 10 then char_of (48 + n) else char_of (87 + n))"

definition u00 :: "char \<Rightarrow> string" where
  "u00 c = (CHR 0x5C # ''u00'') @ [hex_char (of_char c div 16), hex_char (of_char c mod 16)]"

definition esc_ascii :: "char \<Rightarrow> string" where
  "esc_ascii c =
     (let b = (of_char c :: nat) in
      if b = 34 \<or> b = 92 then [CHR 0x5C, c]
      else if b = 8 then (CHR 0x5C # ''b'') else if b = 12 then (CHR 0x5C # ''f'') else if b = 10 then (CHR 0x5C # ''n'')
      else if b = 13 then (CHR 0x5C # ''r'') else if b = 9 then (CHR 0x5C # ''t'')
      else if b < 32 \<or> b = 60 \<or> b = 62 \<or> b = 38 then u00 c
      else [c])"

function esc :: "string \<Rightarrow> string" where
  "esc [] = []"
| "esc (c # cs) =
     (let w = utf8_width (c # cs) in
      if w = 0 then (CHR 0x5C # ''ufffd'') @ esc cs
      else if w = 1 then esc_ascii c @ esc cs
      else if take 3 (c # cs) = [CHR 0xE2, CHR 0x80, CHR 0xA8] then (CHR 0x5C # ''u2028'') @ esc (drop 2 cs)
      else if take 3 (c # cs) = [CHR 0xE2, CHR 0x80, CHR 0xA9] then (CHR 0x5C # ''u2029'') @ esc (drop 2 cs)
      else take w (c # cs) @ esc (drop (w - 1) cs))"
  by pat_completeness auto
termination
  by (relation "measure length") auto

declare esc.simps(2) [simp del]

definition quote :: "string \<Rightarrow> string" where
  "quote s = [CHR 0x22] @ esc s @ [CHR 0x22]"

fun render :: "json \<Rightarrow> string"
  and render_fields :: "(string \<times> json) list \<Rightarrow> string" where
  "render (JString s) = quote s"
| "render (JInt i) = (if i < 0 then ''-'' else []) @ show_nat (nat \<bar>i\<bar>)"
| "render (JBool b) = (if b then ''true'' else ''false'')"
| "render (JObject kvs) = ''{'' @ render_fields kvs @ ''}''"
| "render_fields [] = []"
| "render_fields [(k, v)] = quote k @ '':'' @ render v"
| "render_fields ((k, v) # kv # kvs) = quote k @ '':'' @ render v @ '','' @ render_fields (kv # kvs)"

section \<open>Reading an escaped string back\<close>

definition hex_val :: "char \<Rightarrow> nat" where
  "hex_val c = (if of_char c < (58 :: nat) then of_char c - 48 else of_char c - 87)"

definition is_hex :: "char \<Rightarrow> bool" where
  "is_hex c \<longleftrightarrow> (let b = (of_char c :: nat) in 48 \<le> b \<and> b \<le> 57 \<or> 97 \<le> b \<and> b \<le> 102 \<or> 65 \<le> b \<and> b \<le> 70)"

text \<open>\<open>getu4\<close> of the four characters after a backslash and \<open>u\<close>, with what follows them.\<close>

definition getu4 :: "string \<Rightarrow> (nat \<times> string) option" where
  "getu4 ds =
     (if length ds < 4 \<or> \<not> list_all is_hex (take 4 ds) then None
      else Some (foldl (\<lambda>n c. 16 * n + hex_val c) 0 (take 4 ds), drop 4 ds))"

definition encodeRune :: "nat \<Rightarrow> string" where
  "encodeRune r =
     (if r < 128 then [char_of r]
      else if r < 2048 then [char_of (192 + r div 64), char_of (128 + r mod 64)]
      else if r < 65536 then [char_of (224 + r div 4096), char_of (128 + r div 64 mod 64), char_of (128 + r mod 64)]
      else [char_of (240 + r div 262144), char_of (128 + r div 4096 mod 64), char_of (128 + r div 64 mod 64),
            char_of (128 + r mod 64)])"

definition runeError :: string where
  "runeError = [CHR 0xEF, CHR 0xBF, CHR 0xBD]"

definition surrogate :: "nat \<Rightarrow> bool" where
  "surrogate u \<longleftrightarrow> 55296 \<le> u \<and> u < 57344"

text \<open>
  A \<open>u\<close> escape, on its value and on what follows: a high surrogate takes the low surrogate after it,
  if there is one, and any other surrogate is an error rune.
\<close>

definition takeEscape :: "nat \<Rightarrow> string \<Rightarrow> string \<times> string" where
  "takeEscape u rest =
     (if \<not> surrogate u then (encodeRune u, rest)
      else (case (if take 2 rest = [CHR 0x5C, CHR ''u''] then getu4 (drop 2 rest) else None) of
          None \<Rightarrow> (runeError, rest)
        | Some (l, rest') \<Rightarrow>
            if u < 56320 \<and> 56320 \<le> l \<and> l < 57344
            then (encodeRune (65536 + 1024 * (u - 55296) + (l - 56320)), rest')
            else (runeError, rest)))"

lemma getu4_length: "getu4 ds = Some (u, rest) \<Longrightarrow> length rest < length ds"
  by (auto simp: getu4_def split: if_splits)

lemma takeEscape_length: "length (snd (takeEscape u rest)) \<le> length rest"
  by (auto simp: takeEscape_def dest!: getu4_length split: option.split if_splits)

definition simpleEscape :: "char \<Rightarrow> char option" where
  "simpleEscape c =
     (if c = CHR 0x22 \<or> c = CHR 0x5C \<or> c = CHR ''/'' then Some c
      else if c = CHR ''b'' then Some (CHR 0x08) else if c = CHR ''f'' then Some (CHR 0x0C)
      else if c = CHR ''n'' then Some (CHR 0x0A) else if c = CHR ''r'' then Some (CHR 0x0D)
      else if c = CHR ''t'' then Some (CHR 0x09) else None)"

text \<open>
  The scanner and \<open>unquote\<close> on what follows an opening quote: the text up to the closing one, and
  the rest. Control characters and unknown escapes are refused; bytes that are not UTF-8 become U+FFFD.
\<close>

function unquote :: "string \<Rightarrow> (string \<times> string) option" where
  "unquote [] = None"
| "unquote (c # cs) =
     (let b = (of_char c :: nat); prefix = (\<lambda>p. map_option (\<lambda>(s, r). (p @ s, r))) in
      if c = CHR 0x22 then Some ([], cs)
      else if b < 32 then None
      else if c = CHR 0x5C then
        (case cs of [] \<Rightarrow> None
         | e # ds \<Rightarrow> if e = CHR ''u'' then
              (case getu4 ds of None \<Rightarrow> None
               | Some (u, rest) \<Rightarrow> prefix (fst (takeEscape u rest)) (unquote (snd (takeEscape u rest))))
            else (case simpleEscape e of None \<Rightarrow> None | Some x \<Rightarrow> prefix [x] (unquote ds)))
      else if utf8_width (c # cs) = 0 then prefix runeError (unquote cs)
      else prefix (take (utf8_width (c # cs)) (c # cs)) (unquote (drop (utf8_width (c # cs) - 1) cs)))"
  by pat_completeness auto
termination
proof (relation "measure length")
  fix c cs e ds u rest and x :: "nat \<times> string"
  assume "cs = e # ds" "getu4 ds = Some x" "(u, rest) = x"
  then have "length rest < length ds" using getu4_length by metis
  moreover have "length (snd (takeEscape u rest)) \<le> length rest" by (rule takeEscape_length)
  ultimately show "(snd (takeEscape u rest), c # cs) \<in> measure length" using \<open>cs = e # ds\<close> by simp
qed auto

declare unquote.simps(2) [simp del]

lemma char_eq_num:
  "c = CHR 0x22 \<longleftrightarrow> of_char c = (34 :: nat)" "c = CHR 0x5C \<longleftrightarrow> of_char c = (92 :: nat)"
  "c = CHR 0x08 \<longleftrightarrow> of_char c = (8 :: nat)" "c = CHR 0x0C \<longleftrightarrow> of_char c = (12 :: nat)"
  "c = CHR 0x0A \<longleftrightarrow> of_char c = (10 :: nat)" "c = CHR 0x0D \<longleftrightarrow> of_char c = (13 :: nat)"
  "c = CHR 0x09 \<longleftrightarrow> of_char c = (9 :: nat)"
  by (simp_all flip: of_char_eq_iff [where 'a = nat])

lemma hex_val_char [simp]: "n < 16 \<Longrightarrow> hex_val (hex_char n) = n"
  by (auto simp: hex_val_def hex_char_def)

lemma unquote_plain:
  assumes "32 \<le> (of_char c :: nat)" "c \<noteq> CHR 0x22" "c \<noteq> CHR 0x5C" "utf8_width (c # cs) \<noteq> 0"
  shows "unquote (c # cs) = map_option (\<lambda>(s, r). (take (utf8_width (c # cs)) (c # cs) @ s, r))
    (unquote (drop (utf8_width (c # cs)) (c # cs)))"
  using assms by (cases "utf8_width (c # cs)") (simp_all add: unquote.simps(2) Let_def)

lemma unquote_ascii:
  assumes "32 \<le> (of_char c :: nat)" "of_char c < (128 :: nat)" "c \<noteq> CHR 0x22" "c \<noteq> CHR 0x5C"
  shows "unquote (c # cs) = map_option (\<lambda>(s, r). (c # s, r)) (unquote cs)"
proof -
  have "utf8_width (c # cs) = 1" using assms(2) by (simp add: utf8_width_def utf8_class_def)
  then show ?thesis using unquote_plain [OF assms(1,3,4), of cs] by simp
qed

lemma unquote_simple:
  "simpleEscape e = Some x \<Longrightarrow> unquote (CHR 0x5C # e # t) = map_option (\<lambda>(s, r). (x # s, r)) (unquote t)"
  by (auto simp: unquote.simps(2) Let_def simpleEscape_def split: if_splits)

lemma unquote_u:
  "getu4 ds = Some (u, t) \<Longrightarrow> \<not> surrogate u \<Longrightarrow>
    unquote (CHR 0x5C # CHR ''u'' # ds) = map_option (\<lambda>(s, r). (encodeRune u @ s, r)) (unquote t)"
  by (simp add: unquote.simps(2) Let_def takeEscape_def)

lemma u00_value:
  "char_of (16 * hex_val (hex_char (of_char c div 16)) + of_char c mod 16 :: nat) = c"
proof -
  have "of_char c div 16 < (16 :: nat)" by (rule less_mult_imp_div_less) simp
  then show ?thesis by simp
qed

lemma is_hex_char: "n < 16 \<Longrightarrow> is_hex (hex_char n)"
  by (auto simp: is_hex_def hex_char_def Let_def)

lemma getu4_u00:
  "getu4 (CHR ''0'' # CHR ''0'' # hex_char (of_char c div 16) # hex_char (of_char c mod 16) # t) = Some (of_char c, t)"
proof -
  have "of_char c div 16 < (16 :: nat)" by (rule less_mult_imp_div_less) simp
  then show ?thesis by (simp add: getu4_def is_hex_char) (simp add: is_hex_def hex_val_def)
qed

lemma unquote_esc_ascii:
  assumes "of_char c < (128 :: nat)"
  shows "unquote (esc_ascii c @ t) = map_option (\<lambda>(s, r). (c # s, r)) (unquote t)"
proof -
  consider (esc) "of_char c = (34 :: nat) \<or> of_char c = (92 :: nat)"
    | (short) "of_char c \<in> {8, 12, 10, 13, 9 :: nat}"
    | (hex) "esc_ascii c = u00 c"
    | (plain) "esc_ascii c = [c]" "of_char c \<noteq> (34 :: nat)" "of_char c \<noteq> (92 :: nat)" "32 \<le> (of_char c :: nat)"
    unfolding esc_ascii_def Let_def by (cases "of_char c = (34 :: nat) \<or> of_char c = (92 :: nat)";
      cases "of_char c \<in> {8, 12, 10, 13, 9 :: nat}";
      cases "of_char c < (32 :: nat) \<or> of_char c = (60 :: nat) \<or> of_char c = (62 :: nat) \<or> of_char c = (38 :: nat)") auto
  then show ?thesis
  proof cases
    case esc
    then show ?thesis by (auto simp: esc_ascii_def Let_def unquote_simple simpleEscape_def char_eq_num)
  next
    case short
    then have "c = CHR 0x08 \<or> c = CHR 0x0C \<or> c = CHR 0x0A \<or> c = CHR 0x0D \<or> c = CHR 0x09"
      by (simp add: char_eq_num)
    then show ?thesis by (elim disjE) (simp_all add: esc_ascii_def unquote_simple simpleEscape_def)
  next
    case hex
    have "\<not> surrogate (of_char c)" "encodeRune (of_char c) = [c]" using assms by (simp_all add: surrogate_def encodeRune_def)
    then show ?thesis using hex unquote_u [OF getu4_u00] by (simp add: u00_def)
  next
    case plain
    then show ?thesis using assms by (simp add: unquote_ascii char_eq_num)
  qed
qed

lemma utf8_width_cases:
  assumes "utf8_width (c # cs) \<noteq> 0"
  shows "utf8_width (c # cs) = 1 \<or> 2 \<le> utf8_width (c # cs) \<and> utf8_width (c # cs) \<le> length (c # cs) \<and>
    list_all (\<lambda>c. 128 \<le> (of_char c :: nat)) (take (utf8_width (c # cs)) (c # cs))"
  using assms
  by (cases cs; cases "utf8_class (of_char c)")
    (auto simp: utf8_width_def utf8_class_def cont_in_def list_all_iff take_Cons' split: if_splits)

lemma unquote_2028:
  "unquote (CHR 0x5C # ''u2028'' @ t) = map_option (\<lambda>(s, r). ([CHR 0xE2, CHR 0x80, CHR 0xA8] @ s, r)) (unquote t)"
  "unquote (CHR 0x5C # ''u2029'' @ t) = map_option (\<lambda>(s, r). ([CHR 0xE2, CHR 0x80, CHR 0xA9] @ s, r)) (unquote t)"
proof -
  have "getu4 (''2028'' @ t) = Some (8232, t)" "getu4 (''2029'' @ t) = Some (8233, t)"
    by (simp_all add: getu4_def is_hex_def hex_val_def)
  moreover have "encodeRune 8232 = [CHR 0xE2, CHR 0x80, CHR 0xA8]" by (simp add: encodeRune_def char_of_eq_iff take_bit_eq_mod)
  moreover have "encodeRune 8233 = [CHR 0xE2, CHR 0x80, CHR 0xA9]" by (simp add: encodeRune_def char_of_eq_iff take_bit_eq_mod)
  ultimately show "unquote (CHR 0x5C # ''u2028'' @ t) = map_option (\<lambda>(s, r). ([CHR 0xE2, CHR 0x80, CHR 0xA8] @ s, r)) (unquote t)"
    and "unquote (CHR 0x5C # ''u2029'' @ t) = map_option (\<lambda>(s, r). ([CHR 0xE2, CHR 0x80, CHR 0xA9] @ s, r)) (unquote t)"
    using unquote_u [of "''2028'' @ t" 8232 t] unquote_u [of "''2029'' @ t" 8233 t] by (simp_all add: surrogate_def)
qed

lemma separator_shape:
  assumes "take 3 s = [CHR 0xE2, CHR 0x80, CHR 0xA8] \<or> take 3 s = [CHR 0xE2, CHR 0x80, CHR 0xA9]"
  shows "\<exists>e us. s = CHR 0xE2 # CHR 0x80 # e # us \<and> (e = CHR 0xA8 \<or> e = CHR 0xA9) \<and> utf8_width s = 3"
proof -
  obtain e us where s: "s = CHR 0xE2 # CHR 0x80 # e # us" and e: "e = CHR 0xA8 \<or> e = CHR 0xA9"
    using assms append_take_drop_id [of 3 s] by (metis append_Cons append_Nil)
  then have "utf8_width s = 3" by (auto simp: utf8_width_def utf8_class_def cont_in_def)
  with s e show ?thesis by blast
qed

lemma utf8_width_prefix:
  assumes "utf8_width (c # cs) \<noteq> 0" "take (utf8_width (c # cs)) (c # cs) = c # us"
  shows "utf8_width (c # us @ t) = utf8_width (c # cs)"
proof -
  obtain w lo hi where k: "utf8_class (of_char c) = (w, lo, hi)" by (cases "utf8_class (of_char c)")
  show ?thesis
  proof (cases "w \<le> 1")
    case True
    then show ?thesis using k by (simp add: utf8_width_def)
  next
    case False
    then have w: "w \<le> length (c # cs)" "cont_in lo hi (cs ! 0)" "list_all cont (take (w - 2) (tl cs))"
        "utf8_width (c # cs) = w"
      using assms(1) k by (auto simp: utf8_width_def split: if_splits)
    then have us: "us = take (w - 1) cs" using assms(2) False by (cases w) auto
    have l: "length us = w - 1" using us w(1) by simp
    then obtain x xs where x: "us = x # xs" "length xs = w - 2" using False by (cases us) auto
    obtain n where n: "w = Suc (Suc n)" using False by (cases w; cases "w - 1") auto
    then have "cs ! 0 = x" "take (w - 2) (tl cs) = xs" using us x(1) by (cases cs; simp)+
    then show ?thesis using w k x False by (simp add: utf8_width_def)
  qed
qed

lemma unquote_esc: "valid_utf8 s \<Longrightarrow> unquote (esc s @ CHR 0x22 # r) = Some (s, r)"
proof (induction s rule: valid_utf8.induct)
  case (1 s)
  show ?case
  proof (cases s)
    case Nil
    then show ?thesis by (simp add: unquote.simps(2))
  next
    case (Cons c cs)
    let ?w = "utf8_width (c # cs)"
    have w0: "?w \<noteq> 0" and rest: "valid_utf8 (drop ?w (c # cs))"
      using "1.prems" Cons by (subst (asm) valid_utf8.simps, simp split: if_splits)+
    then have IH: "unquote (esc (drop ?w (c # cs)) @ CHR 0x22 # r) = Some (drop ?w (c # cs), r)"
      using "1.IH" Cons by simp
    show ?thesis
    proof (cases "?w = 1")
      case True
      then have "of_char c < (128 :: nat)" by (auto simp: utf8_width_def utf8_class_def split: if_splits)
      then show ?thesis using IH Cons True by (simp add: esc.simps(2) unquote_esc_ascii)
    next
      case False
      then have w: "2 \<le> ?w" "128 \<le> (of_char c :: nat)" using utf8_width_cases [OF w0] by (auto simp: take_Cons')
      then have d: "drop ?w (c # cs) = drop (?w - 1) cs" by (cases ?w) auto
      show ?thesis
      proof (cases "take 3 (c # cs) = [CHR 0xE2, CHR 0x80, CHR 0xA8] \<or> take 3 (c # cs) = [CHR 0xE2, CHR 0x80, CHR 0xA9]")
        case True
        from separator_shape [OF True] obtain e us where
          cs: "c # cs = CHR 0xE2 # CHR 0x80 # e # us" "e = CHR 0xA8 \<or> e = CHR 0xA9" "?w = 3" by blast
        then have "unquote (esc us @ CHR 0x22 # r) = Some (us, r)" using IH by simp
        with cs Cons show ?thesis by (auto simp: esc.simps(2) unquote_2028 [simplified])
      next
        case False
        let ?t = "esc (drop ?w (c # cs)) @ CHR 0x22 # r"
        have le: "?w \<le> length (c # cs)" using utf8_width_cases [OF w0] by auto
        have e: "esc s = take ?w (c # cs) @ esc (drop ?w (c # cs))" using False w Cons d \<open>?w \<noteq> 1\<close> by (auto simp: esc.simps(2) Let_def)
        obtain us where us: "take ?w (c # cs) = c # us" using w by (cases ?w) auto
        have w': "utf8_width (c # us @ ?t) = ?w" using utf8_width_prefix [OF w0 us] by simp
        have l: "length (c # us) = ?w" using le us by (metis length_take min.absorb2)
        have "c \<noteq> CHR 0x22" "c \<noteq> CHR 0x5C" "32 \<le> (of_char c :: nat)" using w(2) by (auto simp: char_eq_num)
        from unquote_plain [OF this(3,1,2), of "us @ ?t"] w' w0
        have "unquote (c # us @ ?t) = map_option (\<lambda>(s, r). (c # us @ s, r)) (unquote ?t)"
          using l by (simp flip: l)
        then show ?thesis using e us IH Cons by (metis append_take_drop_id append.assoc append_Cons map_option_eq_Some case_prod_conv)
      qed
    qed
  qed
qed

lemma quote_inject:
  assumes "valid_utf8 s" "valid_utf8 s'"
  shows "quote s @ r = quote s' @ r' \<longleftrightarrow> s = s' \<and> r = r'"
proof
  assume "quote s @ r = quote s' @ r'"
  then have "esc s @ CHR 0x22 # r = esc s' @ CHR 0x22 # r'" by (simp add: quote_def)
  then have "Some (s, r) = Some (s', r')" using unquote_esc [OF assms(1)] unquote_esc [OF assms(2)] by metis
  then show "s = s' \<and> r = r'" by simp
qed simp

lemma ascii_utf8: "list_all (\<lambda>c. of_char c < (128 :: nat)) s \<Longrightarrow> valid_utf8 s"
proof (induction s)
  case Nil
  show ?case by (subst valid_utf8.simps) simp
next
  case (Cons c s)
  then have "utf8_width (c # s) = 1" by (simp add: utf8_width_def utf8_class_def)
  then show ?case using Cons by (subst valid_utf8.simps) simp
qed

end
