(* ===== verification/Event.thy ===== *)
theory Event
  imports Ledger Json
begin

text \<open>
  \<open>internal/domain/event/event.go\<close>: the domain events, the payload of each type, its
  constructor, and the JSON object \<open>json.Marshal\<close> makes of a payload (the struct tags).
\<close>

section \<open>Payloads\<close>

record WagerTransactionProcessedData =
  pd_transactionID :: string
  pd_walletID :: string
  pd_playerID :: string
  pd_kind :: string
  pd_providerID :: string
  pd_externalID :: string
  pd_money :: Money
  pd_financialResult :: "Money option"
  pd_idempotentReplay :: bool

record WagerTransactionRejectedData =
  rd_transactionID :: string
  rd_walletID :: string
  rd_providerID :: string
  rd_externalID :: string
  rd_kind :: string
  rd_failureCode :: string

record WalletBalanceChangedData =
  bd_walletID :: string
  bd_transactionID :: string
  bd_direction :: string
  bd_money :: Money
  bd_balanceBefore :: Money
  bd_balanceAfter :: Money
  bd_walletVersion :: int64

record WagerTransactionPendingReferenceData =
  qd_transactionID :: string
  qd_walletID :: string
  qd_providerID :: string
  qd_externalID :: string
  qd_referenceExternalID :: string

record WagerTransactionExpiredData =
  xd_transactionID :: string
  xd_walletID :: string
  xd_providerID :: string
  xd_externalID :: string
  xd_referenceExternalID :: string
  xd_failureCode :: string

text \<open>\<open>Data any\<close>: one of the five payloads.\<close>

datatype EventData =
    ProcessedData WagerTransactionProcessedData
  | RejectedData WagerTransactionRejectedData
  | BalanceChangedData WalletBalanceChangedData
  | PendingReferenceData WagerTransactionPendingReferenceData
  | ExpiredData WagerTransactionExpiredData

record Event =
  e_ID :: string
  e_Type :: string
  e_AggregateID :: string
  e_CorrelationID :: string
  e_CausationID :: string
  e_OccurredAt :: Time
  e_Version :: int64
  e_Data :: EventData

section \<open>Constructors\<close>

definition NewWagerTransactionProcessed ::
    "string \<Rightarrow> string \<Rightarrow> string \<Rightarrow> Time \<Rightarrow> WagerTransactionProcessedData \<Rightarrow> Event" where
  "NewWagerTransactionProcessed eid aggregateID correlationID occurredAt data =
     \<lparr>e_ID = eid, e_Type = ''WagerTransactionProcessed'', e_AggregateID = aggregateID,
      e_CorrelationID = correlationID, e_CausationID = [], e_OccurredAt = occurredAt, e_Version = 1,
      e_Data = ProcessedData data\<rparr>"

definition NewWagerTransactionRejected ::
    "string \<Rightarrow> string \<Rightarrow> string \<Rightarrow> Time \<Rightarrow> WagerTransactionRejectedData \<Rightarrow> Event" where
  "NewWagerTransactionRejected eid aggregateID correlationID occurredAt data =
     \<lparr>e_ID = eid, e_Type = ''WagerTransactionRejected'', e_AggregateID = aggregateID,
      e_CorrelationID = correlationID, e_CausationID = [], e_OccurredAt = occurredAt, e_Version = 1,
      e_Data = RejectedData data\<rparr>"

definition NewWalletBalanceChanged ::
    "string \<Rightarrow> string \<Rightarrow> string \<Rightarrow> Time \<Rightarrow> WalletBalanceChangedData \<Rightarrow> Event" where
  "NewWalletBalanceChanged eid aggregateID correlationID occurredAt data =
     \<lparr>e_ID = eid, e_Type = ''WalletBalanceChanged'', e_AggregateID = aggregateID,
      e_CorrelationID = correlationID, e_CausationID = [], e_OccurredAt = occurredAt, e_Version = 1,
      e_Data = BalanceChangedData data\<rparr>"

definition NewWagerTransactionPendingReference ::
    "string \<Rightarrow> string \<Rightarrow> string \<Rightarrow> Time \<Rightarrow> WagerTransactionPendingReferenceData \<Rightarrow> Event" where
  "NewWagerTransactionPendingReference eid aggregateID correlationID occurredAt data =
     \<lparr>e_ID = eid, e_Type = ''WagerTransactionPendingReference'', e_AggregateID = aggregateID,
      e_CorrelationID = correlationID, e_CausationID = [], e_OccurredAt = occurredAt, e_Version = 1,
      e_Data = PendingReferenceData data\<rparr>"

definition NewWagerTransactionExpired ::
    "string \<Rightarrow> string \<Rightarrow> string \<Rightarrow> Time \<Rightarrow> WagerTransactionExpiredData \<Rightarrow> Event" where
  "NewWagerTransactionExpired eid aggregateID correlationID occurredAt data =
     \<lparr>e_ID = eid, e_Type = ''WagerTransactionExpired'', e_AggregateID = aggregateID,
      e_CorrelationID = correlationID, e_CausationID = [], e_OccurredAt = occurredAt, e_Version = 1,
      e_Data = ExpiredData data\<rparr>"

section \<open>The JSON of a payload\<close>

text \<open>A field tagged \<open>omitempty\<close> is left out when it is the empty string.\<close>

definition str_field :: "string \<Rightarrow> string \<Rightarrow> (string \<times> json) list" where
  "str_field k s = [(k, JString s)]"

definition opt_field :: "string \<Rightarrow> string \<Rightarrow> (string \<times> json) list" where
  "opt_field k s = (if s = [] then [] else [(k, JString s)])"

fun data_json :: "EventData \<Rightarrow> json result" where
  "data_json (ProcessedData d) =
     bindE (money_json (pd_money d)) (\<lambda>mj.
     bindE (case pd_financialResult d of None \<Rightarrow> Inr [] | Some fr \<Rightarrow>
       bindE (money_json fr) (\<lambda>fj. Inr [(''financialResult'', fj)])) (\<lambda>frf.
     Inr (JObject (str_field ''transactionId'' (pd_transactionID d) @ str_field ''walletId'' (pd_walletID d)
       @ str_field ''playerId'' (pd_playerID d) @ str_field ''kind'' (pd_kind d)
       @ opt_field ''providerId'' (pd_providerID d) @ opt_field ''externalTransactionId'' (pd_externalID d)
       @ [(''money'', mj)] @ frf @ [(''idempotentReplay'', JBool (pd_idempotentReplay d))]))))"
| "data_json (RejectedData d) =
     Inr (JObject (str_field ''transactionId'' (rd_transactionID d) @ str_field ''walletId'' (rd_walletID d)
       @ opt_field ''providerId'' (rd_providerID d) @ opt_field ''externalTransactionId'' (rd_externalID d)
       @ str_field ''kind'' (rd_kind d) @ str_field ''failureCode'' (rd_failureCode d)))"
| "data_json (BalanceChangedData d) =
     bindE (money_json (bd_money d)) (\<lambda>mj.
     bindE (money_json (bd_balanceBefore d)) (\<lambda>bj.
     bindE (money_json (bd_balanceAfter d)) (\<lambda>aj.
     Inr (JObject (str_field ''walletId'' (bd_walletID d) @ str_field ''transactionId'' (bd_transactionID d)
       @ str_field ''direction'' (bd_direction d) @ [(''money'', mj), (''balanceBefore'', bj),
         (''balanceAfter'', aj), (''walletVersion'', JInt (sint (bd_walletVersion d)))])))))"
| "data_json (PendingReferenceData d) =
     Inr (JObject (str_field ''transactionId'' (qd_transactionID d) @ str_field ''walletId'' (qd_walletID d)
       @ str_field ''providerId'' (qd_providerID d) @ str_field ''externalTransactionId'' (qd_externalID d)
       @ str_field ''referenceExternalTransactionId'' (qd_referenceExternalID d)))"
| "data_json (ExpiredData d) =
     Inr (JObject (str_field ''transactionId'' (xd_transactionID d) @ str_field ''walletId'' (xd_walletID d)
       @ str_field ''providerId'' (xd_providerID d) @ str_field ''externalTransactionId'' (xd_externalID d)
       @ str_field ''referenceExternalTransactionId'' (xd_referenceExternalID d)
       @ str_field ''failureCode'' (xd_failureCode d)))"

text \<open>A payload can only fail to marshal over an amount without currency.\<close>

lemma money_json_Inr: "currency m \<noteq> [] \<Longrightarrow> \<exists>j. money_json m = Inr j"
  by (simp add: money_json_def MarshalJSON_def)

definition data_ok :: "EventData \<Rightarrow> bool" where
  "data_ok d \<longleftrightarrow> (case d of
     ProcessedData p \<Rightarrow> currency (pd_money p) \<noteq> [] \<and> pd_financialResult p = None
   | BalanceChangedData p \<Rightarrow> currency (bd_money p) \<noteq> [] \<and> currency (bd_balanceBefore p) \<noteq> []
       \<and> currency (bd_balanceAfter p) \<noteq> []
   | _ \<Rightarrow> True)"

lemma data_json_Inr: "data_ok d \<Longrightarrow> \<exists>j. data_json d = Inr j"
  by (cases d) (auto simp: data_ok_def money_json_def MarshalJSON_def)

end
