(* ===== verification/Store.thy ===== *)
theory Store
  imports Event
begin

text \<open>
  The database of the service as the SQL of \<open>internal/infra/postgres\<close> sees it: five tables
  whose rows carry the column types and the constraints of \<open>migrations/*.up.sql\<close>. A
  nullable column is an option, \<open>BIGINT\<close> a 64-bit word, \<open>TIMESTAMPTZ\<close> an instant in whole
  microseconds, a UUID its canonical text. A statement the constraints refuse fails as a
  whole; checks are evaluated before unique indexes and those before foreign keys. \<open>PgCheck\<close>
  also stands for a value its column type cannot hold. Postgres itself is not under test:
  what is modelled of it is the documented behaviour of the statements the code issues.
\<close>

section \<open>Column values\<close>

text \<open>\<open>nullableString\<close> and \<open>deref\<close>.\<close>

definition nullableString :: "string \<Rightarrow> string option" where
  "nullableString s = (if s = [] then None else Some s)"

definition deref :: "string option \<Rightarrow> string" where
  "deref s = (case s of None \<Rightarrow> [] | Some x \<Rightarrow> x)"

lemma deref_nullable [simp]: "deref (nullableString s) = s"
  by (simp add: deref_def nullableString_def)

lemma nullable_simps [simp]:
  "nullableString s = None \<longleftrightarrow> s = []"
  "nullableString s = Some x \<longleftrightarrow> s = x \<and> s \<noteq> []"
  "Some x = nullableString s \<longleftrightarrow> s = x \<and> s \<noteq> []"
  by (auto simp: nullableString_def)

text \<open>Instants are stored in microseconds.\<close>

definition pg_ts :: "Time \<Rightarrow> Time" where
  "pg_ts t = t div 1000 * 1000"

lemma pg_ts_idem [simp]: "pg_ts (pg_ts t) = pg_ts t"
  by (simp add: pg_ts_def)

text \<open>\<open>CHECK (currency ~ '^[A-Z]{3}$')\<close> on a \<open>CHAR(3)\<close> column.\<close>

definition currency_format :: "string \<Rightarrow> bool" where
  "currency_format c \<longleftrightarrow> length c = 3 \<and> isAllLetters c"

lemma iso_currency_format: "c \<in> set iso4217Currencies \<Longrightarrow> currency_format c"
  using iso4217_shape by (auto simp: currency_format_def list_all_iff)

section \<open>Rows\<close>

record wallet_row =
  wr_id :: string
  wr_player :: string
  wr_currency :: string
  wr_balance :: int64
  wr_version :: int64
  wr_created :: Time
  wr_updated :: Time

record tx_row =
  xr_id :: string
  xr_kind :: Kind
  xr_status :: Status
  xr_wallet :: string
  xr_player :: string
  xr_amount :: int64
  xr_currency :: string
  xr_provider :: "string option"
  xr_external :: "string option"
  xr_key :: "string option"
  xr_hash :: "string option"
  xr_round :: "string option"
  xr_game :: "string option"
  xr_ref_external :: "string option"
  xr_resolved :: "string option"
  xr_failure :: "string option"
  xr_fr_minor :: "int64 option"
  xr_fr_currency :: "string option"
  xr_retries :: int64
  xr_next_retry :: "Time option"
  xr_created :: Time
  xr_updated :: Time

record ledger_row =
  lr_id :: string
  lr_wallet :: string
  lr_tx :: string
  lr_direction :: Direction
  lr_amount :: int64
  lr_currency :: string
  lr_before :: int64
  lr_after :: int64
  lr_created :: Time

record inbox_row =
  ir_consumer :: string
  ir_message :: string
  ir_hash :: string
  ir_received :: Time
  ir_completed :: "Time option"

record outbox_row =
  or_id :: string
  or_aggregate :: string
  or_type :: string
  or_payload :: json
  or_correlation :: "string option"
  or_causation :: "string option"
  or_occurred :: Time
  or_version :: int64
  or_attempts :: int64
  or_next_attempt :: Time
  or_published :: "Time option"
  or_locked_by :: "string option"
  or_locked_at :: "Time option"

record db =
  wallets :: "wallet_row list"
  txs :: "tx_row list"
  entries :: "ledger_row list"
  inbox :: "inbox_row list"
  outbox :: "outbox_row list"

definition empty_db :: db where
  "empty_db = \<lparr>wallets = [], txs = [], entries = [], inbox = [], outbox = []\<rparr>"

section \<open>Constraints\<close>

definition wallet_check :: "wallet_row \<Rightarrow> bool" where
  "wallet_check r \<longleftrightarrow> 0 \<le> sint (wr_balance r) \<and> 1 \<le> sint (wr_version r) \<and> currency_format (wr_currency r)"

definition wallet_clash :: "wallet_row \<Rightarrow> wallet_row \<Rightarrow> bool" where
  "wallet_clash r r' \<longleftrightarrow> wr_id r = wr_id r' \<or> wr_player r = wr_player r' \<and> wr_currency r = wr_currency r'"

text \<open>A column of type \<open>INT\<close> holds 32 bits.\<close>

definition in_int32 :: "int64 \<Rightarrow> bool" where
  "in_int32 x \<longleftrightarrow> - (2 ^ 31) \<le> sint x \<and> sint x < 2 ^ 31"

definition tx_amount_by_kind :: "tx_row \<Rightarrow> bool" where
  "tx_amount_by_kind r \<longleftrightarrow> (if xr_kind r = KindLoss then sint (xr_amount r) = 0 else 0 < sint (xr_amount r))"

definition tx_kind_fields :: "tx_row \<Rightarrow> bool" where
  "tx_kind_fields r \<longleftrightarrow>
     (if xr_kind r = KindOpening
      then xr_provider r = None \<and> xr_external r = None \<and> xr_key r = None \<and> xr_hash r = None \<and>
        xr_round r = None \<and> xr_game r = None \<and> xr_ref_external r = None
      else xr_provider r \<noteq> None \<and> xr_external r \<noteq> None \<and> xr_key r \<noteq> None \<and> xr_hash r \<noteq> None \<and>
        xr_round r \<noteq> None \<and> xr_game r \<noteq> None)"

definition tx_reference_by_kind :: "tx_row \<Rightarrow> bool" where
  "tx_reference_by_kind r \<longleftrightarrow>
     (xr_kind r \<in> {KindRefund, KindRollback} \<and> xr_ref_external r \<noteq> None \<or> xr_kind r = KindWin
      \<or> xr_kind r \<notin> {KindRefund, KindRollback, KindWin} \<and> xr_ref_external r = None)"

definition tx_check :: "tx_row \<Rightarrow> bool" where
  "tx_check r \<longleftrightarrow>
     xr_kind r \<in> {KindBet, KindWin, KindLoss, KindRefund, KindRollback, KindOpening} \<and>
     currency_format (xr_currency r) \<and> tx_amount_by_kind r \<and> tx_kind_fields r \<and>
     tx_reference_by_kind r \<and> in_int32 (xr_retries r) \<and> 0 \<le> sint (xr_retries r) \<and>
     (case xr_fr_currency r of None \<Rightarrow> True | Some c \<Rightarrow> length c \<le> 3)"

text \<open>A partial unique index compares only rows inside it, and NULL equals nothing.\<close>

definition same_key :: "'a option \<Rightarrow> 'a option \<Rightarrow> bool" where
  "same_key a b \<longleftrightarrow> a \<noteq> None \<and> a = b"

definition processed_reversal :: "tx_row \<Rightarrow> bool" where
  "processed_reversal r \<longleftrightarrow> xr_kind r \<in> {KindRefund, KindRollback} \<and> xr_status r = StatusProcessed"

definition tx_clash :: "tx_row \<Rightarrow> tx_row \<Rightarrow> bool" where
  "tx_clash r r' \<longleftrightarrow>
     xr_id r = xr_id r'
     \<or> same_key (xr_provider r) (xr_provider r') \<and> same_key (xr_external r) (xr_external r')
     \<or> xr_kind r = KindOpening \<and> xr_kind r' = KindOpening \<and> xr_wallet r = xr_wallet r'
     \<or> same_key (xr_key r) (xr_key r')
     \<or> processed_reversal r \<and> processed_reversal r' \<and> same_key (xr_resolved r) (xr_resolved r')"

definition ledger_check :: "ledger_row \<Rightarrow> bool" where
  "ledger_check r \<longleftrightarrow>
     lr_direction r \<in> {DirectionDebit, DirectionCredit} \<and> 0 < sint (lr_amount r) \<and>
     currency_format (lr_currency r) \<and> 0 \<le> sint (lr_after r) \<and>
     sint (lr_after r) = sint (lr_before r) + dir_sign (lr_direction r) * sint (lr_amount r)"

definition ledger_clash :: "ledger_row \<Rightarrow> ledger_row \<Rightarrow> bool" where
  "ledger_clash r r' \<longleftrightarrow> lr_id r = lr_id r' \<or> lr_wallet r = lr_wallet r' \<and> lr_tx r = lr_tx r'"

definition inbox_clash :: "inbox_row \<Rightarrow> inbox_row \<Rightarrow> bool" where
  "inbox_clash r r' \<longleftrightarrow> ir_consumer r = ir_consumer r' \<and> ir_message r = ir_message r'"

definition outbox_check :: "outbox_row \<Rightarrow> bool" where
  "outbox_check r \<longleftrightarrow> 0 \<le> sint (or_attempts r) \<and> in_int32 (or_attempts r) \<and> in_int32 (or_version r)"

definition outbox_clash :: "outbox_row \<Rightarrow> outbox_row \<Rightarrow> bool" where
  "outbox_clash r r' \<longleftrightarrow> or_id r = or_id r'"

text \<open>Foreign keys, looked up in the tables they reference (the row itself for a self-reference).\<close>

definition tx_fk :: "db \<Rightarrow> tx_row \<Rightarrow> bool" where
  "tx_fk d r \<longleftrightarrow> list_ex (\<lambda>w. wr_id w = xr_wallet r) (wallets d) \<and>
     (case xr_resolved r of None \<Rightarrow> True | Some x \<Rightarrow> x = xr_id r \<or> list_ex (\<lambda>t. xr_id t = x) (txs d))"

definition ledger_fk :: "db \<Rightarrow> ledger_row \<Rightarrow> bool" where
  "ledger_fk d r \<longleftrightarrow> list_ex (\<lambda>w. wr_id w = lr_wallet r) (wallets d) \<and> list_ex (\<lambda>t. xr_id t = lr_tx r) (txs d)"

section \<open>Statements on one table\<close>

definition insert_row ::
    "('r \<Rightarrow> bool) \<Rightarrow> ('r \<Rightarrow> 'r \<Rightarrow> bool) \<Rightarrow> ('r \<Rightarrow> bool) \<Rightarrow> 'r \<Rightarrow> 'r list \<Rightarrow> 'r list result" where
  "insert_row check clash fk r rs =
     (if \<not> check r then Inl (PgErr PgCheck)
      else if list_ex (clash r) rs then Inl (PgErr PgUnique)
      else if \<not> fk r then Inl (PgErr PgForeignKey)
      else Inr (rs @ [r]))"

text \<open>
  \<open>UPDATE .. SET f WHERE sel\<close>, where \<open>sel\<close> fixes the primary key, so that at most one row changes,
  or \<open>f\<close> leaves every unique column alone. The result carries \<open>RowsAffected\<close>.
\<close>

definition update_row ::
    "('r \<Rightarrow> bool) \<Rightarrow> ('r \<Rightarrow> 'r \<Rightarrow> bool) \<Rightarrow> ('r \<Rightarrow> bool) \<Rightarrow> ('r \<Rightarrow> bool) \<Rightarrow> ('r \<Rightarrow> 'r) \<Rightarrow> 'r list \<Rightarrow>
     (nat \<times> 'r list) result" where
  "update_row check clash fk sel f rs =
     (let hit = filter sel rs; others = filter (\<lambda>r. \<not> sel r) rs in
      if list_ex (\<lambda>r. \<not> check (f r)) hit then Inl (PgErr PgCheck)
      else if list_ex (\<lambda>r. list_ex (clash (f r)) others) hit then Inl (PgErr PgUnique)
      else if list_ex (\<lambda>r. \<not> fk (f r)) hit then Inl (PgErr PgForeignKey)
      else Inr (length hit, map (\<lambda>r. if sel r then f r else r) rs))"

section \<open>The contract of a table\<close>

text \<open>
  Every row of a table satisfies its checks and no two rows clash. An insert keeps that, and so
  does an update that can hit one row only; this is proved once for any table.
\<close>

definition table_ok :: "('r \<Rightarrow> bool) \<Rightarrow> ('r \<Rightarrow> 'r \<Rightarrow> bool) \<Rightarrow> 'r list \<Rightarrow> bool" where
  "table_ok check clash rs \<longleftrightarrow> list_all check rs \<and> sorted_wrt (\<lambda>r r'. \<not> clash r r') rs"

lemma insert_row_Inr_iff:
  "insert_row check clash fk r rs = Inr rs' \<longleftrightarrow>
     check r \<and> \<not> list_ex (clash r) rs \<and> fk r \<and> rs' = rs @ [r]"
  by (auto simp: insert_row_def)

lemma update_row_Inr_iff:
  "update_row check clash fk sel f rs = Inr (n, rs') \<longleftrightarrow>
     (\<forall>r\<in>set rs. sel r \<longrightarrow> check (f r) \<and> fk (f r) \<and> (\<forall>r'\<in>set rs. \<not> sel r' \<longrightarrow> \<not> clash (f r) r')) \<and>
     n = length (filter sel rs) \<and> rs' = map (\<lambda>r. if sel r then f r else r) rs"
  by (auto simp: update_row_def Let_def list_ex_iff)

locale sql_table =
  fixes check :: "'r \<Rightarrow> bool" and clash :: "'r \<Rightarrow> 'r \<Rightarrow> bool" and key :: "'r \<Rightarrow> 'k"
  assumes clash_sym: "clash r r' \<Longrightarrow> clash r' r"
    and clash_key: "key r = key r' \<Longrightarrow> clash r r'"
begin

lemma insert_ok:
  assumes "table_ok check clash rs" "insert_row check clash fk r rs = Inr rs'"
  shows "table_ok check clash rs'"
  using assms clash_sym [of _ r]
  by (auto simp: insert_row_Inr_iff table_ok_def sorted_wrt_append list_ex_iff)

lemma key_unique:
  assumes "table_ok check clash rs" "r \<in> set rs" "r' \<in> set rs" "key r = key r'"
  shows "r = r'"
  using assms
proof (induction rs)
  case (Cons a rs)
  then show ?case using clash_key [of r r'] clash_sym [of r r'] by (auto simp: table_ok_def)
qed simp

lemma key_count:
  assumes "table_ok check clash rs"
  shows "length (filter (\<lambda>r. key r = k) rs) \<le> 1"
  using assms
proof (induction rs)
  case (Cons a rs)
  have "filter (\<lambda>r. key r = k) rs = []" if "key a = k"
    using Cons.prems that clash_key [of a] by (auto simp: filter_empty_conv table_ok_def)
  then show ?case using Cons by (auto simp: table_ok_def)
qed simp

lemma no_clash:
  assumes "table_ok check clash rs" "r \<in> set rs" "r' \<in> set rs" "r \<noteq> r'"
  shows "\<not> clash r r'"
  using assms
proof (induction rs)
  case (Cons a rs)
  then show ?case using clash_sym [of r r'] by (auto simp: table_ok_def)
qed simp

lemma update_ok:
  assumes ok: "table_ok check clash rs" and up: "update_row check clash fk sel f rs = Inr (n, rs')"
    and one: "\<And>r r'. r \<in> set rs \<Longrightarrow> r' \<in> set rs \<Longrightarrow> sel r \<Longrightarrow> sel r' \<Longrightarrow> key r = key r'"
  shows "table_ok check clash rs'"
proof -
  have U: "\<forall>r\<in>set rs. sel r \<longrightarrow> check (f r) \<and> (\<forall>r'\<in>set rs. \<not> sel r' \<longrightarrow> \<not> clash (f r) r')"
    and rs': "rs' = map (\<lambda>r. if sel r then f r else r) rs"
    using up by (auto simp: update_row_Inr_iff)
  have "sorted_wrt (\<lambda>r r'. \<not> clash r r') (map (\<lambda>r. if sel r then f r else r) rs)"
    using ok U one
  proof (induction rs)
    case (Cons a rs)
    have ok': "table_ok check clash rs" and a: "\<forall>r\<in>set rs. \<not> clash a r"
      using Cons.prems(1) by (auto simp: table_ok_def)
    have "\<not> sel r" if "sel a" "r \<in> set rs" for r
      using Cons.prems(3) [of a r] clash_key [of a r] that a by auto
    then have "\<not> clash (if sel a then f a else a) (if sel r then f r else r)" if "r \<in> set rs" for r
      using Cons.prems(2) a that clash_sym [of "a" "f r"] clash_sym [of "f r" a] by (cases "sel a"; cases "sel r") auto
    moreover have "sorted_wrt (\<lambda>r r'. \<not> clash r r') (map (\<lambda>r. if sel r then f r else r) rs)"
      using Cons.IH [OF ok'] Cons.prems(2,3) by simp
    ultimately show ?case
      unfolding list.map sorted_wrt.simps list.set_map ball_simps by blast
  qed simp
  moreover have "list_all check rs'" using ok U rs' by (auto simp: table_ok_def list_all_iff)
  ultimately show ?thesis using rs' by (simp add: table_ok_def)
qed

end

lemma same_key_sym: "same_key a b \<Longrightarrow> same_key b a"
  by (auto simp: same_key_def)

interpretation wt: sql_table wallet_check wallet_clash wr_id
  by unfold_locales (auto simp: wallet_clash_def)

interpretation xt: sql_table tx_check tx_clash xr_id
proof (unfold_locales, goal_cases)
  case (1 r r')
  then show ?case unfolding tx_clash_def by (elim disjE conjE) (simp_all add: same_key_sym)
qed (simp add: tx_clash_def)

interpretation lt: sql_table ledger_check ledger_clash lr_id
  by unfold_locales (auto simp: ledger_clash_def)

interpretation it: sql_table "\<lambda>_. True" inbox_clash "\<lambda>r. (ir_consumer r, ir_message r)"
  by unfold_locales (auto simp: inbox_clash_def)

interpretation ot: sql_table outbox_check outbox_clash or_id
  by unfold_locales (auto simp: outbox_clash_def)

end
