(* ===== verification/Books.thy ===== *)
theory Books
  imports Store
begin

text \<open>
  What the database promises as a whole: every table satisfies its constraints, foreign keys
  point at rows, ledger entries are in the currency of their wallet, and, per wallet, the gap
  between the stored balance and the signed sum of its ledger entries. The service is correct
  when that gap never changes; a database that starts empty then has gap zero everywhere.
\<close>

definition schema_ok :: "db \<Rightarrow> bool" where
  "schema_ok d \<longleftrightarrow>
     table_ok wallet_check wallet_clash (wallets d) \<and> table_ok tx_check tx_clash (txs d) \<and>
     table_ok ledger_check ledger_clash (entries d) \<and>
     table_ok (\<lambda>_. True) inbox_clash (inbox d) \<and> table_ok outbox_check outbox_clash (outbox d) \<and>
     list_all (tx_fk d) (txs d) \<and> list_all (ledger_fk d) (entries d)"

text \<open>An entry is in the currency of its wallet.\<close>

definition entry_currency_ok :: "db \<Rightarrow> ledger_row \<Rightarrow> bool" where
  "entry_currency_ok d e \<longleftrightarrow> list_ex (\<lambda>r. wr_id r = lr_wallet e \<and> wr_currency r = lr_currency e) (wallets d)"

definition db_inv :: "db \<Rightarrow> bool" where
  "db_inv d \<longleftrightarrow> schema_ok d \<and> list_all (entry_currency_ok d) (entries d)"

definition row_delta :: "ledger_row \<Rightarrow> int" where
  "row_delta e = dir_sign (lr_direction e) * sint (lr_amount e)"

definition ledger_sum :: "db \<Rightarrow> string \<Rightarrow> int" where
  "ledger_sum d i = sum_list (map row_delta (filter (\<lambda>e. lr_wallet e = i) (entries d)))"

definition stored_balance :: "db \<Rightarrow> string \<Rightarrow> int" where
  "stored_balance d i = sum_list (map (\<lambda>r. sint (wr_balance r)) (filter (\<lambda>r. wr_id r = i) (wallets d)))"

definition gap :: "db \<Rightarrow> string \<Rightarrow> int" where
  "gap d i = stored_balance d i - ledger_sum d i"

lemma db_inv_empty: "db_inv empty_db" and gap_empty: "gap empty_db i = 0"
  by (simp_all add: db_inv_def schema_ok_def empty_db_def table_ok_def gap_def stored_balance_def ledger_sum_def)

section \<open>Looking a wallet up\<close>

definition wallet_of :: "db \<Rightarrow> string \<Rightarrow> wallet_row option" where
  "wallet_of d i = find (\<lambda>r. wr_id r = i) (wallets d)"

lemma wallet_of_Some:
  assumes "schema_ok d"
  shows "wallet_of d i = Some r \<longleftrightarrow> r \<in> set (wallets d) \<and> wr_id r = i"
proof
  assume "wallet_of d i = Some r"
  then show "r \<in> set (wallets d) \<and> wr_id r = i" by (auto simp: wallet_of_def find_Some_iff)
next
  assume r: "r \<in> set (wallets d) \<and> wr_id r = i"
  then obtain r' where r': "wallet_of d i = Some r'"
    unfolding wallet_of_def by (cases "find (\<lambda>r. wr_id r = i) (wallets d)") (auto simp: find_None_iff)
  then have "r' \<in> set (wallets d)" "wr_id r' = i" by (auto simp: wallet_of_def find_Some_iff)
  with r assms have "r' = r" using wt.key_unique [of "wallets d" r' r] by (simp add: schema_ok_def)
  with r' show "wallet_of d i = Some r" by simp
qed

lemma filter_singleton:
  assumes "table_ok wallet_check wallet_clash rs" "r \<in> set rs"
  shows "filter (\<lambda>x. wr_id x = wr_id r) rs = [r]"
proof -
  let ?l = "filter (\<lambda>x. wr_id x = wr_id r) rs"
  have "length ?l \<le> 1" using wt.key_count [OF assms(1)] .
  moreover have "r \<in> set ?l" using assms(2) by simp
  ultimately show ?thesis by (cases ?l) (auto simp: le_Suc_eq)
qed

lemma stored_balance_row:
  assumes "schema_ok d" "r \<in> set (wallets d)"
  shows "stored_balance d (wr_id r) = sint (wr_balance r)"
  using assms filter_singleton [of "wallets d" r] by (simp add: stored_balance_def schema_ok_def)

section \<open>Statements on the whole database\<close>

text \<open>An insert or update of one table, the other tables unchanged.\<close>

definition insert_wallet :: "wallet_row \<Rightarrow> db \<Rightarrow> (unit \<times> db) result" where
  "insert_wallet r d =
     bindE (insert_row wallet_check wallet_clash (\<lambda>_. True) r (wallets d)) (\<lambda>rs. Inr ((), d\<lparr>wallets := rs\<rparr>))"

definition update_wallet :: "(wallet_row \<Rightarrow> bool) \<Rightarrow> (wallet_row \<Rightarrow> wallet_row) \<Rightarrow> db \<Rightarrow> (nat \<times> db) result" where
  "update_wallet sel f d =
     bindE (update_row wallet_check wallet_clash (\<lambda>_. True) sel f (wallets d))
       (\<lambda>(n, rs). Inr (n, d\<lparr>wallets := rs\<rparr>))"

definition insert_tx :: "tx_row \<Rightarrow> db \<Rightarrow> (unit \<times> db) result" where
  "insert_tx r d =
     bindE (insert_row tx_check tx_clash (tx_fk d) r (txs d)) (\<lambda>rs. Inr ((), d\<lparr>txs := rs\<rparr>))"

definition update_tx :: "(tx_row \<Rightarrow> bool) \<Rightarrow> (tx_row \<Rightarrow> tx_row) \<Rightarrow> db \<Rightarrow> (nat \<times> db) result" where
  "update_tx sel f d =
     bindE (update_row tx_check tx_clash (tx_fk d) sel f (txs d)) (\<lambda>(n, rs). Inr (n, d\<lparr>txs := rs\<rparr>))"

definition insert_entry :: "ledger_row \<Rightarrow> db \<Rightarrow> (unit \<times> db) result" where
  "insert_entry r d =
     bindE (insert_row ledger_check ledger_clash (ledger_fk d) r (entries d)) (\<lambda>rs. Inr ((), d\<lparr>entries := rs\<rparr>))"

definition insert_outbox :: "outbox_row \<Rightarrow> db \<Rightarrow> (unit \<times> db) result" where
  "insert_outbox r d =
     bindE (insert_row outbox_check outbox_clash (\<lambda>_. True) r (outbox d)) (\<lambda>rs. Inr ((), d\<lparr>outbox := rs\<rparr>))"

text \<open>\<open>ON CONFLICT .. DO NOTHING\<close>: a clash is no error, and no row is affected.\<close>

definition insert_inbox :: "inbox_row \<Rightarrow> db \<Rightarrow> (nat \<times> db) result" where
  "insert_inbox r d =
     (if list_ex (inbox_clash r) (inbox d) then Inr (0, d) else Inr (1, d\<lparr>inbox := inbox d @ [r]\<rparr>))"

definition update_inbox :: "(inbox_row \<Rightarrow> bool) \<Rightarrow> (inbox_row \<Rightarrow> inbox_row) \<Rightarrow> db \<Rightarrow> (nat \<times> db) result" where
  "update_inbox sel f d =
     bindE (update_row (\<lambda>_. True) inbox_clash (\<lambda>_. True) sel f (inbox d)) (\<lambda>(n, rs). Inr (n, d\<lparr>inbox := rs\<rparr>))"

definition update_outbox :: "(outbox_row \<Rightarrow> bool) \<Rightarrow> (outbox_row \<Rightarrow> outbox_row) \<Rightarrow> db \<Rightarrow> (nat \<times> db) result" where
  "update_outbox sel f d =
     bindE (update_row outbox_check outbox_clash (\<lambda>_. True) sel f (outbox d)) (\<lambda>(n, rs). Inr (n, d\<lparr>outbox := rs\<rparr>))"

section \<open>Their effect on the promises\<close>

lemma gap_fields: "wallets d' = wallets d \<Longrightarrow> entries d' = entries d \<Longrightarrow> gap d' i = gap d i"
  by (simp add: gap_def stored_balance_def ledger_sum_def)

lemma list_ex_map_same: "(\<And>r. P (g r) = P r) \<Longrightarrow> list_ex P (map g rs) = list_ex P rs"
  by (auto simp: list_ex_iff)

lemma fk_mono:
  assumes "\<And>x. list_ex (\<lambda>w. wr_id w = x) (wallets d) \<Longrightarrow> list_ex (\<lambda>w. wr_id w = x) (wallets d')"
    and "\<And>x. list_ex (\<lambda>t. xr_id t = x) (txs d) \<Longrightarrow> list_ex (\<lambda>t. xr_id t = x) (txs d')"
  shows "tx_fk d r \<Longrightarrow> tx_fk d' r" and "ledger_fk d e \<Longrightarrow> ledger_fk d' e"
  using assms by (auto simp: tx_fk_def ledger_fk_def split: option.splits)

text \<open>The invariant of a database that differs from a correct one by rows added or replaced.\<close>

lemma db_inv_step:
  assumes d: "db_inv d"
    and w: "\<And>x c. list_ex (\<lambda>w. wr_id w = x \<and> wr_currency w = c) (wallets d) \<Longrightarrow>
      list_ex (\<lambda>w. wr_id w = x \<and> wr_currency w = c) (wallets d')"
    and t: "\<And>x. list_ex (\<lambda>t. xr_id t = x) (txs d) \<Longrightarrow> list_ex (\<lambda>t. xr_id t = x) (txs d')"
    and ok: "table_ok wallet_check wallet_clash (wallets d')" "table_ok tx_check tx_clash (txs d')"
      "table_ok ledger_check ledger_clash (entries d')" "table_ok (\<lambda>_. True) inbox_clash (inbox d')"
      "table_ok outbox_check outbox_clash (outbox d')"
    and new_t: "\<And>r. r \<in> set (txs d') \<Longrightarrow> r \<in> set (txs d) \<or> tx_fk d r"
    and new_e: "\<And>e. e \<in> set (entries d') \<Longrightarrow> e \<in> set (entries d) \<or> ledger_fk d e \<and> entry_currency_ok d e"
  shows "db_inv d'"
proof -
  have w': "list_ex (\<lambda>w. wr_id w = x) (wallets d')" if "list_ex (\<lambda>w. wr_id w = x) (wallets d)" for x
  proof -
    from that obtain r where "r \<in> set (wallets d)" "wr_id r = x" by (auto simp: list_ex_iff)
    then have "list_ex (\<lambda>w. wr_id w = x \<and> wr_currency w = wr_currency r) (wallets d')"
      by (intro w) (auto simp: list_ex_iff)
    then show ?thesis by (auto simp: list_ex_iff)
  qed
  note mono = fk_mono [of d d', OF w' t]
  have "tx_fk d' r" if "r \<in> set (txs d')" for r
    using new_t [OF that] d mono by (auto simp: db_inv_def schema_ok_def list_all_iff)
  moreover have "ledger_fk d' e \<and> entry_currency_ok d' e" if "e \<in> set (entries d')" for e
    using new_e [OF that] d mono w by (auto simp: db_inv_def schema_ok_def list_all_iff entry_currency_ok_def)
  ultimately show ?thesis using ok by (simp add: db_inv_def schema_ok_def list_all_iff)
qed

lemma db_inv_tables:
  assumes "db_inv d"
  shows "table_ok wallet_check wallet_clash (wallets d)" "table_ok tx_check tx_clash (txs d)"
    "table_ok ledger_check ledger_clash (entries d)" "table_ok (\<lambda>_. True) inbox_clash (inbox d)"
    "table_ok outbox_check outbox_clash (outbox d)"
  using assms by (simp_all add: db_inv_def schema_ok_def)

lemma insert_wallet_inv:
  assumes "db_inv d" "insert_wallet r d = Inr (u, d')"
  shows "db_inv d'" and "gap d' i = gap d i + (if i = wr_id r then sint (wr_balance r) else 0)"
proof -
  have ins: "insert_row wallet_check wallet_clash (\<lambda>_. True) r (wallets d) = Inr (wallets d @ [r])"
    and d': "d' = d\<lparr>wallets := wallets d @ [r]\<rparr>"
    using assms(2) by (auto simp: insert_wallet_def bindE_Inr_iff insert_row_Inr_iff)
  show "db_inv d'" using wt.insert_ok [OF db_inv_tables(1) [OF assms(1)] ins]
    by (intro db_inv_step [OF assms(1)]) (simp_all add: d' db_inv_tables [OF assms(1)])
  show "gap d' i = gap d i + (if i = wr_id r then sint (wr_balance r) else 0)"
    by (simp add: d' gap_def stored_balance_def ledger_sum_def)
qed

lemma update_tx_inv:
  assumes "db_inv d" "update_tx sel f d = Inr (n, d')"
    and "\<And>r. xr_id (f r) = xr_id r" "\<And>r. xr_wallet (f r) = xr_wallet r"
    and "\<And>r r'. sel r \<Longrightarrow> sel r' \<Longrightarrow> xr_id r = xr_id r'"
  shows "db_inv d'" and "gap d' i = gap d i" and "wallets d' = wallets d"
proof -
  let ?g = "\<lambda>r. if sel r then f r else r"
  have up: "update_row tx_check tx_clash (tx_fk d) sel f (txs d) = Inr (n, map ?g (txs d))"
    and d': "d' = d\<lparr>txs := map ?g (txs d)\<rparr>"
    using assms(2) by (auto simp: update_tx_def bindE_Inr_iff update_row_Inr_iff)
  have ids: "xr_id (?g r) = xr_id r" for r using assms(3) by simp
  have "\<forall>r\<in>set (txs d). sel r \<longrightarrow> tx_fk d (f r)" using up unfolding update_row_Inr_iff by blast
  then have fk: "tx_fk d (?g r)" if "r \<in> set (txs d)" for r
    using assms(1) that by (simp add: db_inv_def schema_ok_def list_all_iff)
  have "table_ok tx_check tx_clash (map ?g (txs d))"
    by (rule xt.update_ok [OF db_inv_tables(2) [OF assms(1)] up]) (rule assms(5))
  then show "db_inv d'"
  proof (intro db_inv_step [OF assms(1)], goal_cases)
    case (2 x)
    then show ?case using list_ex_map_same [of "\<lambda>t. xr_id t = x" ?g "txs d"] ids by (simp add: d')
  next
    case (8 r)
    then obtain x where "x \<in> set (txs d)" "r = ?g x" by (auto simp: d')
    then show ?case using fk by simp
  qed (simp_all add: d' db_inv_tables [OF assms(1)])
  show "gap d' i = gap d i" "wallets d' = wallets d" by (rule gap_fields; simp add: d') (simp add: d')
qed

lemma insert_tx_inv:
  assumes "db_inv d" "insert_tx r d = Inr (u, d')"
  shows "db_inv d'" and "gap d' i = gap d i" and "wallets d' = wallets d"
proof -
  have ins: "insert_row tx_check tx_clash (tx_fk d) r (txs d) = Inr (txs d @ [r])"
    and fk: "tx_fk d r" and d': "d' = d\<lparr>txs := txs d @ [r]\<rparr>"
    using assms(2) by (auto simp: insert_tx_def bindE_Inr_iff insert_row_Inr_iff)
  show "db_inv d'" using xt.insert_ok [OF db_inv_tables(2) [OF assms(1)] ins] fk
    by (intro db_inv_step [OF assms(1)]) (auto simp: d' db_inv_tables [OF assms(1)])
  show "gap d' i = gap d i" "wallets d' = wallets d" by (rule gap_fields; simp add: d') (simp add: d')
qed

lemma insert_entry_inv:
  assumes "db_inv d" "insert_entry r d = Inr (u, d')" "entry_currency_ok d r"
  shows "db_inv d'" and "gap d' i = gap d i - (if i = lr_wallet r then row_delta r else 0)"
    and "wallets d' = wallets d"
proof -
  have ins: "insert_row ledger_check ledger_clash (ledger_fk d) r (entries d) = Inr (entries d @ [r])"
    and fk: "ledger_fk d r" and d': "d' = d\<lparr>entries := entries d @ [r]\<rparr>"
    using assms(2) by (auto simp: insert_entry_def bindE_Inr_iff insert_row_Inr_iff)
  show "db_inv d'" using assms(3) fk lt.insert_ok [OF db_inv_tables(3) [OF assms(1)] ins]
    by (intro db_inv_step [OF assms(1)]) (auto simp: d' db_inv_tables [OF assms(1)])
  show "gap d' i = gap d i - (if i = lr_wallet r then row_delta r else 0)" "wallets d' = wallets d"
    by (simp_all add: d' gap_def stored_balance_def ledger_sum_def)
qed

lemma insert_outbox_inv:
  assumes "db_inv d" "insert_outbox r d = Inr (u, d')"
  shows "db_inv d'" and "gap d' i = gap d i" and "wallets d' = wallets d" and "txs d' = txs d"
proof -
  have ins: "insert_row outbox_check outbox_clash (\<lambda>_. True) r (outbox d) = Inr (outbox d @ [r])"
    and d': "d' = d\<lparr>outbox := outbox d @ [r]\<rparr>"
    using assms(2) by (auto simp: insert_outbox_def bindE_Inr_iff insert_row_Inr_iff)
  show "db_inv d'" using ot.insert_ok [OF db_inv_tables(5) [OF assms(1)] ins]
    by (intro db_inv_step [OF assms(1)]) (simp_all add: d' db_inv_tables [OF assms(1)])
  show "gap d' i = gap d i" by (rule gap_fields) (simp_all add: d')
  show "wallets d' = wallets d" "txs d' = txs d" by (simp_all add: d')
qed

text \<open>A balance update of one wallet row, found under its id, moves the gap by what it moves the balance.\<close>

lemma update_wallet_inv:
  assumes "db_inv d" "update_wallet sel f d = Inr (n, d')"
    and key: "\<And>r. wr_id (f r) = wr_id r" "\<And>r. wr_currency (f r) = wr_currency r"
    and sel: "\<And>r. sel r \<Longrightarrow> wr_id r = k"
  shows "db_inv d'"
    and "n = 0 \<Longrightarrow> d' = d"
    and "n \<noteq> 0 \<Longrightarrow> \<exists>r\<in>set (wallets d). sel r \<and> f r \<in> set (wallets d') \<and>
      gap d' i = gap d i + (if i = k then sint (wr_balance (f r)) - sint (wr_balance r) else 0)"
proof -
  let ?g = "\<lambda>r. if sel r then f r else r"
  have up: "update_row wallet_check wallet_clash (\<lambda>_. True) sel f (wallets d) = Inr (n, map ?g (wallets d))"
    and n: "n = length (filter sel (wallets d))" and d': "d' = d\<lparr>wallets := map ?g (wallets d)\<rparr>"
    using assms(2) by (auto simp: update_wallet_def bindE_Inr_iff update_row_Inr_iff)
  have tab: "table_ok wallet_check wallet_clash (wallets d)" using assms(1) by (simp add: db_inv_def schema_ok_def)
  have tab': "table_ok wallet_check wallet_clash (map ?g (wallets d))"
    using wt.update_ok [OF tab up] sel by simp
  show "db_inv d'" using tab'
  proof (intro db_inv_step [OF assms(1)], goal_cases)
    case (1 x c)
    then show ?case
      using list_ex_map_same [of "\<lambda>w. wr_id w = x \<and> wr_currency w = c" ?g "wallets d"] key by (simp add: d')
  qed (simp_all add: d' db_inv_tables [OF assms(1)])
  then have s': "schema_ok d'" by (simp add: db_inv_def)
  have s: "schema_ok d" using assms(1) by (simp add: db_inv_def)
  show "d' = d" if "n = 0"
  proof -
    have "map ?g (wallets d) = wallets d" using that n by (auto simp: filter_empty_conv intro: map_idI)
    then show ?thesis by (simp add: d')
  qed
  show "\<exists>r\<in>set (wallets d). sel r \<and> f r \<in> set (wallets d') \<and>
      gap d' i = gap d i + (if i = k then sint (wr_balance (f r)) - sint (wr_balance r) else 0)" if nz: "n \<noteq> 0"
  proof -
    obtain r where r: "r \<in> set (wallets d)" "sel r" using nz n by (auto simp: filter_empty_conv)
    have fr: "f r \<in> set (wallets d')" using r by (force simp: d')
    have "stored_balance d' i = stored_balance d i" if "i \<noteq> k"
    proof -
      have "filter (\<lambda>x. wr_id x = i) (map ?g rs) = filter (\<lambda>x. wr_id x = i) rs" for rs
        using that sel key by (induction rs) auto
      then show ?thesis by (simp add: stored_balance_def d')
    qed
    moreover have "stored_balance d' k = sint (wr_balance (f r))" "stored_balance d k = sint (wr_balance r)"
      using stored_balance_row [OF s r(1)] stored_balance_row [OF s' fr] sel [OF r(2)] key by simp_all
    moreover have "ledger_sum d' i = ledger_sum d i" by (simp add: ledger_sum_def d')
    ultimately have "gap d' i = gap d i + (if i = k then sint (wr_balance (f r)) - sint (wr_balance r) else 0)"
      by (cases "i = k") (simp_all add: gap_def)
    with r fr show ?thesis by blast
  qed
qed

end
