(* ===== verification/World.thy ===== *)
theory World
  imports Books
begin

text \<open>
  The outside world of a use case and the code that runs in it (\<open>postgres/txmanager.go\<close>, the
  injected \<open>now\<close> and \<open>idGen\<close>, the Prometheus counters). Everything the program does not
  control is an oracle, indexed by a counter of the world: what other sessions commit before
  a statement sees the database, whether a statement fails and how, the clocks, the fresh
  ids, the answers of the message queue, the cancellation of a worker's context. An operation
  maps an oracle and a world to a result and the world it leaves.
\<close>

section \<open>Oracles and worlds\<close>

text \<open>
  A statement may fail before it has any effect, or take effect and lose its answer (the case
  that matters for \<open>COMMIT\<close>: the caller sees an error and cannot know).
\<close>

datatype fault = NoFault | Fails infra_err | FailsAfter infra_err

text \<open>A message received from the queue: body, the queue's id, and the receipt that names it.\<close>

record inMessage =
  im_Body :: "string option"
  im_MessageId :: "string option"
  im_Receipt :: string

text \<open>
  \<open>row_locked\<close> tells which outbox rows another session holds locked at a tick, \<open>arrange\<close> is the
  order in which Postgres returns rows no \<open>ORDER BY\<close> binds, \<open>queue_fault\<close> the fate of a call
  to the message queue, \<open>inbound\<close> what a call to receive returns, and \<open>cancelled\<close> whether the context of a background loop has ended.
\<close>

record env =
  interf :: "nat \<Rightarrow> db \<Rightarrow> db"
  fault_at :: "nat \<Rightarrow> fault"
  db_clock :: "nat \<Rightarrow> Time"
  clock :: "nat \<Rightarrow> Time"
  new_id :: "nat \<Rightarrow> string"
  row_locked :: "nat \<Rightarrow> string \<Rightarrow> bool"
  arrange :: "nat \<Rightarrow> outbox_row list \<Rightarrow> outbox_row list"
  queue_fault :: "nat \<Rightarrow> fault"
  inbound :: "nat \<Rightarrow> infra_err + inMessage list"
  cancelled :: "nat \<Rightarrow> bool"

text \<open>The counters of \<open>observability/metrics.go\<close> the use cases touch; a labelled one is the list of its increments.\<close>

record metrics =
  WagerTransactionsTotal :: "(string \<times> string) list"
  IdempotentReplaysTotal :: nat
  OptimisticLockRetriesTotal :: nat
  TooManyRetriesTotal :: nat
  ReconciliationChecksTotal :: nat
  ReconciliationDivergentTotal :: nat
  OutboxPublishFailuresTotal :: nat
  InboxDuplicatesTotal :: nat
  MessageDeliveryFailuresTotal :: nat

text \<open>
  What the message queue has taken: the messages sent (group, deduplication id, body up to the
  text of its JSON), and the
  receipts deleted and those released for redelivery.
\<close>

record message =
  m_group :: string
  m_dedup :: string
  m_body :: json

record queue =
  sent :: "message list"
  deleted :: "string list"
  released :: "string list"

text \<open>
  \<open>committed\<close> is what every new transaction starts from; \<open>session\<close> is the view of the open
  transaction, if there is one: what is committed plus its own writes. \<open>snapshot\<close> marks a
  REPEATABLE READ transaction, whose view other sessions do not change.
\<close>

record world =
  committed :: db
  session :: "db option"
  snapshot :: bool
  tx_start :: Time
  ticks :: nat
  clocks :: nat
  ids :: nat
  calls :: nat
  counters :: metrics
  mail :: queue

type_synonym 'a io = "env \<Rightarrow> world \<Rightarrow> 'a result \<times> world"

section \<open>Sequencing\<close>

definition ret :: "'a \<Rightarrow> 'a io" where
  "ret x = (\<lambda>e w. (Inr x, w))"

definition throw :: "go_error \<Rightarrow> 'a io" where
  "throw x = (\<lambda>e w. (Inl x, w))"

text \<open>\<open>x, err := m; if err != nil { return err }; f(x)\<close>.\<close>

definition bindM :: "'a io \<Rightarrow> ('a \<Rightarrow> 'b io) \<Rightarrow> 'b io" where
  "bindM m f = (\<lambda>e w. case m e w of (Inl x, w') \<Rightarrow> (Inl x, w') | (Inr a, w') \<Rightarrow> f a e w')"

text \<open>\<open>x, err := m\<close> where the code goes on to inspect \<open>err\<close> itself.\<close>

definition attempting :: "'a io \<Rightarrow> 'a result io" where
  "attempting m = (\<lambda>e w. case m e w of (r, w') \<Rightarrow> (Inr r, w'))"

definition lift :: "'a result \<Rightarrow> 'a io" where
  "lift r = (\<lambda>e w. (r, w))"

lemma io_simps [simp]:
  "ret x e w = (Inr x, w)"
  "throw y e w = (Inl y, w)"
  "lift r e w = (r, w)"
  by (simp_all add: ret_def throw_def lift_def)

lemma bindM_apply: "bindM m f e w = (case m e w of (Inl x, w') \<Rightarrow> (Inl x, w') | (Inr a, w') \<Rightarrow> f a e w')"
  by (simp add: bindM_def)

lemma attempting_apply: "attempting m e w = (case m e w of (r, w') \<Rightarrow> (Inr r, w'))"
  by (simp add: attempting_def)

section \<open>Clock, ids, counters\<close>

definition timeNow :: "Time io" where
  "timeNow = (\<lambda>e w. (Inr (clock e (clocks w)), w\<lparr>clocks := Suc (clocks w)\<rparr>))"

definition NewID :: "string io" where
  "NewID = (\<lambda>e w. (Inr (new_id e (ids w)), w\<lparr>ids := Suc (ids w)\<rparr>))"

definition count :: "(metrics \<Rightarrow> metrics) \<Rightarrow> unit io" where
  "count f = (\<lambda>e w. (Inr (), w\<lparr>counters := f (counters w)\<rparr>))"

section \<open>The message queue and the context\<close>

text \<open>A call to the queue may fail without effect, or take effect and report an error.\<close>

definition queue_call :: "(queue \<Rightarrow> queue) \<Rightarrow> unit io" where
  "queue_call f = (\<lambda>e w.
     (case queue_fault e (calls w) of
        NoFault \<Rightarrow> (Inr (), w\<lparr>calls := Suc (calls w), mail := f (mail w)\<rparr>)
      | Fails x \<Rightarrow> (Inl (InfraErr x), w\<lparr>calls := Suc (calls w)\<rparr>)
      | FailsAfter x \<Rightarrow> (Inl (InfraErr x), w\<lparr>calls := Suc (calls w), mail := f (mail w)\<rparr>)))"

text \<open>\<open>ctx.Err() != nil\<close>.\<close>

definition ctxDone :: "bool io" where
  "ctxDone = (\<lambda>e w. (Inr (cancelled e (ticks w)), w))"

section \<open>Statements\<close>

text \<open>\<open>querierFrom\<close>: the open transaction when there is one, else the pool, where a statement is its own transaction.\<close>

definition view :: "world \<Rightarrow> db" where
  "view w = (case session w of Some d \<Rightarrow> d | None \<Rightarrow> committed w)"

definition put_view :: "db \<Rightarrow> world \<Rightarrow> world" where
  "put_view d w = (case session w of Some _ \<Rightarrow> w\<lparr>session := Some d\<rparr> | None \<Rightarrow> w\<lparr>committed := d\<rparr>)"

text \<open>Before a statement runs, whatever other sessions have committed becomes visible.\<close>

definition interfere :: "env \<Rightarrow> world \<Rightarrow> world" where
  "interfere e w = w\<lparr>committed := interf e (ticks w) (committed w),
     session := (if snapshot w then session w else map_option (interf e (ticks w)) (session w)),
     ticks := Suc (ticks w)\<rparr>"

text \<open>\<open>now()\<close> in SQL is the start of the transaction, or of the statement when there is none.\<close>

definition sql_now :: "env \<Rightarrow> world \<Rightarrow> Time" where
  "sql_now e w = (case session w of Some _ \<Rightarrow> tx_start w | None \<Rightarrow> db_clock e (ticks w))"

definition stmt :: "(Time \<Rightarrow> db \<Rightarrow> ('a \<times> db) result) \<Rightarrow> 'a io" where
  "stmt s = (\<lambda>e w.
     (let w1 = interfere e w; run = s (sql_now e w) (view w1) in
      case fault_at e (ticks w) of
        Fails x \<Rightarrow> (Inl (InfraErr x), w1)
      | NoFault \<Rightarrow> (case run of Inl y \<Rightarrow> (Inl y, w1) | Inr (a, d) \<Rightarrow> (Inr a, put_view d w1))
      | FailsAfter x \<Rightarrow> (case run of Inl y \<Rightarrow> (Inl (InfraErr x), w1)
          | Inr (a, d) \<Rightarrow> (Inl (InfraErr x), put_view d w1))))"

definition query :: "(Time \<Rightarrow> db \<Rightarrow> 'a) \<Rightarrow> 'a io" where
  "query q = stmt (\<lambda>now d. Inr (q now d, d))"

section \<open>Units of work\<close>

definition begin_tx :: "bool \<Rightarrow> unit io" where
  "begin_tx snap = (\<lambda>e w.
     (let w1 = interfere e w in
      case fault_at e (ticks w) of
        NoFault \<Rightarrow> (Inr (), w1\<lparr>session := Some (committed w1), snapshot := snap, tx_start := db_clock e (ticks w)\<rparr>)
      | Fails x \<Rightarrow> (Inl (InfraErr x), w1)
      | FailsAfter x \<Rightarrow> (Inl (InfraErr x), w1)))"

text \<open>A transaction that ends drops its view; only a commit that takes effect publishes it.\<close>

definition end_tx :: "world \<Rightarrow> world" where
  "end_tx w = w\<lparr>session := None, snapshot := False\<rparr>"

definition publish :: "world \<Rightarrow> world" where
  "publish w = (case session w of Some d \<Rightarrow> end_tx (if snapshot w then w else w\<lparr>committed := d\<rparr>) | None \<Rightarrow> w)"

definition commit_tx :: "unit io" where
  "commit_tx = (\<lambda>e w.
     (let w1 = interfere e w in
      case fault_at e (ticks w) of
        NoFault \<Rightarrow> (Inr (), publish w1)
      | Fails x \<Rightarrow> (Inl (InfraErr x), end_tx w1)
      | FailsAfter x \<Rightarrow> (Inl (InfraErr x), publish w1)))"

text \<open>
  \<open>WithinTx\<close>: begin, run \<open>fn\<close> on the transaction, roll back on its error (the error of the
  rollback is dropped), else commit. \<open>PgUnitOfWork.Execute\<close> is \<open>WithinTx\<close> on its pool, and
  \<open>ReadSnapshot\<close> the same on a read-only REPEATABLE READ transaction, which has nothing to publish.
  No caller opens a transaction inside another.
\<close>

definition in_tx :: "bool \<Rightarrow> 'a io \<Rightarrow> 'a io" where
  "in_tx snap fn = bindM (begin_tx snap) (\<lambda>_. \<lambda>e w.
     (case fn e w of
        (Inl x, w') \<Rightarrow> (Inl x, end_tx w')
      | (Inr a, w') \<Rightarrow> bindM commit_tx (\<lambda>_. ret a) e w'))"

definition WithinTx :: "'a io \<Rightarrow> 'a io" where
  "WithinTx fn = in_tx False fn"

definition UowExecute :: "'a io \<Rightarrow> 'a io" where
  "UowExecute fn = WithinTx fn"

definition ReadSnapshot :: "'a io \<Rightarrow> 'a io" where
  "ReadSnapshot fn = in_tx True fn"

text \<open>\<open>isUniqueViolation(err)\<close> turned into \<open>ports.ErrAlreadyExists\<close>, as every \<open>Create\<close> does.\<close>

definition unique_as_exists :: "'a io \<Rightarrow> 'a io" where
  "unique_as_exists m = (\<lambda>e w. case m e w of
     (Inl (PgErr PgUnique), w') \<Rightarrow> (Inl (PortsErr Ports_ErrAlreadyExists), w')
   | (r, w') \<Rightarrow> (r, w'))"

section \<open>Reasoning: outcomes of an operation\<close>

text \<open>
  \<open>triple e P m Q R\<close>: from a world with \<open>P\<close>, \<open>m\<close> either returns a value and a world related
  by \<open>Q\<close>, or an error and a world related by \<open>R\<close>.
\<close>

definition triple ::
    "env \<Rightarrow> (world \<Rightarrow> bool) \<Rightarrow> 'a io \<Rightarrow> ('a \<Rightarrow> world \<Rightarrow> bool) \<Rightarrow> (go_error \<Rightarrow> world \<Rightarrow> bool) \<Rightarrow> bool" where
  "triple e P m Q R \<longleftrightarrow>
     (\<forall>w. P w \<longrightarrow> (case m e w of (Inr a, w') \<Rightarrow> Q a w' | (Inl x, w') \<Rightarrow> R x w'))"

named_theorems triple_rules

lemma triple_ret [triple_rules]: "(\<And>w. P w \<Longrightarrow> Q x w) \<Longrightarrow> triple e P (ret x) Q R"
  by (simp add: triple_def)

lemma triple_throw [triple_rules]: "(\<And>w. P w \<Longrightarrow> R x w) \<Longrightarrow> triple e P (throw x) Q R"
  by (simp add: triple_def)

lemma triple_bind:
  assumes "triple e P m Q' R" "\<And>a. triple e (Q' a) (f a) Q R"
  shows "triple e P (bindM m f) Q R"
  unfolding triple_def
proof (intro allI impI)
  fix w assume "P w"
  then show "case bindM m f e w of (Inr a, w') \<Rightarrow> Q a w' | (Inl x, w') \<Rightarrow> R x w'"
    using assms by (cases "m e w"; cases "fst (m e w)") (fastforce simp: triple_def bindM_apply)+
qed

lemma triple_attempting:
  assumes "triple e P m (\<lambda>a. Q (Inr a)) (\<lambda>x. Q (Inl x))"
  shows "triple e P (attempting m) Q R"
  unfolding triple_def
proof (intro allI impI)
  fix w assume "P w"
  then show "case attempting m e w of (Inr a, w') \<Rightarrow> Q a w' | (Inl x, w') \<Rightarrow> R x w'"
    using assms by (cases "m e w"; cases "fst (m e w)") (fastforce simp: triple_def attempting_apply)+
qed

lemma triple_lift: "(\<And>w a. P w \<Longrightarrow> r = Inr a \<Longrightarrow> Q a w) \<Longrightarrow> (\<And>w x. P w \<Longrightarrow> r = Inl x \<Longrightarrow> R x w) \<Longrightarrow> triple e P (lift r) Q R"
  by (cases r) (simp_all add: triple_def)

lemma tripleD: "triple e P m Q R \<Longrightarrow> P w \<Longrightarrow> case m e w of (Inr a, w') \<Rightarrow> Q a w' | (Inl x, w') \<Rightarrow> R x w'"
  by (simp add: triple_def)

lemma triple_weaken:
  assumes "triple e P m Q R" "\<And>w. P' w \<Longrightarrow> P w" "\<And>a w. Q a w \<Longrightarrow> Q' a w" "\<And>x w. R x w \<Longrightarrow> R' x w"
  shows "triple e P' m Q' R'"
  using assms unfolding triple_def by (fastforce split: sum.splits)

lemma triple_if [triple_rules]:
  "(b \<Longrightarrow> triple e P m Q R) \<Longrightarrow> (\<not> b \<Longrightarrow> triple e P n Q R) \<Longrightarrow> triple e P (if b then m else n) Q R"
  by simp

lemma triple_unique_as_exists:
  assumes "triple e P m Q (\<lambda>_. R)"
  shows "triple e P (unique_as_exists m) Q (\<lambda>_. R)"
  unfolding triple_def
proof (intro allI impI)
  fix w assume "P w"
  then have "case m e w of (Inr a, w') \<Rightarrow> Q a w' | (Inl x, w') \<Rightarrow> R w'" using assms by (simp add: triple_def)
  then show "case unique_as_exists m e w of (Inr a, w') \<Rightarrow> Q a w' | (Inl x, w') \<Rightarrow> R w'"
    by (auto simp: unique_as_exists_def split: prod.splits sum.splits go_error.splits pg_err.splits)
qed

end
