(* ===== verification/Rely.thy ===== *)
theory Rely
  imports World
begin

text \<open>
  What the service relies on in the other sessions, and the rules that follow for code running
  inside a transaction. The other sessions are other instances of the service, or anything that
  keeps the same promises: they leave the database in its invariant, do not change any wallet's
  gap, and never change a wallet's balance without a new version. They may do so between any two
  statements, both in what is committed and in what the open transaction sees.
\<close>

definition rely_step :: "db \<Rightarrow> db \<Rightarrow> bool" where
  "rely_step d d' \<longleftrightarrow> db_inv d' \<and> (\<forall>i. gap d' i = gap d i) \<and>
     (\<forall>r\<in>set (wallets d). \<exists>r'\<in>set (wallets d'). wr_id r' = wr_id r \<and> wr_player r' = wr_player r \<and>
        wr_currency r' = wr_currency r \<and> sint (wr_version r) \<le> sint (wr_version r') \<and>
        (wr_version r' = wr_version r \<longrightarrow> wr_balance r' = wr_balance r))"

definition rely :: "env \<Rightarrow> bool" where
  "rely e \<longleftrightarrow> (\<forall>n d. db_inv d \<longrightarrow> rely_step d (interf e n d))"

lemma rely_step_refl: "db_inv d \<Longrightarrow> rely_step d d"
  by (auto simp: rely_step_def)

lemma rely_alone: "(\<And>n d. interf e n d = d) \<Longrightarrow> rely e"
  by (simp add: rely_def rely_step_refl)

section \<open>Assertions\<close>

definition committed_ok :: "(string \<Rightarrow> int) \<Rightarrow> world \<Rightarrow> bool" where
  "committed_ok g w \<longleftrightarrow> db_inv (committed w) \<and> (\<forall>i. gap (committed w) i = g i)"

text \<open>Outside any transaction, inside one whose view satisfies \<open>p\<close>, and inside one that has failed.\<close>

definition outside :: "(string \<Rightarrow> int) \<Rightarrow> world \<Rightarrow> bool" where
  "outside g w \<longleftrightarrow> \<not> snapshot w \<and> session w = None \<and> committed_ok g w"

definition inside :: "(string \<Rightarrow> int) \<Rightarrow> (db \<Rightarrow> bool) \<Rightarrow> world \<Rightarrow> bool" where
  "inside g p w \<longleftrightarrow> \<not> snapshot w \<and> committed_ok g w \<and> (\<exists>d. session w = Some d \<and> db_inv d \<and> p d)"

abbreviation failed :: "(string \<Rightarrow> int) \<Rightarrow> world \<Rightarrow> bool" where
  "failed g \<equiv> inside g (\<lambda>_. True)"

text \<open>The gaps of the view differ from those committed by what is still to be booked.\<close>

definition pending :: "(string \<Rightarrow> int) \<Rightarrow> (string \<Rightarrow> int) \<Rightarrow> db \<Rightarrow> bool" where
  "pending g D d \<longleftrightarrow> (\<forall>i. gap d i = g i + D i)"

abbreviation settled :: "(string \<Rightarrow> int) \<Rightarrow> db \<Rightarrow> bool" where
  "settled g \<equiv> pending g (\<lambda>_. 0)"

text \<open>A wallet was read with this balance at this version: as long as it has the version, it has the balance.\<close>

definition seen :: "Wallet \<Rightarrow> db \<Rightarrow> bool" where
  "seen w d \<longleftrightarrow> (\<exists>r\<in>set (wallets d). wr_id r = w_id w \<and> wr_currency r = w_currency w \<and>
     sint (w_version w) \<le> sint (wr_version r) \<and>
     (wr_version r = w_version w \<longrightarrow> wr_balance r = minorUnits (w_balance w)))"

text \<open>The wallet's row exists in this currency.\<close>

definition holds_currency :: "string \<Rightarrow> string \<Rightarrow> db \<Rightarrow> bool" where
  "holds_currency i c d \<longleftrightarrow> list_ex (\<lambda>r. wr_id r = i \<and> wr_currency r = c) (wallets d)"

definition stable :: "env \<Rightarrow> (db \<Rightarrow> bool) \<Rightarrow> bool" where
  "stable e p \<longleftrightarrow> (\<forall>n d. db_inv d \<longrightarrow> p d \<longrightarrow> p (interf e n d))"

text \<open>A predicate that only looks at wallets and ledger entries.\<close>

definition money_pred :: "(db \<Rightarrow> bool) \<Rightarrow> bool" where
  "money_pred p \<longleftrightarrow> (\<forall>d d'. wallets d' = wallets d \<longrightarrow> (\<forall>i. gap d' i = gap d i) \<longrightarrow> p d \<longrightarrow> p d')"

lemma stable_True [simp]: "stable e (\<lambda>_. True)"
  by (simp add: stable_def)

lemma stable_conj [intro]: "stable e p \<Longrightarrow> stable e q \<Longrightarrow> stable e (\<lambda>d. p d \<and> q d)"
  by (simp add: stable_def)

lemma stable_pending [intro]: "rely e \<Longrightarrow> stable e (pending g D)"
  by (simp add: stable_def rely_def rely_step_def pending_def)

lemma stable_seen [intro]:
  assumes "rely e" shows "stable e (seen w)"
  unfolding stable_def seen_def
proof (intro allI impI, elim bexE conjE)
  fix n d r
  assume d: "db_inv d" and r: "r \<in> set (wallets d)" "wr_id r = w_id w" "wr_currency r = w_currency w"
    "sint (w_version w) \<le> sint (wr_version r)"
    "wr_version r = w_version w \<longrightarrow> wr_balance r = minorUnits (w_balance w)"
  obtain r' where r': "r' \<in> set (wallets (interf e n d))" "wr_id r' = wr_id r" "wr_currency r' = wr_currency r"
    "sint (wr_version r) \<le> sint (wr_version r')" "wr_version r' = wr_version r \<longrightarrow> wr_balance r' = wr_balance r"
    using assms d r(1) unfolding rely_def rely_step_def by blast
  have "wr_balance r' = minorUnits (w_balance w)" if v: "wr_version r' = w_version w"
  proof -
    have "sint (wr_version r) = sint (w_version w)" using v r(4) r'(4) by simp
    then have "wr_version r = w_version w" by (simp add: sint64_eq_iff)
    then show ?thesis using r'(5) r(5) v by simp
  qed
  then show "\<exists>r\<in>set (wallets (interf e n d)). wr_id r = w_id w \<and> wr_currency r = w_currency w \<and>
      sint (w_version w) \<le> sint (wr_version r) \<and> (wr_version r = w_version w \<longrightarrow> wr_balance r = minorUnits (w_balance w))"
    using r r' by (intro bexI [of _ r']) auto
qed

lemma stable_holds_currency [intro]:
  assumes "rely e" shows "stable e (holds_currency i c)"
  unfolding stable_def
proof (intro allI impI)
  fix n d
  assume "db_inv d" "holds_currency i c d"
  moreover from this(2) obtain r where "r \<in> set (wallets d)" "wr_id r = i" "wr_currency r = c"
    by (auto simp: holds_currency_def list_ex_iff)
  ultimately show "holds_currency i c (interf e n d)"
    using assms unfolding rely_def rely_step_def holds_currency_def list_ex_iff by metis
qed

lemma money_pred_intros [intro, simp]:
  "money_pred (\<lambda>_. True)"
  "money_pred (pending g D)"
  "money_pred (seen w)"
  "money_pred (holds_currency i c)"
  by (simp_all add: money_pred_def pending_def seen_def holds_currency_def)

lemma money_pred_conj [intro]: "money_pred p \<Longrightarrow> money_pred q \<Longrightarrow> money_pred (\<lambda>d. p d \<and> q d)"
  unfolding money_pred_def by metis

section \<open>Rules\<close>

lemma inside_weaken: "inside g p w \<Longrightarrow> (\<And>d. db_inv d \<Longrightarrow> p d \<Longrightarrow> q d) \<Longrightarrow> inside g q w"
  by (auto simp: inside_def)

lemma inside_failed: "inside g p w \<Longrightarrow> failed g w"
  by (auto simp: inside_def)

lemma committed_ok_interf:
  "rely e \<Longrightarrow> committed_ok g w \<Longrightarrow> committed w' = interf e n (committed w) \<Longrightarrow> committed_ok g w'"
  by (simp add: committed_ok_def rely_def rely_step_def)

lemma interfere_inside:
  assumes "rely e" "stable e p" "inside g p w"
  shows "inside g p (interfere e w)"
proof -
  obtain d where d: "\<not> snapshot w" "committed_ok g w" "session w = Some d" "db_inv d" "p d"
    using assms(3) by (auto simp: inside_def)
  have "db_inv (interf e (ticks w) d)" "p (interf e (ticks w) d)"
    using assms d by (simp_all add: rely_def rely_step_def stable_def)
  moreover have "committed_ok g (interfere e w)"
    by (rule committed_ok_interf [OF assms(1) d(2)]) (simp add: interfere_def)
  ultimately show ?thesis using d by (simp add: inside_def interfere_def)
qed

lemma interfere_outside:
  assumes "rely e" "outside g w"
  shows "outside g (interfere e w)"
  using assms committed_ok_interf [of e g w "interfere e w" "ticks w"] by (simp add: outside_def interfere_def)

text \<open>One statement: its effect on the database, and nothing else, has to be looked at.\<close>

lemma triple_stmt:
  assumes rely: "rely e" and st: "stable e p"
    and ok: "\<And>now d a d'. db_inv d \<Longrightarrow> p d \<Longrightarrow> s now d = Inr (a, d') \<Longrightarrow> db_inv d' \<and> q a d'"
  shows "triple e (inside g p) (stmt s) (\<lambda>a. inside g (q a)) (\<lambda>_. failed g)"
  unfolding triple_def
proof (intro allI impI)
  fix w assume w: "inside g p w"
  from interfere_inside [OF rely st w] have w1: "inside g p (interfere e w)" .
  let ?run = "s (sql_now e w) (view (interfere e w))"
  have eff: "inside g (q a) (put_view d (interfere e w))" if "?run = Inr (a, d)" for a d
  proof -
    obtain d1 where d1: "session (interfere e w) = Some d1" "db_inv d1" "p d1" using w1 by (auto simp: inside_def)
    then have "s (sql_now e w) d1 = Inr (a, d)" using that by (simp add: view_def)
    from ok [OF d1(2,3) this] show ?thesis using w1 d1 by (simp add: inside_def put_view_def committed_ok_def)
  qed
  then show "case stmt s e w of (Inr a, w') \<Rightarrow> inside g (q a) w' | (Inl x, w') \<Rightarrow> failed g w'"
    using inside_failed [OF w1] inside_failed [OF eff]
    by (auto simp: stmt_def Let_def split: fault.splits sum.splits)
qed

text \<open>A query changes nothing and fails only for reasons outside the program.\<close>

lemma triple_query_errors:
  assumes "rely e" "stable e p" "\<And>now d. db_inv d \<Longrightarrow> p d \<Longrightarrow> r (q now d) d"
  shows "triple e (inside g p) (query q) (\<lambda>a. inside g (r a)) (\<lambda>x w. (\<exists>y. x = InfraErr y) \<and> failed g w)"
  unfolding triple_def
proof (intro allI impI)
  fix w assume w: "inside g p w"
  have "triple e (inside g p) (query q) (\<lambda>a. inside g (r a)) (\<lambda>_. failed g)"
    unfolding query_def using assms by (intro triple_stmt) auto
  then have "case query q e w of (Inr a, w') \<Rightarrow> inside g (r a) w' | (Inl x, w') \<Rightarrow> failed g w'"
    using w by (simp add: triple_def)
  moreover have "\<exists>y. x = InfraErr y" if "fst (query q e w) = Inl x" for x
    using that by (auto simp: query_def stmt_def Let_def split: fault.splits)
  ultimately show "case query q e w of (Inr a, w') \<Rightarrow> inside g (r a) w' | (Inl x, w') \<Rightarrow> (\<exists>y. x = InfraErr y) \<and> failed g w'"
    by (cases "query q e w"; cases "fst (query q e w)") auto
qed

lemma triple_query:
  assumes "rely e" "stable e p" "\<And>now d. db_inv d \<Longrightarrow> p d \<Longrightarrow> r (q now d) d"
  shows "triple e (inside g p) (query q) (\<lambda>a. inside g (r a)) (\<lambda>_. failed g)"
proof (rule triple_weaken)
  show "triple e (inside g p) (query q) (\<lambda>a. inside g (r a)) (\<lambda>x w. (\<exists>y. x = InfraErr y) \<and> failed g w)"
    using assms by (rule triple_query_errors)
qed auto

lemma triple_timeNow [triple_rules]: "triple e (inside g p) timeNow (\<lambda>_. inside g p) R"
  and triple_NewID [triple_rules]: "triple e (inside g p) NewID (\<lambda>_. inside g p) R"
  by (simp_all add: triple_def timeNow_def NewID_def inside_def committed_ok_def)

lemma triple_timeNow_out: "triple e (outside g) timeNow (\<lambda>_. outside g) R"
  and triple_NewID_out: "triple e (outside g) NewID (\<lambda>_. outside g) R"
  and triple_count_out: "triple e (outside g) (count f) (\<lambda>_. outside g) R"
  by (simp_all add: triple_def timeNow_def NewID_def count_def outside_def committed_ok_def)

text \<open>
  The unit of work: code that, on success, leaves the view settled keeps the promises of what is
  committed, whatever fails and whatever the other sessions do.
\<close>

lemma triple_WithinTx:
  assumes rely: "rely e"
    and fn: "triple e (inside g (settled g)) fn (\<lambda>a. inside g (settled g)) (\<lambda>_. failed g)"
  shows "triple e (outside g) (WithinTx fn) (\<lambda>_. outside g) (\<lambda>_. outside g)"
  unfolding triple_def
proof (intro allI impI)
  fix w assume w: "outside g w"
  let ?w1 = "interfere e w"
  have w1: "outside g ?w1" by (rule interfere_outside [OF rely w])
  show "case WithinTx fn e w of (Inr a, w') \<Rightarrow> outside g w' | (Inl x, w') \<Rightarrow> outside g w'"
  proof (cases "fault_at e (ticks w)")
    case NoFault
    let ?w2 = "?w1\<lparr>session := Some (committed ?w1), snapshot := False, tx_start := db_clock e (ticks w)\<rparr>"
    have "inside g (settled g) ?w2"
      using w1 by (simp add: outside_def inside_def committed_ok_def pending_def)
    then have out: "case fn e ?w2 of (Inr a, w3) \<Rightarrow> inside g (settled g) w3 | (Inl x, w3) \<Rightarrow> failed g w3"
      using fn by (simp add: triple_def)
    obtain r w3 where f: "fn e ?w2 = (r, w3)" by fastforce
    show ?thesis
    proof (cases r)
      case (Inl x)
      then show ?thesis using out f NoFault
        by (simp add: WithinTx_def in_tx_def bindM_apply begin_tx_def Let_def end_tx_def outside_def inside_def committed_ok_def)
    next
      case (Inr a)
      have w3: "inside g (settled g) (interfere e w3)"
        using out f Inr by (simp add: interfere_inside rely stable_pending)
      then have "outside g (publish (interfere e w3))" "outside g (end_tx (interfere e w3))"
        by (auto simp: publish_def end_tx_def outside_def inside_def committed_ok_def pending_def)
      then show ?thesis using f Inr NoFault
        by (simp add: WithinTx_def in_tx_def bindM_apply begin_tx_def Let_def commit_tx_def split: fault.split)
    qed
  qed (use w1 in \<open>simp_all add: WithinTx_def in_tx_def bindM_apply begin_tx_def Let_def\<close>)
qed

section \<open>The contracts of the repositories\<close>

text \<open>
  An operation that moves no money: it keeps every assertion about wallets and gaps. The clients
  chain such operations without looking at what they do.
\<close>

locale neutral_op =
  fixes m :: "'a io"
  assumes neutral: "rely e \<Longrightarrow> stable e p \<Longrightarrow> money_pred p \<Longrightarrow>
    triple e (inside g p) m (\<lambda>_. inside g p) (\<lambda>_. failed g)"
begin

lemma neutral_then:
  assumes "rely e" "stable e p" "money_pred p" "\<And>a. triple e (inside g p) (k a) Q (\<lambda>_. failed g)"
  shows "triple e (inside g p) (bindM m k) Q (\<lambda>_. failed g)"
  using neutral [OF assms(1-3)] assms(4) by (rule triple_bind)

end

text \<open>
  A lookup: moreover its \<open>ErrNotFound\<close> is an answer, not a failure of the transaction, so a client
  may go on after it.
\<close>

locale finder =
  fixes m :: "'a io"
  assumes finds: "rely e \<Longrightarrow> stable e p \<Longrightarrow> money_pred p \<Longrightarrow>
    triple e (inside g p) m (\<lambda>_. inside g p)
      (\<lambda>x. if x = PortsErr Ports_ErrNotFound then inside g p else failed g)"
begin

sublocale neutral_op m
proof
  fix e p g
  assume "rely e" "stable e p" "money_pred p"
  from finds [OF this] show "triple e (inside g p) m (\<lambda>_. inside g p) (\<lambda>_. failed g)"
    by (rule triple_weaken) (auto intro: inside_failed split: if_splits)
qed

lemma try_then:
  assumes "rely e" "stable e p" "money_pred p"
    and "\<And>a. triple e (inside g p) (k (Inr a)) Q (\<lambda>_. failed g)"
    and "triple e (inside g p) (k (Inl (PortsErr Ports_ErrNotFound))) Q (\<lambda>_. failed g)"
    and "\<And>x. x \<noteq> PortsErr Ports_ErrNotFound \<Longrightarrow> triple e (failed g) (k (Inl x)) Q (\<lambda>_. failed g)"
  shows "triple e (inside g p) (bindM (attempting m) k) Q (\<lambda>_. failed g)"
proof (rule triple_bind)
  show "triple e (inside g p) (attempting m)
      (\<lambda>r. case r of Inr _ \<Rightarrow> inside g p | Inl x \<Rightarrow> if x = PortsErr Ports_ErrNotFound then inside g p else failed g)
      (\<lambda>_. failed g)"
    using finds [OF assms(1-3)] by (intro triple_attempting) simp
  show "triple e (case r of Inr _ \<Rightarrow> inside g p | Inl x \<Rightarrow> if x = PortsErr Ports_ErrNotFound then inside g p else failed g)
      (k r) Q (\<lambda>_. failed g)" for r
    using assms(4-6) by (cases r) auto
qed

end

lemma finder_query:
  fixes q :: "Time \<Rightarrow> db \<Rightarrow> 'r" and scan :: "'r \<Rightarrow> 'a result"
  shows "finder (bindM (query q) (\<lambda>row. lift (scan row)))"
proof
  fix e p g
  assume p: "rely e" "stable e p"
  let ?R = "\<lambda>x. if x = PortsErr Ports_ErrNotFound then inside g p else failed g"
  show "triple e (inside g p) (bindM (query q) (\<lambda>row. lift (scan row))) (\<lambda>_. inside g p) ?R"
  proof (rule triple_bind)
    have "triple e (inside g p) (query q) (\<lambda>_. inside g p) (\<lambda>x w. (\<exists>y. x = InfraErr y) \<and> failed g w)"
      using p by (intro triple_query_errors)
    then show "triple e (inside g p) (query q) (\<lambda>_. inside g p) ?R" by (rule triple_weaken) auto
    show "triple e (inside g p) (lift (scan row)) (\<lambda>_. inside g p) ?R" for row
      by (rule triple_lift) (auto intro: inside_failed)
  qed
qed

lemma neutral_stmt:
  assumes "\<And>now d a d'. db_inv d \<Longrightarrow> s now d = Inr (a, d') \<Longrightarrow>
    db_inv d' \<and> wallets d' = wallets d \<and> (\<forall>i. gap d' i = gap d i)"
  shows "neutral_op (stmt s)"
proof
  fix e p g
  assume p: "rely e" "stable e p" "money_pred p"
  show "triple e (inside g p) (stmt s) (\<lambda>_. inside g p) (\<lambda>_. failed g)"
  proof (rule triple_stmt [OF p(1,2)])
    fix now d a d'
    assume "db_inv d" "p d" "s now d = Inr (a, d')"
    with assms [of d now a d'] p(3) show "db_inv d' \<and> p d'" unfolding money_pred_def by blast
  qed
qed

lemma neutral_unique: "neutral_op m \<Longrightarrow> neutral_op (unique_as_exists m)"
  unfolding neutral_op_def by (blast intro: triple_unique_as_exists)

lemma neutral_guarded:
  assumes "neutral_op m" "\<And>a. (\<exists>x. k a = throw x) \<or> (\<exists>y. k a = ret y)"
  shows "neutral_op (bindM m k)"
proof
  fix e p g
  assume p: "rely e" "stable e p" "money_pred p"
  show "triple e (inside g p) (bindM m k) (\<lambda>_. inside g p) (\<lambda>_. failed g)"
  proof (rule triple_bind [OF neutral_op.neutral [OF assms(1) p]])
    show "triple e (inside g p) (k a) (\<lambda>_. inside g p) (\<lambda>_. failed g)" for a
      using assms(2) [of a] by (auto intro!: triple_rules inside_failed)
  qed
qed

text \<open>Operations that move no money are closed under everything a use case composes them with.\<close>

named_theorems neutral_intros

lemma neutral_ret [neutral_intros]: "neutral_op (ret x)"
  and neutral_NewID [neutral_intros]: "neutral_op NewID"
  and neutral_timeNow [neutral_intros]: "neutral_op timeNow"
  by (simp_all add: neutral_op_def triple_ret triple_NewID triple_timeNow)

lemma neutral_throw [neutral_intros]: "neutral_op (throw x)"
  by (auto simp: neutral_op_def intro: triple_throw inside_failed)

lemma neutral_lift [neutral_intros]: "neutral_op (lift r)"
  by (auto simp: neutral_op_def intro: triple_lift inside_failed)

lemma neutral_bind [neutral_intros]:
  assumes "neutral_op m" "\<And>a. neutral_op (k a)"
  shows "neutral_op (bindM m k)"
proof
  fix e p g
  assume p: "rely e" "stable e p" "money_pred p"
  show "triple e (inside g p) (bindM m k) (\<lambda>_. inside g p) (\<lambda>_. failed g)"
    using neutral_op.neutral [OF assms(1) p] neutral_op.neutral [OF assms(2) p] by (rule triple_bind)
qed

lemma neutral_if [neutral_intros]: "(b \<Longrightarrow> neutral_op m) \<Longrightarrow> (\<not> b \<Longrightarrow> neutral_op n) \<Longrightarrow> neutral_op (if b then m else n)"
  by simp

lemma neutral_option [neutral_intros]:
  "neutral_op m \<Longrightarrow> (\<And>x. neutral_op (k x)) \<Longrightarrow> neutral_op (case opt of None \<Rightarrow> m | Some x \<Rightarrow> k x)"
  by (cases opt) simp_all

section \<open>The contract of a use case\<close>

text \<open>
  Called outside a transaction, on a database that satisfies its invariant, a use case returns or
  fails outside a transaction, with the invariant and every wallet's gap as before.
\<close>

locale book_keeper =
  fixes m :: "'a io"
  assumes books: "rely e \<Longrightarrow> triple e (outside g) m (\<lambda>_. outside g) (\<lambda>_. outside g)"
begin

lemma keeps_outside:
  assumes "rely e" "outside g w"
  shows "outside g (snd (m e w))"
  using books [OF assms(1), of g] assms(2) unfolding triple_def by (cases "m e w"; cases "fst (m e w)") force+

end

text \<open>Background loops are built from such code, and from statements outside any transaction.\<close>

named_theorems keeper_intros

lemma keeper_ret [keeper_intros]: "book_keeper (ret x)"
  and keeper_throw [keeper_intros]: "book_keeper (throw y)"
  and keeper_lift [keeper_intros]: "book_keeper (lift r)"
  by (simp_all add: book_keeper_def triple_ret triple_throw triple_lift)

lemma keeper_timeNow [keeper_intros]: "book_keeper timeNow"
  and keeper_NewID [keeper_intros]: "book_keeper NewID"
  and keeper_count [keeper_intros]: "book_keeper (count f)"
  and keeper_ctxDone [keeper_intros]: "book_keeper ctxDone"
  and keeper_queue_call [keeper_intros]: "book_keeper (queue_call h)"
  by (auto simp: book_keeper_def triple_def timeNow_def NewID_def count_def ctxDone_def queue_call_def
      outside_def committed_ok_def split: fault.split)

lemma keeper_bind [keeper_intros]:
  assumes "book_keeper m" "\<And>a. book_keeper (k a)"
  shows "book_keeper (bindM m k)"
  unfolding book_keeper_def
  using book_keeper.books [OF assms(1)] book_keeper.books [OF assms(2)] by (blast intro: triple_bind)

lemma keeper_attempting [keeper_intros]:
  assumes "book_keeper m" shows "book_keeper (attempting m)"
  unfolding book_keeper_def using book_keeper.books [OF assms] by (blast intro: triple_attempting)

lemma keeper_if [keeper_intros]:
  "(b \<Longrightarrow> book_keeper m) \<Longrightarrow> (\<not> b \<Longrightarrow> book_keeper n) \<Longrightarrow> book_keeper (if b then m else n)"
  by simp

lemma keeper_sum [keeper_intros]:
  "(\<And>x. r = Inl x \<Longrightarrow> book_keeper (m x)) \<Longrightarrow> (\<And>y. r = Inr y \<Longrightarrow> book_keeper (n y)) \<Longrightarrow>
    book_keeper (case r of Inl x \<Rightarrow> m x | Inr y \<Rightarrow> n y)"
  by (cases r) simp_all

lemma keeper_option [keeper_intros]:
  "(x = None \<Longrightarrow> book_keeper m) \<Longrightarrow> (\<And>y. x = Some y \<Longrightarrow> book_keeper (n y)) \<Longrightarrow>
    book_keeper (case x of None \<Rightarrow> m | Some y \<Rightarrow> n y)"
  by (cases x) simp_all

lemma keeper_prod [keeper_intros]: "(\<And>x y. book_keeper (h x y)) \<Longrightarrow> book_keeper (case pr of (x, y) \<Rightarrow> h x y)"
  by (cases pr) simp

lemma keeper_stmt:
  assumes "\<And>now d a d'. db_inv d \<Longrightarrow> s now d = Inr (a, d') \<Longrightarrow>
    db_inv d' \<and> wallets d' = wallets d \<and> (\<forall>i. gap d' i = gap d i)"
  shows "book_keeper (stmt s)"
proof
  fix e g assume rely: "rely e"
  show "triple e (outside g) (stmt s) (\<lambda>_. outside g) (\<lambda>_. outside g)"
    unfolding triple_def
  proof (intro allI impI)
    fix w assume w: "outside g w"
    have w1: "outside g (interfere e w)" by (rule interfere_outside [OF rely w])
    have "outside g (put_view d (interfere e w))" if "s (sql_now e w) (view (interfere e w)) = Inr (a, d)" for a d
      using assms [OF _ that] w1 by (simp add: outside_def view_def put_view_def committed_ok_def)
    then show "case stmt s e w of (Inr a, w') \<Rightarrow> outside g w' | (Inl x, w') \<Rightarrow> outside g w'"
      using w1 by (auto simp: stmt_def Let_def split: fault.split sum.split)
  qed
qed

lemma keeper_query [keeper_intros]: "book_keeper (query q)"
  unfolding query_def by (rule keeper_stmt) auto

end
