(* ===== verification/Wallet_Repository.thy ===== *)
theory Wallet_Repository
  imports Rely
begin

text \<open>\<open>internal/infra/postgres/wallet_repository.go\<close>.\<close>

definition wallet_to_row :: "Wallet \<Rightarrow> wallet_row" where
  "wallet_to_row w = \<lparr>wr_id = w_id w, wr_player = w_playerID w, wr_currency = w_currency w,
     wr_balance = minorUnits (w_balance w), wr_version = w_version w,
     wr_created = pg_ts (w_createdAt w), wr_updated = pg_ts (w_updatedAt w)\<rparr>"

text \<open>\<open>scanWallet\<close> on the row the query found, \<open>None\<close> for \<open>pgx.ErrNoRows\<close>.\<close>

definition scanWallet :: "wallet_row option \<Rightarrow> Wallet result" where
  "scanWallet row = (case row of
     None \<Rightarrow> Inl (PortsErr Ports_ErrNotFound)
   | Some r \<Rightarrow> bindE (FromMinorUnits (wr_balance r) (wr_currency r)) (\<lambda>balance.
       RehydrateWallet (wr_id r) (wr_player r) balance (wr_version r) (wr_created r) (wr_updated r)))"

definition WalletFindByID :: "string \<Rightarrow> Wallet io" where
  "WalletFindByID i = bindM (query (\<lambda>_ d. wallet_of d i)) (\<lambda>row. lift (scanWallet row))"

definition WalletFindByPlayerAndCurrency :: "string \<Rightarrow> string \<Rightarrow> Wallet io" where
  "WalletFindByPlayerAndCurrency playerID cur =
     bindM (query (\<lambda>_ d. find (\<lambda>r. wr_player r = playerID \<and> wr_currency r = cur) (wallets d)))
       (\<lambda>row. lift (scanWallet row))"

definition WalletCreate :: "Wallet \<Rightarrow> unit io" where
  "WalletCreate w = unique_as_exists (stmt (\<lambda>_. insert_wallet (wallet_to_row w)))"

definition WalletSave :: "Wallet \<Rightarrow> int64 \<Rightarrow> unit io" where
  "WalletSave w previousVersion =
     bindM (stmt (\<lambda>_. update_wallet (\<lambda>r. wr_id r = w_id w \<and> wr_version r = previousVersion)
       (\<lambda>r. r\<lparr>wr_balance := minorUnits (w_balance w), wr_version := w_version w, wr_updated := pg_ts (w_updatedAt w)\<rparr>)))
     (\<lambda>rowsAffected. if rowsAffected = 0 then throw (PortsErr Ports_ErrOptimisticLock) else ret ())"

section \<open>Reading back what was stored\<close>

lemma scanWallet_Inr_iff:
  "scanWallet row = Inr w \<longleftrightarrow> (\<exists>r. row = Some r \<and> wallet_inv w \<and>
     w = \<lparr>w_id = wr_id r, w_playerID = wr_player r,
       w_balance = \<lparr>minorUnits = wr_balance r, currency = toUpper (wr_currency r)\<rparr>,
       w_version = wr_version r, w_createdAt = wr_created r, w_updatedAt = wr_updated r\<rparr> \<and>
     toUpper (wr_currency r) \<in> set iso4217Currencies)"
  by (cases row) (auto simp: scanWallet_def bindE_Inr_iff FromMinorUnits_def normalizeCurrency_Inr_iff
      RehydrateWallet_Inr_iff)

text \<open>A wallet with a well-formed balance comes back as it was, its instants in microseconds.\<close>

lemma scanWallet_stored:
  assumes "wallet_inv w" "money_ok (w_balance w)"
  shows "scanWallet (Some (wallet_to_row w)) =
    Inr (w\<lparr>w_createdAt := pg_ts (w_createdAt w), w_updatedAt := pg_ts (w_updatedAt w)\<rparr>)"
proof -
  have "isAllLetters (currency (w_balance w))"
    using assms(2) iso_currency_format by (simp add: money_ok_def currency_format_def)
  then have "toUpper (currency (w_balance w)) = currency (w_balance w)" by (rule toUpper_letters)
  then show ?thesis using assms unfolding scanWallet_Inr_iff
    by (simp add: wallet_to_row_def w_currency_def wallet_inv_def money_ok_def)
qed

lemma scanWallet_seen:
  assumes "db_inv d" "wallet_of d i = Some r" "scanWallet (Some r) = Inr w"
  shows "seen w d \<and> w_id w = i \<and> wallet_inv w \<and> money_ok (w_balance w)"
proof -
  have r: "r \<in> set (wallets d)" "wr_id r = i"
    using assms(1,2) by (auto simp: wallet_of_Some db_inv_def)
  then have "isAllLetters (wr_currency r)"
    using db_inv_tables(1) [OF assms(1)]
    by (auto simp: table_ok_def list_all_iff wallet_check_def currency_format_def)
  then have up: "toUpper (wr_currency r) = wr_currency r" by (rule toUpper_letters)
  then show ?thesis using assms(3) r unfolding scanWallet_Inr_iff
    by (auto simp: seen_def w_currency_def money_ok_def intro!: bexI [of _ r])
qed

lemma db_inv_wallet_row:
  assumes "db_inv d" "wallet_of d i = Some r" "scanWallet (Some r) = Inr wl"
  shows "amt (w_balance wl) = stored_balance d i" "currency (w_balance wl) = wr_currency r"
    "wr_currency r \<in> set iso4217Currencies"
proof -
  have r: "r \<in> set (wallets d)" "wr_id r = i"
    using assms(1,2) by (auto simp: wallet_of_Some db_inv_def)
  then have "isAllLetters (wr_currency r)"
    using db_inv_tables(1) [OF assms(1)]
    by (auto simp: table_ok_def list_all_iff wallet_check_def currency_format_def)
  then have "toUpper (wr_currency r) = wr_currency r" by (rule toUpper_letters)
  moreover have "stored_balance d i = sint (wr_balance r)"
    using stored_balance_row [of d r] assms(1) r by (simp add: db_inv_def)
  ultimately show "amt (w_balance wl) = stored_balance d i" "currency (w_balance wl) = wr_currency r"
      "wr_currency r \<in> set iso4217Currencies"
    using assms(3) unfolding scanWallet_Inr_iff by auto
qed

lemma triple_WalletFindByID:
  assumes "rely e" "stable e p"
  shows "triple e (inside g p) (WalletFindByID i)
    (\<lambda>w. inside g (\<lambda>d. p d \<and> seen w d \<and> w_id w = i \<and> wallet_inv w \<and> money_ok (w_balance w))) (\<lambda>_. failed g)"
  unfolding WalletFindByID_def
proof (rule triple_bind)
  show "triple e (inside g p) (query (\<lambda>_ d. wallet_of d i)) (\<lambda>r. inside g (\<lambda>d. p d \<and> wallet_of d i = r)) (\<lambda>_. failed g)"
    using assms by (rule triple_query) simp
  show "triple e (inside g (\<lambda>d. p d \<and> wallet_of d i = r)) (lift (scanWallet r))
      (\<lambda>w. inside g (\<lambda>d. p d \<and> seen w d \<and> w_id w = i \<and> wallet_inv w \<and> money_ok (w_balance w))) (\<lambda>_. failed g)" for r
  proof (rule triple_lift)
    fix w a
    assume w: "inside g (\<lambda>d. p d \<and> wallet_of d i = r) w" and a: "scanWallet r = Inr a"
    then obtain row where "r = Some row" by (auto simp: scanWallet_Inr_iff)
    with w a show "inside g (\<lambda>d. p d \<and> seen a d \<and> w_id a = i \<and> wallet_inv a \<and> money_ok (w_balance a)) w"
      using scanWallet_seen by (auto simp: inside_def)
  qed (rule inside_failed)
qed

section \<open>Saving a moved balance\<close>

text \<open>What the optimistic save leaves to be booked: exactly what the balance moved since it was read.\<close>

definition moved_by :: "string \<Rightarrow> int \<Rightarrow> string \<Rightarrow> int" where
  "moved_by i n = (\<lambda>j. if j = i then n else 0)"

lemma triple_WalletSave:
  assumes rely: "rely e" and same: "w_id w' = w_id w"
  shows "triple e (inside g (\<lambda>d. settled g d \<and> seen w d)) (WalletSave w' (w_version w))
    (\<lambda>_. inside g (\<lambda>d. pending g (moved_by (w_id w) (amt (w_balance w') - amt (w_balance w))) d \<and>
      holds_currency (w_id w) (w_currency w) d)) (\<lambda>_. failed g)"
    (is "triple e ?P _ (\<lambda>_. inside g ?q) _")
  unfolding WalletSave_def
proof (rule triple_bind)
  let ?sel = "\<lambda>r. wr_id r = w_id w' \<and> wr_version r = w_version w"
  let ?f = "\<lambda>r. r\<lparr>wr_balance := minorUnits (w_balance w'), wr_version := w_version w', wr_updated := pg_ts (w_updatedAt w')\<rparr>"
  show "triple e ?P (stmt (\<lambda>_. update_wallet ?sel ?f)) (\<lambda>n. inside g (\<lambda>d. n \<noteq> 0 \<longrightarrow> ?q d)) (\<lambda>_. failed g)"
  proof (rule triple_stmt)
    show "stable e (\<lambda>d. settled g d \<and> seen w d)" using rely by blast
    fix now d n d'
    assume d: "db_inv d" "settled g d \<and> seen w d" and up: "update_wallet ?sel ?f d = Inr (n, d')"
    note inv = update_wallet_inv [OF d(1) up, of "w_id w"]
    have "db_inv d'" by (rule inv(1)) (use same in auto)
    moreover have "?q d'" if n: "n \<noteq> 0"
    proof -
      have g: "\<exists>r\<in>set (wallets d). ?sel r \<and> ?f r \<in> set (wallets d') \<and>
          gap d' j = gap d j + (if j = w_id w then sint (wr_balance (?f r)) - sint (wr_balance r) else 0)" for j
        by (rule inv(3)) (use same n in auto)
      have bal: "wr_balance r = minorUnits (w_balance w) \<and> wr_currency r = w_currency w"
        if "r \<in> set (wallets d)" "?sel r" for r
      proof -
        obtain r0 where r0: "r0 \<in> set (wallets d)" "wr_id r0 = w_id w" "wr_currency r0 = w_currency w"
          "wr_version r0 = w_version w \<longrightarrow> wr_balance r0 = minorUnits (w_balance w)"
          using d(2) by (auto simp: seen_def)
        have "r0 = r" using wt.key_unique [OF db_inv_tables(1) [OF d(1)] r0(1) that(1)] r0 that same by simp
        then show ?thesis using r0 that by simp
      qed
      have "gap d' j = g j + moved_by (w_id w) (amt (w_balance w') - amt (w_balance w)) j" for j
        using g [of j] bal d(2) by (auto simp: pending_def moved_by_def)
      moreover have "holds_currency (w_id w) (w_currency w) d'"
      proof -
        obtain r where r: "r \<in> set (wallets d)" "?sel r" "?f r \<in> set (wallets d')" using g [of "w_id w"] by blast
        show ?thesis unfolding holds_currency_def list_ex_iff
          using bal [OF r(1,2)] r same by (intro bexI [OF _ r(3)]) simp
      qed
      ultimately show ?thesis by (simp add: pending_def)
    qed
    ultimately show "db_inv d' \<and> (n \<noteq> 0 \<longrightarrow> ?q d')" by simp
  qed (rule rely)
  show "triple e (inside g (\<lambda>d. n \<noteq> 0 \<longrightarrow> ?q d))
      (if n = 0 then throw (PortsErr Ports_ErrOptimisticLock) else ret ()) (\<lambda>_. inside g ?q) (\<lambda>_. failed g)" for n
    by (intro triple_rules) (auto intro: inside_failed)
qed

text \<open>Creating a wallet leaves its initial balance to be booked.\<close>

lemma triple_WalletCreate:
  assumes rely: "rely e"
  shows "triple e (inside g (settled g)) (WalletCreate w)
    (\<lambda>_. inside g (\<lambda>d. pending g (moved_by (w_id w) (amt (w_balance w))) d \<and>
      holds_currency (w_id w) (w_currency w) d)) (\<lambda>_. failed g)"
  unfolding WalletCreate_def
proof (rule triple_unique_as_exists, rule triple_stmt)
  fix now d a d'
  assume d: "db_inv d" "settled g d" and i: "insert_wallet (wallet_to_row w) d = Inr (a, d')"
  have "wallets d' = wallets d @ [wallet_to_row w]"
    using i by (auto simp: insert_wallet_def bindE_Inr_iff insert_row_Inr_iff)
  then show "db_inv d' \<and> pending g (moved_by (w_id w) (amt (w_balance w))) d' \<and> holds_currency (w_id w) (w_currency w) d'"
    using insert_wallet_inv [OF d(1) i] d(2)
    by (simp add: pending_def moved_by_def wallet_to_row_def holds_currency_def)
qed (use rely in auto)

end
