(* ===== verification/Tx_Repository.thy ===== *)
theory Tx_Repository
  imports Wallet_Repository "HOL-Library.Product_Lexorder"
begin

text \<open>
  \<open>internal/infra/postgres/wagertx_repository.go\<close>. \<open>SELECT .. FOR UPDATE\<close> reads the same row
  as the plain query; the lock it takes is a promise of the other sessions.
\<close>

text \<open>The columns an \<open>INSERT\<close> writes, and those an \<open>UPDATE\<close> overwrites.\<close>

definition tx_to_row :: "WagerTransaction \<Rightarrow> tx_row" where
  "tx_to_row t = \<lparr>xr_id = t_id t, xr_kind = t_kind t, xr_status = t_status t, xr_wallet = t_walletID t,
     xr_player = t_playerID t, xr_amount = minorUnits (t_money t), xr_currency = currency (t_money t),
     xr_provider = nullableString (t_providerID t), xr_external = nullableString (t_externalID t),
     xr_key = nullableString (t_idempotencyKey t), xr_hash = nullableString (t_payloadHash t),
     xr_round = nullableString (t_roundID t), xr_game = nullableString (t_gameID t),
     xr_ref_external = nullableString (t_referenceExternalID t),
     xr_resolved = nullableString (t_resolvedReferenceID t), xr_failure = nullableString (t_failureCode t),
     xr_fr_minor = map_option minorUnits (t_financialResult t),
     xr_fr_currency = map_option currency (t_financialResult t),
     xr_retries = t_referenceRetryAttempts t, xr_next_retry = map_option pg_ts (t_referenceNextRetryAt t),
     xr_created = pg_ts (t_createdAt t), xr_updated = pg_ts (t_updatedAt t)\<rparr>"

definition tx_update_row :: "WagerTransaction \<Rightarrow> tx_row \<Rightarrow> tx_row" where
  "tx_update_row t r = r\<lparr>xr_status := t_status t, xr_resolved := nullableString (t_resolvedReferenceID t),
     xr_failure := nullableString (t_failureCode t),
     xr_fr_minor := map_option minorUnits (t_financialResult t),
     xr_fr_currency := map_option currency (t_financialResult t),
     xr_retries := t_referenceRetryAttempts t, xr_next_retry := map_option pg_ts (t_referenceNextRetryAt t),
     xr_updated := pg_ts (t_updatedAt t)\<rparr>"

definition scanWagerTx :: "tx_row option \<Rightarrow> WagerTransaction result" where
  "scanWagerTx row = (case row of
     None \<Rightarrow> Inl (PortsErr Ports_ErrNotFound)
   | Some r \<Rightarrow> bindE (FromMinorUnits (xr_amount r) (xr_currency r)) (\<lambda>amount.
       bindE (case (xr_fr_minor r, xr_fr_currency r) of
           (Some n, Some c) \<Rightarrow> bindE (FromMinorUnits n c) (\<lambda>fr. Inr (Some fr))
         | _ \<Rightarrow> Inr None) (\<lambda>financialResult.
       RehydrateTx \<lparr>t_id = xr_id r, t_kind = xr_kind r, t_status = xr_status r, t_walletID = xr_wallet r,
         t_playerID = xr_player r, t_money = amount, t_providerID = deref (xr_provider r),
         t_externalID = deref (xr_external r), t_idempotencyKey = deref (xr_key r),
         t_payloadHash = deref (xr_hash r), t_roundID = deref (xr_round r), t_gameID = deref (xr_game r),
         t_referenceExternalID = deref (xr_ref_external r),
         t_resolvedReferenceID = deref (xr_resolved r), t_failureCode = deref (xr_failure r),
         t_financialResult = financialResult, t_referenceRetryAttempts = xr_retries r,
         t_referenceNextRetryAt = xr_next_retry r, t_createdAt = xr_created r, t_updatedAt = xr_updated r\<rparr>)))"

definition TxFindByID :: "string \<Rightarrow> WagerTransaction io" where
  "TxFindByID i = bindM (query (\<lambda>_ d. find (\<lambda>r. xr_id r = i) (txs d))) (\<lambda>row. lift (scanWagerTx row))"

definition TxFindByIDForUpdate :: "string \<Rightarrow> WagerTransaction io" where
  "TxFindByIDForUpdate i = bindM (query (\<lambda>_ d. find (\<lambda>r. xr_id r = i) (txs d))) (\<lambda>row. lift (scanWagerTx row))"

definition TxFindByProviderAndExternalID :: "string \<Rightarrow> string \<Rightarrow> WagerTransaction io" where
  "TxFindByProviderAndExternalID providerID externalID =
     bindM (query (\<lambda>_ d. find (\<lambda>r. xr_provider r = Some providerID \<and> xr_external r = Some externalID) (txs d)))
       (\<lambda>row. lift (scanWagerTx row))"

definition TxFindByIdempotencyKey :: "string \<Rightarrow> WagerTransaction io" where
  "TxFindByIdempotencyKey idempotencyKey =
     bindM (query (\<lambda>_ d. find (\<lambda>r. xr_key r = Some idempotencyKey) (txs d))) (\<lambda>row. lift (scanWagerTx row))"

definition TxFindProcessedReversalByReference :: "string \<Rightarrow> WagerTransaction io" where
  "TxFindProcessedReversalByReference referenceID =
     bindM (query (\<lambda>_ d. find (\<lambda>r. xr_resolved r = Some referenceID \<and> processed_reversal r) (txs d)))
       (\<lambda>row. lift (scanWagerTx row))"

text \<open>\<open>ORDER BY created_at, id LIMIT n\<close>.\<close>

definition oldest_first :: "nat \<Rightarrow> tx_row list \<Rightarrow> string list" where
  "oldest_first limit rs = take limit (map xr_id (sort_key (\<lambda>r. (xr_created r, xr_id r)) rs))"

definition TxListPendingReferenceIDs :: "nat \<Rightarrow> string list io" where
  "TxListPendingReferenceIDs limit =
     query (\<lambda>now d. oldest_first limit (filter (\<lambda>r. xr_status r = StatusPendingReference \<and>
       (case xr_next_retry r of None \<Rightarrow> True | Some t \<Rightarrow> t \<le> now)) (txs d)))"

definition TxListStalePendingReferenceIDs :: "Time \<Rightarrow> nat \<Rightarrow> string list io" where
  "TxListStalePendingReferenceIDs olderThan limit =
     query (\<lambda>_ d. oldest_first limit (filter (\<lambda>r. xr_status r = StatusPendingReference \<and>
       xr_created r < pg_ts olderThan) (txs d)))"

definition TxCreate :: "WagerTransaction \<Rightarrow> unit io" where
  "TxCreate t = unique_as_exists (stmt (\<lambda>_. insert_tx (tx_to_row t)))"

definition TxUpdate :: "WagerTransaction \<Rightarrow> unit io" where
  "TxUpdate t =
     bindM (stmt (\<lambda>_. update_tx (\<lambda>r. xr_id r = t_id t) (tx_update_row t)))
       (\<lambda>rowsAffected. if rowsAffected = 0 then throw (PortsErr Ports_ErrNotFound) else ret ())"

section \<open>Contracts\<close>

interpretation txByID: finder "TxFindByID i" for i
  unfolding TxFindByID_def by (rule finder_query)

interpretation txByIDForUpdate: finder "TxFindByIDForUpdate i" for i
  unfolding TxFindByIDForUpdate_def by (rule finder_query)

interpretation txByExternal: finder "TxFindByProviderAndExternalID p x" for p x
  unfolding TxFindByProviderAndExternalID_def by (rule finder_query)

interpretation txByKey: finder "TxFindByIdempotencyKey k" for k
  unfolding TxFindByIdempotencyKey_def by (rule finder_query)

interpretation txReversal: finder "TxFindProcessedReversalByReference i" for i
  unfolding TxFindProcessedReversalByReference_def by (rule finder_query)

interpretation txCreate: neutral_op "TxCreate t" for t
  unfolding TxCreate_def by (intro neutral_unique neutral_stmt) (auto dest: insert_tx_inv)

lemma update_tx_row_inv:
  assumes "db_inv d" "update_tx (\<lambda>r. xr_id r = i) (tx_update_row t) d = Inr (n, d')"
  shows "db_inv d' \<and> wallets d' = wallets d \<and> (\<forall>j. gap d' j = gap d j)"
  using update_tx_inv [OF assms] by (simp add: tx_update_row_def)

interpretation txUpdate: neutral_op "TxUpdate t" for t
  unfolding TxUpdate_def by (intro neutral_guarded neutral_stmt update_tx_row_inv) auto

section \<open>Reading back what was stored\<close>

text \<open>What a row keeps of a transaction: everything, with instants in microseconds.\<close>

definition tx_stored :: "WagerTransaction \<Rightarrow> WagerTransaction" where
  "tx_stored t = t\<lparr>t_referenceNextRetryAt := map_option pg_ts (t_referenceNextRetryAt t),
     t_createdAt := pg_ts (t_createdAt t), t_updatedAt := pg_ts (t_updatedAt t)\<rparr>"

definition tx_money_ok :: "WagerTransaction \<Rightarrow> bool" where
  "tx_money_ok t \<longleftrightarrow> money_ok (t_money t) \<and> (case t_financialResult t of None \<Rightarrow> True | Some m \<Rightarrow> money_ok m)"

lemma scanWagerTx_stored:
  assumes "t_id t \<noteq> []" "tx_money_ok t"
  shows "scanWagerTx (Some (tx_to_row t)) = Inr (tx_stored t)"
  using assms
  by (cases t; cases "t_financialResult t")
    (auto simp: scanWagerTx_def tx_to_row_def tx_money_ok_def RehydrateTx_def tx_stored_def)

text \<open>An update with a transaction that differs only in its progress writes exactly what an insert would.\<close>

lemma tx_update_as_insert:
  assumes "tx_identity t' = tx_identity t"
  shows "tx_update_row t' (tx_to_row t) = tx_to_row t'"
  using assms by (simp add: tx_update_row_def tx_to_row_def tx_identity_def)

end
