(* ===== verification/Ledger_Repository.thy ===== *)
theory Ledger_Repository
  imports Tx_Repository
begin

text \<open>
  \<open>internal/infra/postgres/ledger_repository.go\<close>: \<open>Create\<close>, the two aggregates the
  reconciliation reads, and the contract by which a saved balance and its entry belong together.
  The paginated listing and its cursor are in \<open>Ledger_Listing\<close>.
\<close>

definition entry_to_row :: "Entry \<Rightarrow> ledger_row" where
  "entry_to_row en = \<lparr>lr_id = l_id en, lr_wallet = l_walletID en, lr_tx = l_transactionID en,
     lr_direction = l_direction en, lr_amount = minorUnits (l_amount en), lr_currency = currency (l_amount en),
     lr_before = minorUnits (l_balanceBefore en), lr_after = minorUnits (l_balanceAfter en),
     lr_created = pg_ts (l_createdAt en)\<rparr>"

definition LedgerCreate :: "Entry \<Rightarrow> unit io" where
  "LedgerCreate en = unique_as_exists (stmt (\<lambda>_. insert_entry (entry_to_row en)))"

definition wallet_entries :: "db \<Rightarrow> string \<Rightarrow> ledger_row list" where
  "wallet_entries d i = filter (\<lambda>r. lr_wallet r = i) (entries d)"

text \<open>
  \<open>COALESCE(SUM(CASE ..), 0)\<close> is a NUMERIC that is scanned into an \<open>int64\<close>, which fails when it
  does not fit; \<open>COALESCE(MAX(currency), '')\<close> is the greatest currency, empty without entries.
\<close>

definition sum_signed :: "ledger_row list \<Rightarrow> int" where
  "sum_signed rs = sum_list (map (\<lambda>r. if lr_direction r = DirectionCredit then sint (lr_amount r) else - sint (lr_amount r)) rs)"

definition max_currency :: "ledger_row list \<Rightarrow> string" where
  "max_currency rs = foldr max (map lr_currency rs) []"

definition LedgerSumByWallet :: "string \<Rightarrow> Money io" where
  "LedgerSumByWallet i =
     bindM (query (\<lambda>_ d. (sum_signed (wallet_entries d i), max_currency (wallet_entries d i))))
       (\<lambda>(sumMinorUnits, cur).
          if \<not> in_int64 sumMinorUnits then throw (PgErr PgOutOfRange)
          else if cur = [] then throw (PortsErr Ports_ErrNotFound)
          else lift (FromMinorUnits (word_of_int sumMinorUnits) cur))"

definition LedgerCountByWallet :: "string \<Rightarrow> nat io" where
  "LedgerCountByWallet i = query (\<lambda>_ d. length (wallet_entries d i))"

section \<open>Double entry\<close>

text \<open>
  The interface \<open>settle\<close> relies on: saving a wallet under the version it was read at leaves
  exactly its balance movement to be booked, and creating an entry of that wallet books exactly
  its signed amount. So a save followed by the entry \<open>NewEntry\<close> accepts for it leaves the books
  settled, whatever happens in between.
\<close>

locale double_entry =
  fixes save :: "Wallet \<Rightarrow> int64 \<Rightarrow> unit io" and book :: "Entry \<Rightarrow> unit io"
  assumes save_leaves: "rely e \<Longrightarrow> w_id w' = w_id w \<Longrightarrow>
      triple e (inside g (\<lambda>d. settled g d \<and> seen w d)) (save w' (w_version w))
        (\<lambda>_. inside g (\<lambda>d. pending g (moved_by (w_id w) (amt (w_balance w') - amt (w_balance w))) d \<and>
          holds_currency (w_id w) (w_currency w) d)) (\<lambda>_. failed g)"
    and book_settles: "rely e \<Longrightarrow>
      triple e (inside g (\<lambda>d. pending g (moved_by (l_walletID en) (entry_delta en)) d \<and>
          holds_currency (l_walletID en) (currency (l_amount en)) d)) (book en)
        (\<lambda>_. inside g (settled g)) (\<lambda>_. failed g)"
begin

lemma save_then_book:
  assumes rely: "rely e" and same: "w_id w' = w_id w"
    and rest: "\<And>en. triple e (inside g (settled g)) (k en) Q (\<lambda>_. failed g)"
  shows "triple e (inside g (\<lambda>d. settled g d \<and> seen w d))
    (bindM (save w' (w_version w)) (\<lambda>_. bindM NewID (\<lambda>i.
       bindM (lift (NewEntry i (w_id w') x dir a (w_balance w) (w_balance w') now)) (\<lambda>en.
       bindM (book en) (\<lambda>_. k en))))) Q (\<lambda>_. failed g)"
proof (rule triple_bind [OF save_leaves [OF rely same]], rule triple_bind [OF triple_NewID], rule triple_bind)
  fix i
  let ?p = "\<lambda>d. pending g (moved_by (w_id w) (amt (w_balance w') - amt (w_balance w))) d \<and>
      holds_currency (w_id w) (w_currency w) d"
  let ?q = "\<lambda>en d. pending g (moved_by (l_walletID en) (entry_delta en)) d \<and>
      holds_currency (l_walletID en) (currency (l_amount en)) d"
  show "triple e (inside g ?p) (lift (NewEntry i (w_id w') x dir a (w_balance w) (w_balance w') now))
      (\<lambda>en. inside g (?q en)) (\<lambda>_. failed g)"
  proof (rule triple_lift)
    fix wd en
    assume wd: "inside g ?p wd" and en: "NewEntry i (w_id w') x dir a (w_balance w) (w_balance w') now = Inr en"
    from en have "l_walletID en = w_id w" "entry_delta en = amt (w_balance w') - amt (w_balance w)"
      "currency (l_amount en) = w_currency w"
      using same unfolding NewEntry_Inr_iff by (auto simp: entry_ok_def w_currency_def)
    then show "inside g (?q en) wd" using wd by simp
  qed (rule inside_failed)
  show "triple e (inside g (?q en)) (bindM (book en) (\<lambda>_. k en)) Q (\<lambda>_. failed g)" for en
    by (rule triple_bind [OF book_settles [OF rely] rest])
qed

end

lemma triple_LedgerCreate:
  assumes rely: "rely e"
  shows "triple e (inside g (\<lambda>d. pending g (moved_by (l_walletID en) (entry_delta en)) d \<and>
      holds_currency (l_walletID en) (currency (l_amount en)) d)) (LedgerCreate en)
    (\<lambda>_. inside g (settled g)) (\<lambda>_. failed g)"
  unfolding LedgerCreate_def
proof (rule triple_unique_as_exists, rule triple_stmt [OF rely])
  show "stable e (\<lambda>d. pending g (moved_by (l_walletID en) (entry_delta en)) d \<and>
      holds_currency (l_walletID en) (currency (l_amount en)) d)" using rely by blast
  fix now d a d'
  assume d: "db_inv d" "pending g (moved_by (l_walletID en) (entry_delta en)) d \<and>
      holds_currency (l_walletID en) (currency (l_amount en)) d"
    and i: "insert_entry (entry_to_row en) d = Inr (a, d')"
  have "entry_currency_ok d (entry_to_row en)"
    using d(2) by (simp add: entry_currency_ok_def holds_currency_def entry_to_row_def)
  from insert_entry_inv [OF d(1) i this] show "db_inv d' \<and> settled g d'"
    using d(2) by (auto simp: pending_def moved_by_def entry_to_row_def row_delta_def entry_delta_def)
qed

interpretation posting: double_entry WalletSave LedgerCreate
  by unfold_locales (fact triple_WalletSave, fact triple_LedgerCreate)

section \<open>The aggregates\<close>

text \<open>On a database that satisfies its invariant the SQL sum is the signed sum of the ledger.\<close>

lemma sum_signed_eq:
  assumes "db_inv d"
  shows "sum_signed (wallet_entries d i) = ledger_sum d i"
proof -
  have "\<forall>r\<in>set (entries d). lr_direction r \<in> {DirectionDebit, DirectionCredit}"
    using db_inv_tables(3) [OF assms] by (auto simp: table_ok_def list_all_iff ledger_check_def)
  then show ?thesis
    unfolding sum_signed_def ledger_sum_def wallet_entries_def
    by (intro arg_cong [where f = sum_list] map_cong) (auto simp: row_delta_def)
qed

text \<open>Without entries there is no currency; with entries it is that of the wallet.\<close>

lemma max_currency_same:
  assumes "rs \<noteq> []" "\<forall>r\<in>set rs. lr_currency r = c"
  shows "max_currency rs = c"
  using assms
proof (induction rs)
  case (Cons r rs)
  have "max c [] = c" by (cases c) (simp_all add: max_def)
  then show ?case using Cons by (cases rs) (simp_all add: max_currency_def)
qed simp

lemma wallet_entries_currency:
  assumes d: "db_inv d" and r: "r \<in> set (wallets d)"
  shows "\<forall>x\<in>set (wallet_entries d (wr_id r)). lr_currency x = wr_currency r"
proof
  fix x assume "x \<in> set (wallet_entries d (wr_id r))"
  then have x: "x \<in> set (entries d)" "lr_wallet x = wr_id r" by (auto simp: wallet_entries_def)
  then obtain r' where r': "r' \<in> set (wallets d)" "wr_id r' = wr_id r" "wr_currency r' = lr_currency x"
    using d by (auto simp: db_inv_def list_all_iff entry_currency_ok_def list_ex_iff)
  then have "r' = r" using wt.key_unique [OF db_inv_tables(1) [OF d] r'(1) r] by simp
  then show "lr_currency x = wr_currency r" using r'(3) by simp
qed

end
