(* ===== verification/Event_Repositories.thy ===== *)
theory Event_Repositories
  imports Rely
begin

text \<open>
  \<open>internal/infra/postgres/outbox_repository.go\<close> (\<open>Create\<close>; the publisher's side is in
  \<open>Outbox_Repository\<close>) and \<open>inbox_repository.go\<close>.
\<close>

definition outbox_version :: "int64 \<Rightarrow> int64" where
  "outbox_version v = (if v = 0 then 1 else v)"

definition event_to_row :: "Time \<Rightarrow> Event \<Rightarrow> json \<Rightarrow> outbox_row" where
  "event_to_row now ev payload = \<lparr>or_id = e_ID ev, or_aggregate = e_AggregateID ev, or_type = e_Type ev,
     or_payload = payload, or_correlation = nullableString (e_CorrelationID ev),
     or_causation = nullableString (e_CausationID ev), or_occurred = pg_ts (e_OccurredAt ev),
     or_version = outbox_version (e_Version ev), or_attempts = 0, or_next_attempt = now,
     or_published = None, or_locked_by = None, or_locked_at = None\<rparr>"

definition OutboxCreate :: "Event \<Rightarrow> unit io" where
  "OutboxCreate ev =
     bindM (lift (data_json (e_Data ev))) (\<lambda>payload.
     unique_as_exists (stmt (\<lambda>now. insert_outbox (event_to_row now ev payload))))"

definition InboxCreate :: "string \<Rightarrow> string \<Rightarrow> string \<Rightarrow> unit io" where
  "InboxCreate consumerName messageID messageHash =
     bindM (stmt (\<lambda>now. insert_inbox \<lparr>ir_consumer = consumerName, ir_message = messageID, ir_hash = messageHash,
         ir_received = now, ir_completed = None\<rparr>))
       (\<lambda>rowsAffected. if rowsAffected = 0 then throw (PortsErr Ports_ErrAlreadyExists) else ret ())"

definition InboxMarkCompleted :: "string \<Rightarrow> string \<Rightarrow> unit io" where
  "InboxMarkCompleted consumerName messageID =
     bindM (stmt (\<lambda>now. update_inbox (\<lambda>r. ir_consumer r = consumerName \<and> ir_message r = messageID)
         (\<lambda>r. r\<lparr>ir_completed := Some now\<rparr>)))
       (\<lambda>_. ret ())"

interpretation outboxCreate: neutral_op "OutboxCreate ev" for ev
proof
  fix e p g
  assume p: "rely e" "stable e p" "money_pred p"
  have "neutral_op (unique_as_exists (stmt (\<lambda>now. insert_outbox (event_to_row now ev j))))" for j
    by (intro neutral_unique neutral_stmt) (auto dest: insert_outbox_inv)
  from neutral_op.neutral [OF this p]
  show "triple e (inside g p) (OutboxCreate ev) (\<lambda>_. inside g p) (\<lambda>_. failed g)"
    unfolding OutboxCreate_def
    by (intro triple_bind [where Q' = "\<lambda>_. inside g p"] triple_lift) (auto intro: inside_failed)
qed

lemma insert_inbox_inv:
  assumes "db_inv d" "insert_inbox r d = Inr (n, d')"
  shows "db_inv d' \<and> wallets d' = wallets d \<and> (\<forall>i. gap d' i = gap d i)"
proof (cases "list_ex (inbox_clash r) (inbox d)")
  case False
  then have ins: "insert_row (\<lambda>_. True) inbox_clash (\<lambda>_. True) r (inbox d) = Inr (inbox d @ [r])"
    and d': "d' = d\<lparr>inbox := inbox d @ [r]\<rparr>"
    using assms(2) by (auto simp: insert_inbox_def insert_row_Inr_iff)
  have "db_inv d'" using it.insert_ok [OF db_inv_tables(4) [OF assms(1)] ins]
    by (intro db_inv_step [OF assms(1)]) (simp_all add: d' db_inv_tables [OF assms(1)])
  moreover have "gap d' i = gap d i" for i by (rule gap_fields) (simp_all add: d')
  ultimately show ?thesis by (simp add: d')
qed (use assms in \<open>simp add: insert_inbox_def\<close>)

lemma update_inbox_inv:
  assumes "db_inv d" "update_inbox (\<lambda>r. ir_consumer r = c \<and> ir_message r = m) f d = Inr (n, d')"
  shows "db_inv d' \<and> wallets d' = wallets d \<and> (\<forall>i. gap d' i = gap d i)"
proof -
  let ?sel = "\<lambda>r. ir_consumer r = c \<and> ir_message r = m"
  let ?rs = "map (\<lambda>r. if ?sel r then f r else r) (inbox d)"
  have up: "update_row (\<lambda>_. True) inbox_clash (\<lambda>_. True) ?sel f (inbox d) = Inr (n, ?rs)"
    and d': "d' = d\<lparr>inbox := ?rs\<rparr>"
    using assms(2) by (auto simp: update_inbox_def bindE_Inr_iff update_row_Inr_iff)
  have "db_inv d'" using it.update_ok [OF db_inv_tables(4) [OF assms(1)] up]
    by (intro db_inv_step [OF assms(1)]) (simp_all add: d' db_inv_tables [OF assms(1)])
  moreover have "gap d' i = gap d i" for i by (rule gap_fields) (simp_all add: d')
  ultimately show ?thesis by (simp add: d')
qed

interpretation inboxCreate: neutral_op "InboxCreate c m h" for c m h
  unfolding InboxCreate_def by (intro neutral_guarded neutral_stmt insert_inbox_inv) auto

interpretation inboxMark: neutral_op "InboxMarkCompleted c m" for c m
  unfolding InboxMarkCompleted_def by (intro neutral_guarded neutral_stmt update_inbox_inv) auto

end
