(* ===== verification/Idempotency.thy ===== *)
theory Idempotency
  imports Json
begin

text \<open>
  \<open>internal/application/usecase/idempotency.go\<close>: the hash of a request's canonical payload.
  SHA-256 is a parameter, \<open>sha256\<close>, from the bytes of the message to the bytes of the digest.
\<close>

record canonicalWagerFields =
  cf_ProviderID :: string
  cf_ExternalTransactionID :: string
  cf_PlayerID :: string
  cf_WalletID :: string
  cf_RoundID :: string
  cf_GameID :: string
  cf_Kind :: string
  cf_MoneyAmount :: string
  cf_MoneyCurrency :: string
  cf_ReferenceExternalTransactionID :: string

definition canonical :: "canonicalWagerFields \<Rightarrow> json" where
  "canonical f = json_map
     [(''providerId'', JString (cf_ProviderID f)),
      (''externalTransactionId'', JString (cf_ExternalTransactionID f)),
      (''playerId'', JString (cf_PlayerID f)),
      (''walletId'', JString (cf_WalletID f)),
      (''roundId'', JString (cf_RoundID f)),
      (''gameId'', JString (cf_GameID f)),
      (''kind'', JString (cf_Kind f)),
      (''money'', json_map [(''amount'', JString (cf_MoneyAmount f)), (''currency'', JString (cf_MoneyCurrency f))]),
      (''referenceExternalTransactionId'', JString (cf_ReferenceExternalTransactionID f))]"

definition hexEncode :: "string \<Rightarrow> string" where
  "hexEncode s = concat (map (\<lambda>c. [hex_char (of_char c div 16), hex_char (of_char c mod 16)]) s)"

text \<open>Marshalling a map of strings cannot fail, so the error of the Go function is always nil.\<close>

definition computePayloadHash :: "(string \<Rightarrow> string) \<Rightarrow> canonicalWagerFields \<Rightarrow> string result" where
  "computePayloadHash sha256 f = Inr (hexEncode (sha256 (render (canonical f))))"

section \<open>The canonical text determines the request\<close>

lemma canonical_sorted:
  "canonical f = JObject
     [(''externalTransactionId'', JString (cf_ExternalTransactionID f)),
      (''gameId'', JString (cf_GameID f)),
      (''kind'', JString (cf_Kind f)),
      (''money'', JObject [(''amount'', JString (cf_MoneyAmount f)), (''currency'', JString (cf_MoneyCurrency f))]),
      (''playerId'', JString (cf_PlayerID f)),
      (''providerId'', JString (cf_ProviderID f)),
      (''referenceExternalTransactionId'', JString (cf_ReferenceExternalTransactionID f)),
      (''roundId'', JString (cf_RoundID f)),
      (''walletId'', JString (cf_WalletID f))]"
  by (simp add: canonical_def json_map_def less_char_def)

definition fields_utf8 :: "canonicalWagerFields \<Rightarrow> bool" where
  "fields_utf8 f \<longleftrightarrow> list_all valid_utf8
     [cf_ProviderID f, cf_ExternalTransactionID f, cf_PlayerID f, cf_WalletID f, cf_RoundID f, cf_GameID f,
      cf_Kind f, cf_MoneyAmount f, cf_MoneyCurrency f, cf_ReferenceExternalTransactionID f]"

lemma render_canonical_inject:
  assumes "fields_utf8 f" "fields_utf8 g"
  shows "render (canonical f) = render (canonical g) \<longleftrightarrow> f = g"
proof
  assume "render (canonical f) = render (canonical g)"
  then show "f = g" using assms
    by (cases f; cases g) (simp add: canonical_sorted fields_utf8_def quote_inject quote_inject [where r = "[]" and r' = "[]", simplified])
qed simp

lemma hex_pair_inject:
  "[hex_char (of_char c div 16), hex_char (of_char c mod 16)] = [hex_char (of_char d div 16), hex_char (of_char d mod 16)]
     \<longleftrightarrow> c = d"
  by (metis (no_types) hex_val_char list.inject mod_less_divisor u00_value zero_less_numeral)

lemma hexEncode_inject: "hexEncode s = hexEncode t \<longleftrightarrow> s = t"
proof (induction s arbitrary: t)
  case Nil
  then show ?case by (cases t) (simp_all add: hexEncode_def)
next
  case (Cons c s)
  then show ?case
  proof (cases t)
    case Nil
    then show ?thesis by (simp add: hexEncode_def)
  next
    case (Cons d u)
    have "hexEncode (c # s) = hexEncode (d # u) \<longleftrightarrow>
        [hex_char (of_char c div 16), hex_char (of_char c mod 16)] = [hex_char (of_char d div 16), hex_char (of_char d mod 16)]
        \<and> hexEncode s = hexEncode u" by (simp add: hexEncode_def)
    then show ?thesis unfolding Cons hex_pair_inject by (simp add: Cons.IH)
  qed
qed

lemma hexEncode_Nil_iff [simp]: "hexEncode s = [] \<longleftrightarrow> s = []"
  using hexEncode_inject [of s "[]"] by (simp add: hexEncode_def)

section \<open>Properties\<close>

text \<open>C15: Two requests have the same payload hash exactly when all their canonical fields agree,
  for fields that are UTF-8 and two messages on which SHA-256 does not collide: escaping,
  quoting and the key order of the canonical JSON lose nothing, so a replayed key with any
  changed field is seen as a conflict and an identical one never is.\<close>

theorem payload_hash_identifies:
  assumes "fields_utf8 f" "fields_utf8 g"
    and "sha256 (render (canonical f)) = sha256 (render (canonical g)) \<Longrightarrow> render (canonical f) = render (canonical g)"
  shows "computePayloadHash sha256 f = computePayloadHash sha256 g \<longleftrightarrow> f = g"
  using assms(3) render_canonical_inject [OF assms(1,2)] by (auto simp: computePayloadHash_def hexEncode_inject)

definition sample_fields :: canonicalWagerFields where
  "sample_fields = \<lparr>cf_ProviderID = ''prov'', cf_ExternalTransactionID = ''x1'', cf_PlayerID = ''p'',
     cf_WalletID = ''w'', cf_RoundID = ''r'', cf_GameID = ''g'', cf_Kind = ''BET'', cf_MoneyAmount = ''25.00'',
     cf_MoneyCurrency = ''BRL'', cf_ReferenceExternalTransactionID = []\<rparr>"

theorem payload_hash_identifies_witness:
  "computePayloadHash (\<lambda>s. s) sample_fields \<noteq>
   computePayloadHash (\<lambda>s. s) (sample_fields\<lparr>cf_MoneyAmount := ''2500''\<rparr>)"
proof -
  have "fields_utf8 sample_fields" "fields_utf8 (sample_fields\<lparr>cf_MoneyAmount := ''2500''\<rparr>)"
    by code_simp+
  from payload_hash_identifies [OF this, of "\<lambda>s. s"] show ?thesis by (simp add: sample_fields_def)
qed

end
