(* ===== verification/Process_Wager.thy ===== *)
theory Process_Wager
  imports Ledger_Repository Event_Repositories Idempotency
begin

text \<open>
  The use case \<open>ProcessWagerTransaction\<close> of
  \<open>internal/application/usecase/process_wager_transaction.go\<close>: \<open>Execute\<close> with its retry loop,
  \<open>ExecuteWithin\<close>, and one attempt with everything it calls. The repositories, the unit of
  work, the id generator and the clock are those of the model, as \<open>NewProcessWagerTransaction\<close>
  is given them.
\<close>

definition failureCodeReferenceMismatch :: string where
  "failureCodeReferenceMismatch = ''REFERENCE_MISMATCH''"
definition failureCodeReferenceNotProcessable :: string where
  "failureCodeReferenceNotProcessable = ''REFERENCE_NOT_PROCESSABLE''"
definition failureCodeReferenceAlreadyReversed :: string where
  "failureCodeReferenceAlreadyReversed = ''REFERENCE_ALREADY_REVERSED''"
definition failureCodeReversalInsufficientBalance :: string where
  "failureCodeReversalInsufficientBalance = ''REVERSAL_INSUFFICIENT_BALANCE''"
definition failureCodeReferenceExpired :: string where
  "failureCodeReferenceExpired = ''REFERENCE_EXPIRED''"

lemmas failure_code_defs = failureCodeReferenceMismatch_def failureCodeReferenceNotProcessable_def
  failureCodeReferenceAlreadyReversed_def failureCodeReversalInsufficientBalance_def
  failureCodeReferenceExpired_def FailureCodeInsufficientBalance_def FailureCodeCurrencyMismatch_def

record ProcessInput =
  in_ProviderID :: string
  in_ExternalTransactionID :: string
  in_IdempotencyKey :: string
  in_PlayerID :: string
  in_WalletID :: string
  in_RoundID :: string
  in_GameID :: string
  in_Kind :: string
  in_Money :: Money
  in_ReferenceExternalTransactionID :: string

record ProcessOutput =
  out_TransactionID :: string
  out_Status :: string
  out_Balance :: Money
  out_FailureCode :: string
  out_IdempotentReplay :: bool

text \<open>What \<open>NewProcessWagerTransaction\<close> fixes besides the repositories, and SHA-256.\<close>

record UseCase =
  uc_sha256 :: "string \<Rightarrow> string"
  uc_metrics :: bool
  uc_maxRetries :: nat

definition NewProcessWagerTransaction :: "(string \<Rightarrow> string) \<Rightarrow> bool \<Rightarrow> UseCase" where
  "NewProcessWagerTransaction sha256 withMetrics = \<lparr>uc_sha256 = sha256, uc_metrics = withMetrics, uc_maxRetries = 5\<rparr>"

section \<open>Parts of an attempt\<close>

text \<open>\<open>x, err := m; if err != nil && !errors.Is(err, ErrNotFound) { return err }\<close>: afterwards \<open>x\<close> may be nil.\<close>

definition notFoundAsNil :: "'a io \<Rightarrow> 'a option io" where
  "notFoundAsNil m = bindM (attempting m) (\<lambda>r. case r of
     Inr x \<Rightarrow> ret (Some x)
   | Inl err \<Rightarrow> if err = PortsErr Ports_ErrNotFound then ret None else throw err)"

definition replayOutput :: "WagerTransaction \<Rightarrow> ProcessOutput io" where
  "replayOutput tx =
     bindM (case t_financialResult tx of
         Some m \<Rightarrow> ret m
       | None \<Rightarrow> bindM (WalletFindByID (t_walletID tx)) (\<lambda>w. ret (w_balance w)))
     (\<lambda>balance. ret \<lparr>out_TransactionID = t_id tx, out_Status = Status_str (t_status tx), out_Balance = balance,
        out_FailureCode = t_failureCode tx, out_IdempotentReplay = True\<rparr>)"

definition resolveExisting :: "ProcessInput \<Rightarrow> string \<Rightarrow> ProcessOutput option io" where
  "resolveExisting inp hash =
     bindM (if in_IdempotencyKey inp \<noteq> [] then notFoundAsNil (TxFindByIdempotencyKey (in_IdempotencyKey inp)) else ret None)
     (\<lambda>existing. case existing of
        Some ex \<Rightarrow>
          if t_payloadHash ex \<noteq> hash then throw (UsecaseErr Usecase_ErrIdempotencyConflict)
          else bindM (replayOutput ex) (\<lambda>out. ret (Some out))
      | None \<Rightarrow>
          bindM (notFoundAsNil (TxFindByProviderAndExternalID (in_ProviderID inp) (in_ExternalTransactionID inp)))
          (\<lambda>existingByOp. case existingByOp of
             Some ex \<Rightarrow>
               if t_idempotencyKey ex \<noteq> in_IdempotencyKey inp \<or> t_payloadHash ex \<noteq> hash
               then throw (UsecaseErr Usecase_ErrIdempotencyConflict)
               else bindM (replayOutput ex) (\<lambda>out. ret (Some out))
           | None \<Rightarrow> ret None))"

definition reject :: "WagerTransaction \<Rightarrow> Wallet \<Rightarrow> string \<Rightarrow> Time \<Rightarrow> string \<Rightarrow> ProcessOutput io" where
  "reject tx0 w failureCode now correlationID =
     bindM (lift (orReturn (MarkRejectedWithResult tx0 failureCode (w_balance w) now))) (\<lambda>tx.
     bindM (TxUpdate tx) (\<lambda>_.
     bindM NewID (\<lambda>i.
     bindM (OutboxCreate (NewWagerTransactionRejected i (w_id w) correlationID now
       \<lparr>rd_transactionID = t_id tx, rd_walletID = w_id w, rd_providerID = t_providerID tx,
        rd_externalID = t_externalID tx, rd_kind = Kind_str (t_kind tx), rd_failureCode = failureCode\<rparr>)) (\<lambda>_.
     ret \<lparr>out_TransactionID = t_id tx, out_Status = Status_str (t_status tx), out_Balance = w_balance w,
        out_FailureCode = failureCode, out_IdempotentReplay = False\<rparr>))))"

definition pendingReference :: "WagerTransaction \<Rightarrow> Wallet \<Rightarrow> Time \<Rightarrow> string \<Rightarrow> ProcessOutput io" where
  "pendingReference tx0 w now correlationID =
     bindM (lift (orReturn (MarkPendingReference tx0 now))) (\<lambda>tx.
     bindM (TxUpdate tx) (\<lambda>_.
     bindM NewID (\<lambda>i.
     bindM (OutboxCreate (NewWagerTransactionPendingReference i (w_id w) correlationID now
       \<lparr>qd_transactionID = t_id tx, qd_walletID = w_id w, qd_providerID = t_providerID tx,
        qd_externalID = t_externalID tx, qd_referenceExternalID = t_referenceExternalID tx\<rparr>)) (\<lambda>_.
     ret \<lparr>out_TransactionID = t_id tx, out_Status = Status_str (t_status tx), out_Balance = w_balance w,
        out_FailureCode = [], out_IdempotentReplay = False\<rparr>))))"

text \<open>The empty string is \<open>no failure\<close>.\<close>

definition validateReference :: "Kind \<Rightarrow> WagerTransaction \<Rightarrow> WagerTransaction \<Rightarrow> string" where
  "validateReference kind tx reference =
     (if t_providerID tx \<noteq> t_providerID reference \<or> t_playerID tx \<noteq> t_playerID reference \<or>
         t_walletID tx \<noteq> t_walletID reference \<or> t_roundID tx \<noteq> t_roundID reference \<or>
         \<not> Equals (t_money tx) (t_money reference)
      then failureCodeReferenceMismatch
      else if kind = KindWin \<or> kind = KindRefund
      then (if t_kind reference \<noteq> KindBet then failureCodeReferenceNotProcessable else [])
      else if kind = KindRollback
      then (if t_kind reference \<noteq> KindBet \<and> t_kind reference \<noteq> KindWin \<and> t_kind reference \<noteq> KindRefund
            then failureCodeReferenceNotProcessable else [])
      else [])"

text \<open>
  The part of \<open>settle\<close> after the entry is booked, then \<open>settle\<close>; \<open>w\<close> is the wallet after its
  balance moved, \<open>previousVersion\<close> and \<open>balanceBefore\<close> what it was before.
\<close>

definition settled_events :: "WagerTransaction \<Rightarrow> Wallet \<Rightarrow> Money \<Rightarrow> Direction \<Rightarrow> Money \<Rightarrow> Time \<Rightarrow> string \<Rightarrow> ProcessOutput io" where
  "settled_events tx0 w balanceBefore direction amount now correlationID =
     bindM (lift (orReturn (MarkProcessed tx0 (w_balance w) now))) (\<lambda>tx.
     bindM (TxUpdate tx) (\<lambda>_.
     bindM NewID (\<lambda>i1.
     bindM (OutboxCreate (NewWagerTransactionProcessed i1 (w_id w) correlationID now
       \<lparr>pd_transactionID = t_id tx, pd_walletID = w_id w, pd_playerID = w_playerID w,
        pd_kind = Kind_str (t_kind tx), pd_providerID = t_providerID tx, pd_externalID = t_externalID tx,
        pd_money = amount, pd_financialResult = None, pd_idempotentReplay = False\<rparr>)) (\<lambda>_.
     bindM NewID (\<lambda>i2.
     bindM (OutboxCreate (NewWalletBalanceChanged i2 (w_id w) correlationID now
       \<lparr>bd_walletID = w_id w, bd_transactionID = t_id tx, bd_direction = Direction_str direction,
        bd_money = amount, bd_balanceBefore = balanceBefore, bd_balanceAfter = w_balance w,
        bd_walletVersion = w_version w\<rparr>)) (\<lambda>_.
     ret \<lparr>out_TransactionID = t_id tx, out_Status = Status_str (t_status tx), out_Balance = w_balance w,
        out_FailureCode = [], out_IdempotentReplay = False\<rparr>))))))"

definition settle ::
    "WagerTransaction \<Rightarrow> Wallet \<Rightarrow> int64 \<Rightarrow> Money \<Rightarrow> Direction \<Rightarrow> Money \<Rightarrow> Time \<Rightarrow> string \<Rightarrow> ProcessOutput io" where
  "settle tx w previousVersion balanceBefore direction amount now correlationID =
     bindM (WalletSave w previousVersion) (\<lambda>_.
     bindM NewID (\<lambda>i.
     bindM (lift (NewEntry i (w_id w) (t_id tx) direction amount balanceBefore (w_balance w) now)) (\<lambda>entry.
     bindM (LedgerCreate entry) (\<lambda>_.
     settled_events tx w balanceBefore direction amount now correlationID))))"

text \<open>\<open>Debit\<close> or \<open>Credit\<close> followed by \<open>settle\<close>; a debit over the balance is a rejection, not an error.\<close>

definition debitAndSettle ::
    "WagerTransaction \<Rightarrow> Wallet \<Rightarrow> Money \<Rightarrow> string \<Rightarrow> Time \<Rightarrow> string \<Rightarrow> ProcessOutput io" where
  "debitAndSettle tx w amount insufficient now correlationID =
     (case Debit w amount now of
        (None, w') \<Rightarrow> settle tx w' (w_version w) (w_balance w) DirectionDebit amount now correlationID
      | (Some err, w') \<Rightarrow>
          if err = WalletErr Wallet_ErrInsufficientBalance then reject tx w' insufficient now correlationID
          else throw err)"

definition creditAndSettle :: "WagerTransaction \<Rightarrow> Wallet \<Rightarrow> Money \<Rightarrow> Time \<Rightarrow> string \<Rightarrow> ProcessOutput io" where
  "creditAndSettle tx w amount now correlationID =
     (case Credit w amount now of
        (None, w') \<Rightarrow> settle tx w' (w_version w) (w_balance w) DirectionCredit amount now correlationID
      | (Some err, w') \<Rightarrow> throw err)"

definition settleLoss :: "ProcessInput \<Rightarrow> WagerTransaction \<Rightarrow> Wallet \<Rightarrow> Time \<Rightarrow> string \<Rightarrow> ProcessOutput io" where
  "settleLoss inp tx0 w now correlationID =
     bindM (lift (orReturn (MarkProcessed tx0 (w_balance w) now))) (\<lambda>tx.
     bindM (TxUpdate tx) (\<lambda>_.
     bindM NewID (\<lambda>i.
     bindM (OutboxCreate (NewWagerTransactionProcessed i (w_id w) correlationID now
       \<lparr>pd_transactionID = t_id tx, pd_walletID = w_id w, pd_playerID = w_playerID w,
        pd_kind = ''LOSS'', pd_providerID = in_ProviderID inp,
        pd_externalID = in_ExternalTransactionID inp, pd_money = in_Money inp, pd_financialResult = None,
        pd_idempotentReplay = False\<rparr>)) (\<lambda>_.
     ret \<lparr>out_TransactionID = t_id tx, out_Status = Status_str (t_status tx), out_Balance = w_balance w,
        out_FailureCode = [], out_IdempotentReplay = False\<rparr>))))"

section \<open>An attempt\<close>

text \<open>
  The switch on the kind. \<open>reference\<close> is nil unless the input names one; a ROLLBACK without
  would dereference nil, but \<open>NewExternalTransaction\<close> has refused it before.
\<close>

definition applyKind ::
    "ProcessInput \<Rightarrow> Kind \<Rightarrow> WagerTransaction \<Rightarrow> Wallet \<Rightarrow> WagerTransaction option \<Rightarrow> Time \<Rightarrow> string \<Rightarrow> ProcessOutput io" where
  "applyKind inp kind tx w reference now correlationID =
     (case kind of
        KindBet \<Rightarrow> debitAndSettle tx w (in_Money inp) FailureCodeInsufficientBalance now correlationID
      | KindWin \<Rightarrow> creditAndSettle tx w (in_Money inp) now correlationID
      | KindRefund \<Rightarrow> creditAndSettle tx w (in_Money inp) now correlationID
      | KindRollback \<Rightarrow> (case reference of
          None \<Rightarrow> throw (InfraErr InfraPanic)
        | Some ref \<Rightarrow>
            if t_kind ref = KindWin \<or> t_kind ref = KindRefund
            then debitAndSettle tx w (in_Money inp) failureCodeReversalInsufficientBalance now correlationID
            else creditAndSettle tx w (in_Money inp) now correlationID)
      | KindLoss \<Rightarrow> settleLoss inp tx w now correlationID
      | _ \<Rightarrow> throw (UsecaseErr Usecase_ErrUnsupportedKind))"

definition withReference ::
    "ProcessInput \<Rightarrow> Kind \<Rightarrow> WagerTransaction \<Rightarrow> Wallet \<Rightarrow> WagerTransaction \<Rightarrow> Time \<Rightarrow> string \<Rightarrow> ProcessOutput io" where
  "withReference inp kind tx w reference now correlationID =
     (if t_status reference \<noteq> StatusProcessed
      then (if IsTerminal reference then reject tx w failureCodeReferenceNotProcessable now correlationID
            else pendingReference tx w now correlationID)
      else if validateReference kind tx reference \<noteq> []
      then reject tx w (validateReference kind tx reference) now correlationID
      else bindM (if kind = KindRefund \<or> kind = KindRollback
                  then notFoundAsNil (TxFindProcessedReversalByReference (t_id reference)) else ret None)
        (\<lambda>alreadyReversed. case alreadyReversed of
           Some _ \<Rightarrow> reject tx w failureCodeReferenceAlreadyReversed now correlationID
         | None \<Rightarrow> bindM (lift (orReturn (ResolveReference tx (t_id reference) now))) (\<lambda>tx'.
             applyKind inp kind tx' w (Some reference) now correlationID)))"

definition resolveAndApply :: "ProcessInput \<Rightarrow> Kind \<Rightarrow> WagerTransaction \<Rightarrow> Wallet \<Rightarrow> Time \<Rightarrow> string \<Rightarrow> ProcessOutput io" where
  "resolveAndApply inp kind tx w now correlationID =
     (if w_currency w \<noteq> currency (in_Money inp)
      then reject tx w FailureCodeCurrencyMismatch now correlationID
      else if in_ReferenceExternalTransactionID inp \<noteq> []
      then bindM (attempting (TxFindByProviderAndExternalID (in_ProviderID inp) (in_ReferenceExternalTransactionID inp)))
        (\<lambda>r. case r of
           Inl err \<Rightarrow> if err = PortsErr Ports_ErrNotFound then pendingReference tx w now correlationID else throw err
         | Inr reference \<Rightarrow> withReference inp kind tx w reference now correlationID)
      else applyKind inp kind tx w None now correlationID)"

definition attempt :: "ProcessInput \<Rightarrow> Kind \<Rightarrow> string \<Rightarrow> ProcessOutput io" where
  "attempt inp kind hash =
     bindM (resolveExisting inp hash) (\<lambda>found. case found of
       Some out \<Rightarrow> ret out
     | None \<Rightarrow>
         bindM (WalletFindByID (in_WalletID inp)) (\<lambda>w.
         if w_playerID w \<noteq> in_PlayerID inp then throw (UsecaseErr Usecase_ErrWalletPlayerMismatch)
         else bindM timeNow (\<lambda>now.
         bindM NewID (\<lambda>i.
         bindM (lift (NewExternalTransaction i (in_ProviderID inp) (in_ExternalTransactionID inp)
           (in_IdempotencyKey inp) hash (w_id w) (w_playerID w) (in_RoundID inp) (in_GameID inp) kind
           (in_Money inp) (in_ReferenceExternalTransactionID inp) now)) (\<lambda>tx.
         bindM (TxCreate tx) (\<lambda>_.
         resolveAndApply inp kind tx w now (t_id tx)))))))"

section \<open>Execute\<close>

definition supportedKind :: "Kind \<Rightarrow> bool" where
  "supportedKind kind \<longleftrightarrow> kind \<in> {KindBet, KindWin, KindLoss, KindRefund, KindRollback}"

definition inputHash :: "UseCase \<Rightarrow> ProcessInput \<Rightarrow> string result" where
  "inputHash uc inp = computePayloadHash (uc_sha256 uc)
     \<lparr>cf_ProviderID = in_ProviderID inp, cf_ExternalTransactionID = in_ExternalTransactionID inp,
      cf_PlayerID = in_PlayerID inp, cf_WalletID = in_WalletID inp, cf_RoundID = in_RoundID inp,
      cf_GameID = in_GameID inp, cf_Kind = in_Kind inp, cf_MoneyAmount = DecimalString (in_Money inp),
      cf_MoneyCurrency = currency (in_Money inp),
      cf_ReferenceExternalTransactionID = in_ReferenceExternalTransactionID inp\<rparr>"

text \<open>A counter is only touched when the use case has metrics.\<close>

definition countIf :: "UseCase \<Rightarrow> (metrics \<Rightarrow> metrics) \<Rightarrow> unit io" where
  "countIf uc f = (if uc_metrics uc then count f else ret ())"

definition recordOutcome :: "UseCase \<Rightarrow> Kind \<Rightarrow> ProcessOutput \<Rightarrow> unit io" where
  "recordOutcome uc kind out =
     countIf uc (\<lambda>m. m\<lparr>WagerTransactionsTotal := WagerTransactionsTotal m @ [(out_Status out, Kind_str kind)],
       IdempotentReplaysTotal := IdempotentReplaysTotal m + (if out_IdempotentReplay out then 1 else 0)\<rparr>)"

text \<open>The loop \<open>for attempt := 0; attempt < maxRetries; attempt++\<close>, on the number of attempts left.\<close>

primrec executeLoop :: "UseCase \<Rightarrow> nat \<Rightarrow> ProcessInput \<Rightarrow> Kind \<Rightarrow> string \<Rightarrow> ProcessOutput io" where
  "executeLoop uc 0 inp kind hash =
     bindM (countIf uc (\<lambda>m. m\<lparr>TooManyRetriesTotal := TooManyRetriesTotal m + 1\<rparr>)) (\<lambda>_.
     throw (UsecaseErr Usecase_ErrTooManyRetries))"
| "executeLoop uc (Suc n) inp kind hash =
     bindM (attempting (UowExecute (attempt inp kind hash))) (\<lambda>r. case r of
       Inr out \<Rightarrow> bindM (recordOutcome uc kind out) (\<lambda>_. ret out)
     | Inl execErr \<Rightarrow>
         if retryable execErr
         then bindM (countIf uc (\<lambda>m. m\<lparr>OptimisticLockRetriesTotal := OptimisticLockRetriesTotal m + 1\<rparr>)) (\<lambda>_.
           executeLoop uc n inp kind hash)
         else throw execErr)"

definition Execute :: "UseCase \<Rightarrow> ProcessInput \<Rightarrow> ProcessOutput io" where
  "Execute uc inp =
     (let kind = Kind_of (in_Kind inp) in
      if \<not> supportedKind kind then throw (UsecaseErr Usecase_ErrUnsupportedKind)
      else bindM (lift (inputHash uc inp)) (\<lambda>hash. executeLoop uc (uc_maxRetries uc) inp kind hash))"

definition ExecuteWithin :: "UseCase \<Rightarrow> ProcessInput \<Rightarrow> ProcessOutput io" where
  "ExecuteWithin uc inp =
     (let kind = Kind_of (in_Kind inp) in
      if \<not> supportedKind kind then throw (UsecaseErr Usecase_ErrUnsupportedKind)
      else bindM (lift (inputHash uc inp)) (\<lambda>hash.
        bindM (attempt inp kind hash) (\<lambda>out. bindM (recordOutcome uc kind out) (\<lambda>_. ret out))))"

end
