(* ===== verification/Scenario.thy ===== *)
theory Scenario
  imports World
begin

text \<open>
  A small concrete world for examples: no other session, no faults, ids and clocks that count,
  one stored wallet of 100.00 BRL with the ledger entry of its opening.
\<close>

definition sample_id :: "nat \<Rightarrow> string" where
  "sample_id n = CHR ''i'' # replicate n (CHR ''x'')"

definition sample_env :: env where
  "sample_env = \<lparr>interf = \<lambda>_ d. d, fault_at = \<lambda>_. NoFault, db_clock = \<lambda>n. int n * 1000000,
     clock = \<lambda>n. int n * 1000000, new_id = sample_id,
     row_locked = \<lambda>_ _. False, arrange = \<lambda>_ rs. rs, queue_fault = \<lambda>_. NoFault,
     inbound = \<lambda>_. Inr [], cancelled = \<lambda>_. False\<rparr>"

definition no_counts :: metrics where
  "no_counts = \<lparr>WagerTransactionsTotal = [], IdempotentReplaysTotal = 0, OptimisticLockRetriesTotal = 0,
     TooManyRetriesTotal = 0, ReconciliationChecksTotal = 0, ReconciliationDivergentTotal = 0,
     OutboxPublishFailuresTotal = 0, InboxDuplicatesTotal = 0, MessageDeliveryFailuresTotal = 0\<rparr>"

definition world_of :: "db \<Rightarrow> world" where
  "world_of d = \<lparr>committed = d, session = None, snapshot = False, tx_start = 0, ticks = 0, clocks = 0,
     ids = 0, calls = 0, counters = no_counts, mail = \<lparr>sent = [], deleted = [], released = []\<rparr>\<rparr>"

definition sample_wallet_row :: wallet_row where
  "sample_wallet_row = \<lparr>wr_id = ''w1'', wr_player = ''p1'', wr_currency = ''BRL'', wr_balance = 10000,
     wr_version = 1, wr_created = 0, wr_updated = 0\<rparr>"

definition sample_opening_row :: tx_row where
  "sample_opening_row = \<lparr>xr_id = ''t0'', xr_kind = KindOpening, xr_status = StatusProcessed, xr_wallet = ''w1'',
     xr_player = ''p1'', xr_amount = 10000, xr_currency = ''BRL'', xr_provider = None, xr_external = None,
     xr_key = None, xr_hash = None, xr_round = None, xr_game = None, xr_ref_external = None,
     xr_resolved = None, xr_failure = None, xr_fr_minor = None, xr_fr_currency = None,
     xr_retries = 0, xr_next_retry = None, xr_created = 0, xr_updated = 0\<rparr>"

definition sample_entry_row :: ledger_row where
  "sample_entry_row = \<lparr>lr_id = ''e0'', lr_wallet = ''w1'', lr_tx = ''t0'', lr_direction = DirectionCredit,
     lr_amount = 10000, lr_currency = ''BRL'', lr_before = 0, lr_after = 10000, lr_created = 0\<rparr>"

definition sample_db :: db where
  "sample_db = \<lparr>wallets = [sample_wallet_row], txs = [sample_opening_row], entries = [sample_entry_row],
     inbox = [], outbox = []\<rparr>"

lemmas sample_rows = sample_wallet_row_def sample_opening_row_def sample_entry_row_def sample_db_def

lemma sample_db_inv: "db_inv sample_db"
  by (simp add: db_inv_def schema_ok_def sample_rows table_ok_def wallet_check_def tx_check_def
      ledger_check_def tx_amount_by_kind_def tx_kind_fields_def tx_reference_by_kind_def in_int32_def
      tx_fk_def ledger_fk_def entry_currency_ok_def currency_format_def isAllLetters_def)

lemma sample_gap: "gap sample_db i = 0"
  by (simp add: gap_def stored_balance_def ledger_sum_def row_delta_def sample_rows)

end
