(* ===== verification/Process_Safety.thy ===== *)
theory Process_Safety
  imports Process_Wager Scenario
begin

text \<open>
  The books under everything: one attempt, run in a unit of work against other sessions and
  faults, either leaves the books settled or fails and is rolled back; so \<open>Execute\<close> keeps them,
  whatever it returns.
\<close>

section \<open>Parts that move no money\<close>

interpretation walletByID: finder "WalletFindByID i" for i
  unfolding WalletFindByID_def by (rule finder_query)

lemma neutral_notFoundAsNil [neutral_intros]:
  assumes "finder m" shows "neutral_op (notFoundAsNil m)"
proof
  fix e p g
  assume p: "rely e" "stable e p" "money_pred p"
  show "triple e (inside g p) (notFoundAsNil m) (\<lambda>_. inside g p) (\<lambda>_. failed g)"
    unfolding notFoundAsNil_def
    by (rule finder.try_then [OF assms p]) (auto intro!: triple_rules inside_failed)
qed

lemmas ops_neutral [neutral_intros] = walletByID.neutral_op_axioms txByKey.neutral_op_axioms
  txByExternal.neutral_op_axioms txReversal.neutral_op_axioms txCreate.neutral_op_axioms
  txUpdate.neutral_op_axioms outboxCreate.neutral_op_axioms txByKey.finder_axioms
  txByExternal.finder_axioms txReversal.finder_axioms

interpretation replay: neutral_op "replayOutput tx" for tx
  unfolding replayOutput_def by (intro neutral_intros)

interpretation resolve: neutral_op "resolveExisting inp hash" for inp hash
  unfolding resolveExisting_def by (intro neutral_intros replay.neutral_op_axioms)

interpretation rej: neutral_op "reject tx w fc now c" for tx w fc now c
  unfolding reject_def by (intro neutral_intros)

interpretation pend: neutral_op "pendingReference tx w now c" for tx w now c
  unfolding pendingReference_def by (intro neutral_intros)

interpretation loss: neutral_op "settleLoss inp tx w now c" for inp tx w now c
  unfolding settleLoss_def by (intro neutral_intros)

interpretation settledEvents: neutral_op "settled_events tx w b dir a now c" for tx w b dir a now c
  unfolding settled_events_def by (intro neutral_intros)

section \<open>Settling\<close>

text \<open>In a transaction that has read \<open>w\<close>, an operation that ends with the books settled.\<close>

definition settles :: "env \<Rightarrow> Wallet \<Rightarrow> 'a io \<Rightarrow> bool" where
  "settles e w m \<longleftrightarrow> (\<forall>g. triple e (inside g (\<lambda>d. settled g d \<and> seen w d)) m (\<lambda>_. inside g (settled g)) (\<lambda>_. failed g))"

lemma settles_neutral:
  assumes "rely e" "neutral_op m" shows "settles e w m"
  unfolding settles_def
proof
  fix g
  have "triple e (inside g (\<lambda>d. settled g d \<and> seen w d)) m (\<lambda>_. inside g (\<lambda>d. settled g d \<and> seen w d)) (\<lambda>_. failed g)"
    using assms by (intro neutral_op.neutral) auto
  then show "triple e (inside g (\<lambda>d. settled g d \<and> seen w d)) m (\<lambda>_. inside g (settled g)) (\<lambda>_. failed g)"
    by (rule triple_weaken) (auto elim: inside_weaken)
qed

lemma settles_bind:
  assumes "rely e" "neutral_op m" "\<And>a. settles e w (k a)"
  shows "settles e w (bindM m k)"
  unfolding settles_def
proof
  fix g
  show "triple e (inside g (\<lambda>d. settled g d \<and> seen w d)) (bindM m k) (\<lambda>_. inside g (settled g)) (\<lambda>_. failed g)"
    by (rule neutral_op.neutral_then [OF assms(2,1)]) (use assms in \<open>auto simp: settles_def\<close>)
qed

lemma settles_settle:
  assumes rely: "rely e" and "w_id w' = w_id w"
  shows "settles e w (settle tx w' (w_version w) (w_balance w) dir a now c)"
  unfolding settles_def settle_def
proof
  fix g
  show "triple e (inside g (\<lambda>d. settled g d \<and> seen w d))
     (bindM (WalletSave w' (w_version w)) (\<lambda>_. bindM NewID (\<lambda>i.
      bindM (lift (NewEntry i (w_id w') (t_id tx) dir a (w_balance w) (w_balance w') now)) (\<lambda>entry.
      bindM (LedgerCreate entry) (\<lambda>_. settled_events tx w' (w_balance w) dir a now c)))))
     (\<lambda>_. inside g (settled g)) (\<lambda>_. failed g)"
    by (rule posting.save_then_book [OF assms])
      (rule settledEvents.neutral [OF rely stable_pending [OF rely] money_pred_intros(2)])
qed

lemma settles_debit:
  assumes "rely e" shows "settles e w (debitAndSettle tx w a fc now c)"
proof (cases "Debit w a now")
  case (Pair r w')
  then show ?thesis
    using debit.move_effect(4) [of w a now w'] settles_settle [OF assms, of w' w]
      settles_neutral [OF assms rej.neutral_op_axioms]
    by (cases r) (simp_all add: debitAndSettle_def settles_neutral [OF assms neutral_throw])
qed

lemma settles_credit:
  assumes "rely e" shows "settles e w (creditAndSettle tx w a now c)"
proof (cases "Credit w a now")
  case (Pair r w')
  then show ?thesis
    using credit.move_effect(4) [of w a now w'] settles_settle [OF assms, of w' w]
    by (cases r) (simp_all add: creditAndSettle_def settles_neutral [OF assms neutral_throw])
qed

lemma settles_applyKind: "rely e \<Longrightarrow> settles e w (applyKind inp kind tx w ref now c)"
  unfolding applyKind_def
  by (cases kind; cases ref)
    (simp_all add: settles_debit settles_credit settles_neutral neutral_throw loss.neutral_op_axioms)

lemma settles_withReference:
  assumes "rely e" shows "settles e w (withReference inp kind tx w ref now c)"
proof -
  have "settles e w (case rv of Some _ \<Rightarrow> reject tx w failureCodeReferenceAlreadyReversed now c
      | None \<Rightarrow> bindM (lift (orReturn (ResolveReference tx (t_id ref) now))) (\<lambda>tx'. applyKind inp kind tx' w (Some ref) now c))"
    for rv :: "WagerTransaction option"
    using assms
    by (cases rv) (simp_all add: settles_bind neutral_lift settles_applyKind settles_neutral rej.neutral_op_axioms)
  moreover have "neutral_op (if kind = KindRefund \<or> kind = KindRollback
      then notFoundAsNil (TxFindProcessedReversalByReference (t_id ref)) else ret None)"
    by (intro neutral_intros)
  ultimately show ?thesis unfolding withReference_def using assms
    by (simp add: settles_bind settles_neutral rej.neutral_op_axioms pend.neutral_op_axioms)
qed

lemma settles_try_external:
  assumes "rely e" "\<And>ref. settles e w (k (Inr ref))" "neutral_op (k (Inl (PortsErr Ports_ErrNotFound)))"
    and "\<And>x. x \<noteq> PortsErr Ports_ErrNotFound \<Longrightarrow> k (Inl x) = throw x"
  shows "settles e w (bindM (attempting (TxFindByProviderAndExternalID p x)) k)"
  unfolding settles_def
proof
  fix g
  show "triple e (inside g (\<lambda>d. settled g d \<and> seen w d))
      (bindM (attempting (TxFindByProviderAndExternalID p x)) k) (\<lambda>_. inside g (settled g)) (\<lambda>_. failed g)"
    by (rule txByExternal.try_then)
      (use assms settles_neutral [OF assms(1,3)] in \<open>auto simp: settles_def intro: triple_throw\<close>)
qed

lemma settles_resolveAndApply: "rely e \<Longrightarrow> settles e w (resolveAndApply inp kind tx w now c)"
  unfolding resolveAndApply_def
  by (simp add: settles_try_external settles_withReference settles_applyKind settles_neutral
      rej.neutral_op_axioms pend.neutral_op_axioms)

section \<open>An attempt and the loop\<close>

lemma triple_attempt:
  assumes rely: "rely e"
  shows "triple e (inside g (settled g)) (attempt inp kind hash) (\<lambda>_. inside g (settled g)) (\<lambda>_. failed g)"
proof -
  have rest: "settles e w (if w_playerID w \<noteq> in_PlayerID inp then throw (UsecaseErr Usecase_ErrWalletPlayerMismatch)
      else bindM timeNow (\<lambda>now. bindM NewID (\<lambda>i. bindM (lift (N i now)) (\<lambda>tx.
        bindM (TxCreate tx) (\<lambda>_. resolveAndApply inp kind tx w now (t_id tx))))))" for w N
    using rely by (simp add: settles_bind settles_resolveAndApply settles_neutral neutral_throw neutral_timeNow
        neutral_NewID neutral_lift txCreate.neutral_op_axioms)
  have find: "triple e (inside g (settled g)) (WalletFindByID i) (\<lambda>w. inside g (\<lambda>d. settled g d \<and> seen w d)) (\<lambda>_. failed g)" for i
    by (rule triple_weaken [OF triple_WalletFindByID [OF rely stable_pending [OF rely]]]) (auto elim: inside_weaken)
  show ?thesis
    unfolding attempt_def
  proof (rule resolve.neutral_then [OF rely stable_pending [OF rely] money_pred_intros(2)])
    fix found
    show "triple e (inside g (settled g)) (case found of Some out \<Rightarrow> ret out | None \<Rightarrow>
         bindM (WalletFindByID (in_WalletID inp)) (\<lambda>w.
         if w_playerID w \<noteq> in_PlayerID inp then throw (UsecaseErr Usecase_ErrWalletPlayerMismatch)
         else bindM timeNow (\<lambda>now.
         bindM NewID (\<lambda>i.
         bindM (lift (NewExternalTransaction i (in_ProviderID inp) (in_ExternalTransactionID inp)
           (in_IdempotencyKey inp) hash (w_id w) (w_playerID w) (in_RoundID inp) (in_GameID inp) kind
           (in_Money inp) (in_ReferenceExternalTransactionID inp) now)) (\<lambda>tx.
         bindM (TxCreate tx) (\<lambda>_.
         resolveAndApply inp kind tx w now (t_id tx))))))) (\<lambda>_. inside g (settled g)) (\<lambda>_. failed g)"
    proof (cases found)
      case None
      then show ?thesis using triple_bind [OF find rest [unfolded settles_def, rule_format]] by simp
    qed (simp add: triple_ret)
  qed
qed

lemma triple_countIf: "triple e (outside g) (countIf uc f) (\<lambda>_. outside g) R"
  by (simp add: countIf_def triple_count_out triple_ret)

lemma triple_executeLoop:
  assumes rely: "rely e"
  shows "triple e (outside g) (executeLoop uc n inp kind hash) (\<lambda>_. outside g) (\<lambda>_. outside g)"
proof (induction n)
  case 0
  show ?case unfolding executeLoop.simps
    by (intro triple_bind [OF triple_countIf]) (simp add: triple_throw)
next
  case (Suc n)
  have tx: "triple e (outside g) (attempting (UowExecute (attempt inp kind hash))) (\<lambda>_. outside g) (\<lambda>_. outside g)"
    unfolding UowExecute_def by (intro triple_attempting triple_WithinTx triple_attempt rely)
  show ?case unfolding executeLoop.simps
    by (rule triple_bind [OF tx])
      (auto simp: recordOutcome_def split: sum.split intro!: triple_bind [OF triple_countIf] triple_rules Suc)
qed

lemma triple_Execute:
  assumes "rely e"
  shows "triple e (outside g) (Execute uc inp) (\<lambda>_. outside g) (\<lambda>_. outside g)"
  unfolding Execute_def Let_def
  by (auto intro!: triple_rules triple_bind [where Q' = "\<lambda>_. outside g"] triple_lift triple_executeLoop assms)

section \<open>Properties\<close>

text \<open>C5: Whatever the other sessions commit in between (within their promises), whatever statements
  fail, whether or not a commit's answer is lost and however often the loop retries, one call of
  \<open>Execute\<close> leaves the database inside its constraints, holds no transaction open, and changes no
  wallet's gap between stored balance and ledger: every movement of a balance that is committed is
  committed with exactly the ledger entries that explain it.\<close>

theorem Execute_keeps_books:
  assumes "rely e" "db_inv (committed w)" "session w = None" "\<not> snapshot w"
    and "Execute uc inp e w = (r, w')"
  shows "db_inv (committed w') \<and> session w' = None \<and> \<not> snapshot w' \<and>
    (\<forall>i. stored_balance (committed w') i - ledger_sum (committed w') i =
         stored_balance (committed w) i - ledger_sum (committed w) i)"
proof -
  have "outside (gap (committed w)) w" using assms by (simp add: outside_def committed_ok_def)
  then have "outside (gap (committed w)) w'"
    using triple_Execute [OF assms(1), of "gap (committed w)" uc inp] assms(5)
    unfolding triple_def by (cases r) force+
  then show ?thesis by (simp add: outside_def committed_ok_def gap_def)
qed

definition sample_uc :: UseCase where
  "sample_uc = NewProcessWagerTransaction (\<lambda>_. ''d'') True"

definition sample_bet :: "string \<Rightarrow> int64 \<Rightarrow> ProcessInput" where
  "sample_bet key cents = \<lparr>in_ProviderID = ''prov'', in_ExternalTransactionID = key, in_IdempotencyKey = key,
     in_PlayerID = ''p1'', in_WalletID = ''w1'', in_RoundID = ''r1'', in_GameID = ''g1'', in_Kind = ''BET'',
     in_Money = \<lparr>minorUnits = cents, currency = ''BRL''\<rparr>, in_ReferenceExternalTransactionID = []\<rparr>"

lemma sample_rely: "rely sample_env"
  by (rule rely_alone) (simp add: sample_env_def)

text \<open>A bet of 80.00 on the sample wallet of 100.00.\<close>

theorem Execute_keeps_books_witness:
  "\<forall>i. gap (committed (snd (Execute sample_uc (sample_bet ''k1'' 8000) sample_env (world_of sample_db)))) i = 0"
  using Execute_keeps_books [OF sample_rely, of "world_of sample_db" sample_uc "sample_bet ''k1'' 8000"
      "fst (Execute sample_uc (sample_bet ''k1'' 8000) sample_env (world_of sample_db))"
      "snd (Execute sample_uc (sample_bet ''k1'' 8000) sample_env (world_of sample_db))"]
    sample_db_inv sample_gap by (simp add: world_of_def gap_def)

end
