(* ===== verification/Open_Wallet.thy ===== *)
theory Open_Wallet
  imports Process_Safety
begin

text \<open>\<open>internal/application/usecase/open_wallet.go\<close>: opening a wallet with its initial balance, one unit of work.\<close>

record OpenWalletInput =
  ow_PlayerID :: string
  ow_InitialBalance :: Money

record OpenWalletOutput =
  oo_ID :: string
  oo_PlayerID :: string
  oo_Balance :: Money
  oo_Version :: int64

text \<open>The events of the opening, after its entry is booked.\<close>

definition opening_events :: "OpenWalletInput \<Rightarrow> Wallet \<Rightarrow> WagerTransaction \<Rightarrow> Money \<Rightarrow> Time \<Rightarrow> unit io" where
  "opening_events inp w openingTx zero now =
     bindM NewID (\<lambda>i1.
     bindM (OutboxCreate (NewWagerTransactionProcessed i1 (w_id w) (t_id openingTx) now
       \<lparr>pd_transactionID = t_id openingTx, pd_walletID = w_id w, pd_playerID = w_playerID w,
        pd_kind = Kind_str KindOpening, pd_providerID = [], pd_externalID = [],
        pd_money = ow_InitialBalance inp, pd_financialResult = None, pd_idempotentReplay = False\<rparr>)) (\<lambda>_.
     bindM NewID (\<lambda>i2.
     OutboxCreate (NewWalletBalanceChanged i2 (w_id w) (t_id openingTx) now
       \<lparr>bd_walletID = w_id w, bd_transactionID = t_id openingTx, bd_direction = Direction_str DirectionCredit,
        bd_money = ow_InitialBalance inp, bd_balanceBefore = zero, bd_balanceAfter = w_balance w,
        bd_walletVersion = w_version w\<rparr>))))"

text \<open>The function given to the unit of work.\<close>

definition open_in_tx :: "OpenWalletInput \<Rightarrow> Wallet \<Rightarrow> Time \<Rightarrow> unit io" where
  "open_in_tx inp w now =
     bindM (WalletCreate w) (\<lambda>_.
     if IsZero (ow_InitialBalance inp) then ret ()
     else bindM NewID (\<lambda>txid.
     bindM (lift (NewOpeningTransaction txid (w_id w) (w_playerID w) (ow_InitialBalance inp) now)) (\<lambda>openingTx.
     bindM (TxCreate openingTx) (\<lambda>_.
     bindM (lift (Zero (currency (ow_InitialBalance inp)))) (\<lambda>zero.
     bindM NewID (\<lambda>eid.
     bindM (lift (NewEntry eid (w_id w) (t_id openingTx) DirectionCredit (ow_InitialBalance inp) zero (w_balance w) now)) (\<lambda>entry.
     bindM (LedgerCreate entry) (\<lambda>_.
     opening_events inp w openingTx zero now))))))))"

definition OpenWalletExecute :: "OpenWalletInput \<Rightarrow> OpenWalletOutput io" where
  "OpenWalletExecute inp =
     bindM timeNow (\<lambda>now.
     bindM NewID (\<lambda>wid.
     bindM (lift (NewWallet wid (ow_PlayerID inp) (ow_InitialBalance inp) now)) (\<lambda>w.
     bindM (attempting (UowExecute (open_in_tx inp w now))) (\<lambda>r. case r of
       Inl err \<Rightarrow> if err = PortsErr Ports_ErrAlreadyExists then throw (UsecaseErr Usecase_ErrWalletAlreadyExists)
                  else throw err
     | Inr _ \<Rightarrow> ret \<lparr>oo_ID = w_id w, oo_PlayerID = w_playerID w, oo_Balance = w_balance w, oo_Version = w_version w\<rparr>))))"

section \<open>The books\<close>

interpretation openingEvents: neutral_op "opening_events inp w tx z now" for inp w tx z now
  unfolding opening_events_def by (intro neutral_intros)

lemma triple_open_in_tx:
  assumes rely: "rely e" and bal: "w_balance w = ow_InitialBalance inp"
  shows "triple e (inside g (settled g)) (open_in_tx inp w now) (\<lambda>_. inside g (settled g)) (\<lambda>_. failed g)"
proof -
  let ?p = "\<lambda>d. pending g (moved_by (w_id w) (amt (w_balance w))) d \<and> holds_currency (w_id w) (w_currency w) d"
  let ?q = "\<lambda>en d. pending g (moved_by (l_walletID en) (entry_delta en)) d \<and>
      holds_currency (l_walletID en) (currency (l_amount en)) d"
  have p: "stable e ?p" "money_pred ?p" using rely by auto
  have entry: "triple e (inside g ?p)
      (lift (NewEntry eid (w_id w) x DirectionCredit (ow_InitialBalance inp) z (w_balance w) now))
      (\<lambda>en. inside g (?q en)) (\<lambda>_. failed g)"
    if z: "Zero (currency (ow_InitialBalance inp)) = Inr z" for eid x z
  proof (rule triple_lift)
    fix wd en
    assume wd: "inside g ?p wd"
      and en: "NewEntry eid (w_id w) x DirectionCredit (ow_InitialBalance inp) z (w_balance w) now = Inr en"
    from en have "l_walletID en = w_id w" "entry_delta en = amt (w_balance w)" "currency (l_amount en) = w_currency w"
      using bal unfolding NewEntry_Inr_iff by (auto simp: entry_delta_def w_currency_def)
    then show "inside g (?q en) wd" using wd by simp
  qed (rule inside_failed)
  have book: "triple e (inside g (?q en)) (bindM (LedgerCreate en) (\<lambda>_. opening_events inp w tx z now))
      (\<lambda>_. inside g (settled g)) (\<lambda>_. failed g)" for en tx z
    by (rule triple_bind [OF posting.book_settles [OF rely]
          openingEvents.neutral [OF rely stable_pending [OF rely] money_pred_intros(2)]])
  have zero: "triple e (inside g ?p) (bindM (lift (Zero (currency (ow_InitialBalance inp)))) (\<lambda>z.
      bindM NewID (\<lambda>eid. bindM (lift (NewEntry eid (w_id w) x DirectionCredit (ow_InitialBalance inp) z (w_balance w) now))
        (\<lambda>en. bindM (LedgerCreate en) (\<lambda>_. opening_events inp w tx z now))))) (\<lambda>_. inside g (settled g)) (\<lambda>_. failed g)"
    for x tx
  proof (cases "Zero (currency (ow_InitialBalance inp))")
    case (Inl err)
    then show ?thesis by (auto simp: triple_def bindM_apply intro: inside_failed)
  next
    case (Inr z)
    have "triple e (inside g ?p) (lift (Inr z)) (\<lambda>z'. if z' = z then inside g ?p else (\<lambda>_. False)) (\<lambda>_. failed g)"
      by (simp add: triple_def)
    moreover have "triple e (if z' = z then inside g ?p else (\<lambda>_. False)) (bindM NewID (\<lambda>eid.
        bindM (lift (NewEntry eid (w_id w) x DirectionCredit (ow_InitialBalance inp) z' (w_balance w) now))
        (\<lambda>en. bindM (LedgerCreate en) (\<lambda>_. opening_events inp w tx z' now)))) (\<lambda>_. inside g (settled g)) (\<lambda>_. failed g)" for z'
      using triple_bind [OF triple_NewID triple_bind [OF entry [OF Inr] book]]
      by (cases "z' = z") (simp_all add: triple_def)
    ultimately show ?thesis unfolding Inr by (rule triple_bind)
  qed
  have "triple e (inside g ?p) (if IsZero (ow_InitialBalance inp) then ret () else bindM NewID (\<lambda>txid.
     bindM (lift (NewOpeningTransaction txid (w_id w) (w_playerID w) (ow_InitialBalance inp) now)) (\<lambda>openingTx.
     bindM (TxCreate openingTx) (\<lambda>_.
     bindM (lift (Zero (currency (ow_InitialBalance inp)))) (\<lambda>zero.
     bindM NewID (\<lambda>eid.
     bindM (lift (NewEntry eid (w_id w) (t_id openingTx) DirectionCredit (ow_InitialBalance inp) zero (w_balance w) now)) (\<lambda>entry.
     bindM (LedgerCreate entry) (\<lambda>_.
     opening_events inp w openingTx zero now)))))))) (\<lambda>_. inside g (settled g)) (\<lambda>_. failed g)"
  proof (rule triple_if)
    assume "IsZero (ow_InitialBalance inp)"
    then show "triple e (inside g ?p) (ret ()) (\<lambda>_. inside g (settled g)) (\<lambda>_. failed g)"
      using bal by (intro triple_ret) (auto simp: moved_by_def pending_def elim!: inside_weaken)
  qed (intro triple_bind [OF triple_NewID]
      neutral_op.neutral_then [OF neutral_lift rely p] neutral_op.neutral_then [OF txCreate.neutral_op_axioms rely p] zero)
  then show ?thesis
    unfolding open_in_tx_def by (rule triple_bind [OF triple_WalletCreate [OF rely]])
qed

lemma triple_OpenWallet:
  assumes rely: "rely e"
  shows "triple e (outside g) (OpenWalletExecute inp) (\<lambda>_. outside g) (\<lambda>_. outside g)"
proof -
  have main: "triple e (outside g) (bindM (attempting (UowExecute (open_in_tx inp w now))) (\<lambda>r. case r of
       Inl err \<Rightarrow> if err = PortsErr Ports_ErrAlreadyExists then throw (UsecaseErr Usecase_ErrWalletAlreadyExists)
                  else throw err
     | Inr _ \<Rightarrow> ret \<lparr>oo_ID = w_id w, oo_PlayerID = w_playerID w, oo_Balance = w_balance w, oo_Version = w_version w\<rparr>))
     (\<lambda>_. outside g) (\<lambda>_. outside g)" if "w_balance w = ow_InitialBalance inp" for w now
  proof (rule triple_bind)
    show "triple e (outside g) (attempting (UowExecute (open_in_tx inp w now))) (\<lambda>_. outside g) (\<lambda>_. outside g)"
      unfolding UowExecute_def by (intro triple_attempting triple_WithinTx triple_open_in_tx rely that)
  qed (auto split: sum.split intro!: triple_rules)
  have lifted: "triple e (outside g) (lift (NewWallet wid (ow_PlayerID inp) (ow_InitialBalance inp) now))
      (\<lambda>w wd. outside g wd \<and> w_balance w = ow_InitialBalance inp) (\<lambda>_. outside g)" for wid now
    by (rule triple_lift) (auto simp: NewWallet_Inr_iff)
  have guard: "triple e (\<lambda>wd. outside g wd \<and> w_balance w = ow_InitialBalance inp) m Q R"
    if "w_balance w = ow_InitialBalance inp \<Longrightarrow> triple e (outside g) m Q R" for w :: Wallet and m :: "OpenWalletOutput io" and Q R
    using that by (auto simp: triple_def)
  show ?thesis
    unfolding OpenWalletExecute_def
    by (rule triple_bind [OF triple_timeNow_out], rule triple_bind [OF triple_NewID_out],
        rule triple_bind [OF lifted], rule guard, rule main)
qed

end
