(* ===== verification/Reference_Retry.thy ===== *)
theory Reference_Retry
  imports Process_Safety
begin

text \<open>
  The second half of \<open>process_wager_transaction.go\<close>: resuming and expiring a transaction that
  waits for its reference, and the backoff between two tries.
\<close>

text \<open>\<open>time.Duration\<close> is an \<open>int64\<close> of nanoseconds; \<open><<\<close> shifts its bits.\<close>

definition second :: int64 where
  "second = 1000000000"

definition referenceRetryBackoff :: "int64 \<Rightarrow> int64" where
  "referenceRetryBackoff attempts =
     (let maxBackoff = 30 * second in
      if attempts <s 1 then second
      else if 5 <s attempts then maxBackoff
      else let backoff = push_bit (unat attempts) second in
        if maxBackoff <s backoff then maxBackoff else backoff)"

definition discard :: "'a io \<Rightarrow> unit io" where
  "discard m = bindM m (\<lambda>_. ret ())"

definition resumeKind :: "WagerTransaction \<Rightarrow> Wallet \<Rightarrow> WagerTransaction \<Rightarrow> Time \<Rightarrow> string \<Rightarrow> unit io" where
  "resumeKind tx w reference now correlationID =
     (case t_kind tx of
        KindWin \<Rightarrow> discard (creditAndSettle tx w (t_money tx) now correlationID)
      | KindRefund \<Rightarrow> discard (creditAndSettle tx w (t_money tx) now correlationID)
      | KindRollback \<Rightarrow>
          if t_kind reference = KindWin \<or> t_kind reference = KindRefund
          then discard (debitAndSettle tx w (t_money tx) failureCodeReversalInsufficientBalance now correlationID)
          else discard (creditAndSettle tx w (t_money tx) now correlationID)
      | _ \<Rightarrow> throw (UsecaseErr Usecase_ErrUnsupportedKind))"

text \<open>The reference is found and processed: decide what becomes of the waiting transaction.\<close>

definition resumeWith :: "WagerTransaction \<Rightarrow> Wallet \<Rightarrow> WagerTransaction \<Rightarrow> Time \<Rightarrow> unit io" where
  "resumeWith tx w reference now =
     (let correlationID = t_id tx; failureCode = validateReference (t_kind tx) tx reference in
      if failureCode \<noteq> [] then discard (reject tx w failureCode now correlationID)
      else bindM (if t_kind tx = KindRefund \<or> t_kind tx = KindRollback
                  then notFoundAsNil (TxFindProcessedReversalByReference (t_id reference)) else ret None)
        (\<lambda>alreadyReversed. case alreadyReversed of
           Some _ \<Rightarrow> discard (reject tx w failureCodeReferenceAlreadyReversed now correlationID)
         | None \<Rightarrow> bindM (lift (orReturn (ResolveReference tx (t_id reference) now))) (\<lambda>tx'.
             resumeKind tx' w reference now correlationID)))"

definition retryLater :: "WagerTransaction \<Rightarrow> Time \<Rightarrow> unit io" where
  "retryLater tx now =
     bindM (lift (orReturn (RecordReferenceRetryAttempt tx
       (now + sint (referenceRetryBackoff (t_referenceRetryAttempts tx + 1))) now))) (\<lambda>tx'. TxUpdate tx')"

definition resume_in_tx :: "string \<Rightarrow> unit io" where
  "resume_in_tx i =
     bindM (TxFindByIDForUpdate i) (\<lambda>tx.
     if t_status tx \<noteq> StatusPendingReference then ret ()
     else bindM (WalletFindByID (t_walletID tx)) (\<lambda>w.
     bindM (attempting (TxFindByProviderAndExternalID (t_providerID tx) (t_referenceExternalID tx))) (\<lambda>r.
     case r of
       Inl err \<Rightarrow> if err = PortsErr Ports_ErrNotFound then bindM timeNow (retryLater tx) else throw err
     | Inr reference \<Rightarrow>
         if t_status reference \<noteq> StatusProcessed then bindM timeNow (retryLater tx)
         else bindM timeNow (resumeWith tx w reference))))"

definition ResumePendingReference :: "string \<Rightarrow> unit io" where
  "ResumePendingReference i = UowExecute (resume_in_tx i)"

definition expire_in_tx :: "string \<Rightarrow> unit io" where
  "expire_in_tx i =
     bindM (TxFindByIDForUpdate i) (\<lambda>tx0.
     if t_status tx0 \<noteq> StatusPendingReference then ret ()
     else bindM timeNow (\<lambda>now.
     bindM (lift (orReturn (MarkFailed tx0 failureCodeReferenceExpired now))) (\<lambda>tx.
     bindM (TxUpdate tx) (\<lambda>_.
     bindM NewID (\<lambda>eid.
     OutboxCreate (NewWagerTransactionExpired eid (t_walletID tx) (t_id tx) now
       \<lparr>xd_transactionID = t_id tx, xd_walletID = t_walletID tx, xd_providerID = t_providerID tx,
        xd_externalID = t_externalID tx, xd_referenceExternalID = t_referenceExternalID tx,
        xd_failureCode = failureCodeReferenceExpired\<rparr>))))))"

definition ExpirePendingReference :: "string \<Rightarrow> unit io" where
  "ExpirePendingReference i = UowExecute (expire_in_tx i)"

section \<open>The books\<close>

interpretation retryLater: neutral_op "retryLater tx now" for tx now
  unfolding retryLater_def by (intro neutral_intros)

interpretation expire: neutral_op "expire_in_tx i" for i
  unfolding expire_in_tx_def by (intro neutral_intros txByIDForUpdate.neutral_op_axioms)

lemma neutral_discard: "neutral_op m \<Longrightarrow> neutral_op (discard m)"
  unfolding discard_def by (intro neutral_intros)

lemma settles_discard: "settles e w m \<Longrightarrow> settles e w (discard m)"
  unfolding settles_def discard_def by (intro allI triple_bind [OF _ triple_ret]) auto

lemma settles_resumeKind: "rely e \<Longrightarrow> settles e w (resumeKind tx w ref now c)"
  unfolding resumeKind_def
  by (cases "t_kind tx")
    (simp_all add: settles_discard settles_debit settles_credit settles_neutral neutral_throw)

lemma settles_resumeWith:
  assumes "rely e" shows "settles e w (resumeWith tx w ref now)"
proof -
  have "settles e w (case rv of Some _ \<Rightarrow> discard (reject tx w failureCodeReferenceAlreadyReversed now (t_id tx))
      | None \<Rightarrow> bindM (lift (orReturn (ResolveReference tx (t_id ref) now))) (\<lambda>tx'. resumeKind tx' w ref now (t_id tx)))"
    for rv :: "WagerTransaction option"
    using assms
    by (cases rv) (simp_all add: settles_bind neutral_lift settles_resumeKind settles_discard settles_neutral rej.neutral_op_axioms)
  moreover have "neutral_op (if t_kind tx = KindRefund \<or> t_kind tx = KindRollback
      then notFoundAsNil (TxFindProcessedReversalByReference (t_id ref)) else ret None)"
    by (intro neutral_intros)
  ultimately show ?thesis unfolding resumeWith_def Let_def using assms
    by (simp add: settles_bind settles_discard settles_neutral rej.neutral_op_axioms)
qed

lemma triple_resume:
  assumes rely: "rely e"
  shows "triple e (inside g (settled g)) (resume_in_tx i) (\<lambda>_. inside g (settled g)) (\<lambda>_. failed g)"
proof -
  have later: "settles e w (bindM timeNow (retryLater tx))" for w tx
    using rely by (intro settles_bind settles_neutral neutral_timeNow retryLater.neutral_op_axioms)
  have later': "neutral_op (bindM timeNow (retryLater tx))" for tx
    by (intro neutral_intros retryLater.neutral_op_axioms)
  have rest: "settles e w (bindM (attempting (TxFindByProviderAndExternalID p x)) (\<lambda>r. case r of
       Inl err \<Rightarrow> if err = PortsErr Ports_ErrNotFound then bindM timeNow (retryLater tx) else throw err
     | Inr reference \<Rightarrow>
         if t_status reference \<noteq> StatusProcessed then bindM timeNow (retryLater tx)
         else bindM timeNow (resumeWith tx w reference)))" for w tx p x
    using rely later later'
    by (intro settles_try_external) (simp_all add: settles_bind neutral_timeNow settles_resumeWith)
  have find: "triple e (inside g (settled g)) (WalletFindByID i) (\<lambda>w. inside g (\<lambda>d. settled g d \<and> seen w d)) (\<lambda>_. failed g)" for i
    by (rule triple_weaken [OF triple_WalletFindByID [OF rely stable_pending [OF rely]]]) (auto elim: inside_weaken)
  show ?thesis
    unfolding resume_in_tx_def
    by (rule txByIDForUpdate.neutral_then [OF rely stable_pending [OF rely] money_pred_intros(2)])
      (intro triple_if triple_ret triple_bind [OF find rest [unfolded settles_def, rule_format]])
qed

lemma triple_ResumePendingReference:
  "rely e \<Longrightarrow> triple e (outside g) (ResumePendingReference i) (\<lambda>_. outside g) (\<lambda>_. outside g)"
  unfolding ResumePendingReference_def UowExecute_def by (intro triple_WithinTx triple_resume)

lemma triple_ExpirePendingReference:
  "rely e \<Longrightarrow> triple e (outside g) (ExpirePendingReference i) (\<lambda>_. outside g) (\<lambda>_. outside g)"
  unfolding ExpirePendingReference_def UowExecute_def
  by (intro triple_WithinTx expire.neutral stable_pending money_pred_intros)

section \<open>Properties\<close>

lemma backoff_facts:
  shows "sint (referenceRetryBackoff n) = (if sint n < 1 then 1000000000
     else if sint n < 5 then 2 ^ nat (sint n) * 1000000000 else 30000000000)"
  and "1000000000 \<le> sint (referenceRetryBackoff n) \<and> sint (referenceRetryBackoff n) \<le> 30000000000"
  and "sint n \<le> sint m \<Longrightarrow> sint (referenceRetryBackoff n) \<le> sint (referenceRetryBackoff m)"
proof -
  have exact: "sint (referenceRetryBackoff n) = (if sint n < 1 then 1000000000
     else if sint n < 5 then 2 ^ nat (sint n) * 1000000000 else 30000000000)" for n
  proof -
    consider "sint n < 1" | "5 < sint n" | "sint n \<in> {1, 2, 3, 4, 5}" by fastforce
    then show ?thesis
    proof cases
      case 3
      then have "n \<in> {1, 2, 3, 4, 5}" by (auto simp: sint64_eq_iff)
      then show ?thesis
        by (auto simp: referenceRetryBackoff_def second_def word_sless_alt Let_def)
    qed (simp_all add: referenceRetryBackoff_def second_def word_sless_alt)
  qed
  have two: "(2::int) ^ nat k \<in> {2, 4, 8, 16}" if "1 \<le> k" "k < 5" for k
  proof -
    from that have "k = 1 \<or> k = 2 \<or> k = 3 \<or> k = 4" by arith
    then show ?thesis by auto
  qed
  have mono: "(2::int) ^ nat k \<le> 2 ^ nat l" if "k \<le> l" for k l
    using that by (intro power_increasing) auto
  show "sint (referenceRetryBackoff n) = (if sint n < 1 then 1000000000
     else if sint n < 5 then 2 ^ nat (sint n) * 1000000000 else 30000000000)" by (rule exact)
  show "1000000000 \<le> sint (referenceRetryBackoff n) \<and> sint (referenceRetryBackoff n) \<le> 30000000000"
    using two [of "sint n"] by (auto simp: exact)
  show "sint (referenceRetryBackoff n) \<le> sint (referenceRetryBackoff m)" if "sint n \<le> sint m"
    using that two [of "sint n"] two [of "sint m"] mono [of "sint n" "sint m"] by (auto simp: exact)
qed

text \<open>C14: The backoff before the next try of a waiting reference is one second for a count below one,
  then two, four, eight and sixteen seconds, and thirty from the fifth retry on: it never falls,
  never leaves the range from one to thirty seconds, and no shift of it wraps around, whatever
  64-bit count is given.\<close>

theorem referenceRetryBackoff_exact:
  "sint (referenceRetryBackoff n) = (if sint n < 1 then 1000000000
     else if sint n < 5 then 2 ^ nat (sint n) * 1000000000 else 30000000000) \<and>
   1000000000 \<le> sint (referenceRetryBackoff n) \<and> sint (referenceRetryBackoff n) \<le> 30000000000 \<and>
   (\<forall>m. sint n \<le> sint m \<longrightarrow> sint (referenceRetryBackoff n) \<le> sint (referenceRetryBackoff m))"
  using backoff_facts by blast

theorem referenceRetryBackoff_exact_witness:
  "sint (referenceRetryBackoff 3) \<le> sint (referenceRetryBackoff 5) \<and> sint (referenceRetryBackoff 3) = 8000000000"
proof -
  have "sint (3 :: int64) \<le> sint (5 :: int64)" "sint (3 :: int64) = 3" by simp_all
  then show ?thesis using referenceRetryBackoff_exact [of 3] by auto
qed

end
