(* ===== verification/Atomicity.thy ===== *)
theory Atomicity
  imports Open_Wallet Reference_Retry
begin

text \<open>
  All or nothing: what runs inside a unit of work touches only its own view, so a unit of work
  that returns an error has committed nothing. The counters of the retry loop are touched by
  the loop alone.
\<close>

section \<open>Frames\<close>

text \<open>No other session commits anything, and no statement takes effect while reporting an error.\<close>

definition alone :: "env \<Rightarrow> bool" where
  "alone e \<longleftrightarrow> (\<forall>n d. interf e n d = d) \<and> (\<forall>n x. fault_at e n \<noteq> FailsAfter x)"

text \<open>
  Code of a transaction: it neither ends the transaction nor publishes anything; the contract of
  the functions given to the unit of work. Most of it leaves the counters alone as well.
\<close>

locale session_frame =
  fixes m :: "'a io"
  assumes local: "alone e \<Longrightarrow> session w \<noteq> None \<Longrightarrow> \<not> snapshot w \<Longrightarrow>
      session (snd (m e w)) \<noteq> None \<and> \<not> snapshot (snd (m e w)) \<and> committed (snd (m e w)) = committed w"
begin

lemma uow_atomic:
  assumes e: "alone e" and w: "session w = None" "\<not> snapshot w"
    and r: "WithinTx m e w = (Inl x, w')"
  shows "committed w' = committed w \<and> session w' = None \<and> \<not> snapshot w'"
proof -
  let ?w2 = "(interfere e w)\<lparr>session := Some (committed (interfere e w)), snapshot := False, tx_start := db_clock e (ticks w)\<rparr>"
  have i: "committed (interfere e v) = committed v" "session (interfere e v) = session v"
      "snapshot (interfere e v) = snapshot v" for v
    using e by (cases "session v"; simp add: alone_def interfere_def)+
  obtain q w3 where m: "m e ?w2 = (q, w3)" by fastforce
  have w3: "session w3 \<noteq> None \<and> \<not> snapshot w3 \<and> committed w3 = committed w"
    using local [of e ?w2] e m i by simp
  show ?thesis
  proof (cases "fault_at e (ticks w)")
    case NoFault
    then show ?thesis using r m w3 e i
      by (cases q)
        (auto simp: WithinTx_def in_tx_def bindM_apply begin_tx_def Let_def commit_tx_def end_tx_def alone_def
          split: fault.splits)
  next
    case (Fails y)
    then show ?thesis using r w i by (auto simp: WithinTx_def in_tx_def bindM_apply begin_tx_def Let_def)
  next
    case (FailsAfter y)
    then show ?thesis using e by (simp add: alone_def)
  qed
qed

lemma uow_returns_outside:
  assumes e: "alone e" and w: "session w = None" "\<not> snapshot w"
  shows "session (snd (WithinTx m e w)) = None \<and> \<not> snapshot (snd (WithinTx m e w))"
proof -
  let ?w2 = "(interfere e w)\<lparr>session := Some (committed (interfere e w)), snapshot := False, tx_start := db_clock e (ticks w)\<rparr>"
  have i: "committed (interfere e v) = committed v" "session (interfere e v) = session v"
      "snapshot (interfere e v) = snapshot v" for v
    using e by (cases "session v"; simp add: alone_def interfere_def)+
  obtain q w3 where m: "m e ?w2 = (q, w3)" by fastforce
  have w3: "session w3 \<noteq> None \<and> \<not> snapshot w3" using local [of e ?w2] e m by simp
  show ?thesis using m w3 i w
    by (cases "fault_at e (ticks w)"; cases q)
      (auto simp: WithinTx_def in_tx_def bindM_apply begin_tx_def Let_def commit_tx_def end_tx_def
        publish_def ret_def split: fault.split option.split)
qed

end

locale session_local = session_frame m for m :: "'a io" +
  assumes counts: "counters (snd (m e w)) = counters w"
begin

lemma uow_counts: "counters (snd (WithinTx m e w)) = counters w"
proof -
  let ?w2 = "(interfere e w)\<lparr>session := Some (committed (interfere e w)), snapshot := False, tx_start := db_clock e (ticks w)\<rparr>"
  have i: "counters (interfere e v) = counters v" for v by (simp add: interfere_def)
  obtain q w3 where m: "m e ?w2 = (q, w3)" by fastforce
  have "counters w3 = counters w" using counts [of e ?w2] m i by simp
  then show ?thesis using m i
    by (cases "fault_at e (ticks w)"; cases q)
      (auto simp: WithinTx_def in_tx_def bindM_apply begin_tx_def Let_def commit_tx_def end_tx_def
        publish_def ret_def split: fault.split option.split)
qed

end

lemmas session_local_unfold = session_local_def session_frame_def session_local_axioms_def

lemma local_frame: "session_local m \<Longrightarrow> session_frame m"
  by (rule session_local.axioms(1))

named_theorems frame_intros

lemma frame_bind [frame_intros]:
  assumes m: "session_frame m" and k: "\<And>a. session_frame (k a)"
  shows "session_frame (bindM m k)"
proof
  fix e w
  obtain r w1 where r: "m e w = (r, w1)" by fastforce
  assume e: "alone e" "session w \<noteq> None" "\<not> snapshot w"
  note lm = session_frame.local [OF m e]
  then show "session (snd (bindM m k e w)) \<noteq> None \<and> \<not> snapshot (snd (bindM m k e w)) \<and>
      committed (snd (bindM m k e w)) = committed w"
    using session_frame.local [OF k e(1), of w1] r by (cases r) (simp_all add: bindM_apply)
qed

lemma frame_count [frame_intros]: "session_frame (count f)"
  by (simp add: session_frame_def count_def)

lemma frame_attempting [frame_intros]: "session_frame m \<Longrightarrow> session_frame (attempting m)"
  by (simp add: session_frame_def attempting_apply split_beta)

lemma frame_if [frame_intros]: "session_frame m \<Longrightarrow> session_frame n \<Longrightarrow> session_frame (if b then m else n)"
  by simp

lemma frame_sum [frame_intros]:
  "(\<And>x. session_frame (f x)) \<Longrightarrow> (\<And>x. session_frame (k x)) \<Longrightarrow> session_frame (case r of Inl x \<Rightarrow> f x | Inr x \<Rightarrow> k x)"
  by (cases r) simp_all

named_theorems local_intros

lemma local_ret [local_intros]: "session_local (ret x)"
  and local_throw [local_intros]: "session_local (throw y)"
  and local_lift [local_intros]: "session_local (lift r)"
  and local_NewID [local_intros]: "session_local NewID"
  and local_timeNow [local_intros]: "session_local timeNow"
  by (simp_all add: session_local_unfold NewID_def timeNow_def)

lemma local_stmt [local_intros]: "session_local (stmt s)"
proof
  fix e w
  show "counters (snd (stmt s e w)) = counters w"
    by (auto simp: stmt_def Let_def put_view_def interfere_def split: fault.split sum.split option.split)
  assume "alone e" "session w \<noteq> None" "\<not> snapshot w"
  then show "session (snd (stmt s e w)) \<noteq> None \<and> \<not> snapshot (snd (stmt s e w)) \<and> committed (snd (stmt s e w)) = committed w"
    by (auto simp: stmt_def Let_def put_view_def interfere_def alone_def split: fault.split sum.split option.split)
qed

lemma local_query [local_intros]: "session_local (query q)"
  unfolding query_def by (rule local_stmt)

lemma local_bind [local_intros]:
  assumes m: "session_local m" and k: "\<And>a. session_local (k a)"
  shows "session_local (bindM m k)"
proof (intro session_local.intro session_local_axioms.intro)
  show "session_frame (bindM m k)" using m k by (intro frame_bind local_frame)
  fix e w
  obtain r w1 where r: "m e w = (r, w1)" by fastforce
  show "counters (snd (bindM m k e w)) = counters w"
    using session_local.counts [OF m, of e w] session_local.counts [OF k, of _ e w1] r
    by (cases r) (simp_all add: bindM_apply)
qed

lemma local_attempting [local_intros]: "session_local m \<Longrightarrow> session_local (attempting m)"
  by (simp add: session_local_unfold attempting_apply split_beta)

lemma local_unique [local_intros]: "session_local m \<Longrightarrow> session_local (unique_as_exists m)"
  by (auto simp: session_local_unfold unique_as_exists_def split_beta
      split: sum.split go_error.split pg_err.split)

lemma local_if [local_intros]: "(b \<Longrightarrow> session_local m) \<Longrightarrow> (\<not> b \<Longrightarrow> session_local n) \<Longrightarrow> session_local (if b then m else n)"
  by simp

lemma local_option [local_intros]:
  "session_local m \<Longrightarrow> (\<And>x. session_local (k x)) \<Longrightarrow> session_local (case opt of None \<Rightarrow> m | Some x \<Rightarrow> k x)"
  by (cases opt) simp_all

lemma local_sum [local_intros]:
  "(\<And>x. session_local (f x)) \<Longrightarrow> (\<And>x. session_local (k x)) \<Longrightarrow> session_local (case r of Inl x \<Rightarrow> f x | Inr x \<Rightarrow> k x)"
  by (cases r) simp_all

lemma local_prod [local_intros]:
  "(\<And>x y. session_local (k x y)) \<Longrightarrow> session_local (case p of (x, y) \<Rightarrow> k x y)"
  by (cases p) simp

lemma local_Kind [local_intros]:
  "session_local a \<Longrightarrow> session_local b \<Longrightarrow> session_local c \<Longrightarrow> session_local d \<Longrightarrow> session_local f \<Longrightarrow>
   session_local g \<Longrightarrow> (\<And>s. session_local (h s)) \<Longrightarrow>
   session_local (case k of KindBet \<Rightarrow> a | KindWin \<Rightarrow> b | KindLoss \<Rightarrow> c | KindRefund \<Rightarrow> d | KindRollback \<Rightarrow> f
     | KindOpening \<Rightarrow> g | KindOther s \<Rightarrow> h s)"
  by (cases k) simp_all

lemmas repository_defs = WalletFindByID_def WalletFindByPlayerAndCurrency_def WalletCreate_def WalletSave_def
  TxFindByIDForUpdate_def TxFindByProviderAndExternalID_def TxFindByIdempotencyKey_def
  TxFindProcessedReversalByReference_def TxCreate_def TxUpdate_def LedgerCreate_def OutboxCreate_def

lemma local_repositories [local_intros]:
  "session_local (WalletFindByID i)" "session_local (WalletCreate wl)" "session_local (WalletSave wl v)"
  "session_local (TxFindByIDForUpdate i)" "session_local (TxFindByProviderAndExternalID p x)"
  "session_local (TxFindByIdempotencyKey k)" "session_local (TxFindProcessedReversalByReference i)"
  "session_local (TxCreate t)" "session_local (TxUpdate t)" "session_local (LedgerCreate en)"
  "session_local (OutboxCreate ev)"
  unfolding repository_defs by (intro local_intros)+

lemma local_parts [local_intros]:
  "finder m \<Longrightarrow> session_local m \<Longrightarrow> session_local (notFoundAsNil m)"
  "session_local (replayOutput tx)"
  "session_local (reject tx wl fc now c)"
  "session_local (pendingReference tx wl now c)"
  "session_local (settle tx wl v b dir a now c)"
  "session_local (settleLoss inp tx wl now c)"
  "session_local (retryLater tx now)"
  unfolding notFoundAsNil_def replayOutput_def reject_def pendingReference_def settle_def settled_events_def
    settleLoss_def retryLater_def
  by (intro local_intros; simp)+

lemma local_moves [local_intros]:
  "session_local (debitAndSettle tx wl a fc now c)"
  "session_local (creditAndSettle tx wl a now c)"
  unfolding debitAndSettle_def creditAndSettle_def by (intro local_intros)+

lemma local_resolveExisting [local_intros]: "session_local (resolveExisting inp hash)"
  unfolding resolveExisting_def by (intro local_intros txByKey.finder_axioms txByExternal.finder_axioms)

lemma local_applyKind [local_intros]: "session_local (applyKind inp kind tx wl ref now c)"
  unfolding applyKind_def by (intro local_intros)

lemma local_withReference [local_intros]: "session_local (withReference inp kind tx wl ref now c)"
  unfolding withReference_def by (intro local_intros txReversal.finder_axioms)

interpretation attemptTx: session_local "attempt inp kind hash" for inp kind hash
  unfolding attempt_def resolveAndApply_def by (intro local_intros)

interpretation openTx: session_local "open_in_tx inp wl now" for inp wl now
  unfolding open_in_tx_def opening_events_def by (intro local_intros)

interpretation resumeTx: session_local "resume_in_tx i" for i
  unfolding resume_in_tx_def resumeWith_def resumeKind_def discard_def Let_def
  by (intro local_intros txReversal.finder_axioms)

interpretation expireTx: session_local "expire_in_tx i" for i
  unfolding expire_in_tx_def by (intro local_intros)

end
