(* ===== verification/Retry_Loop.thy ===== *)
theory Retry_Loop
  imports Atomicity
begin

text \<open>
  The loop of \<open>Execute\<close>: what it commits, what it counts and when it gives up; and the units of
  work of the other use cases.
\<close>

lemma countIf_apply: "countIf uc f e w = (Inr (), if uc_metrics uc then w\<lparr>counters := f (counters w)\<rparr> else w)"
  by (simp add: countIf_def count_def)

lemma recordOutcome_apply:
  "recordOutcome uc kind out e w = (Inr (), if uc_metrics uc then w\<lparr>counters := (counters w)\<lparr>
     WagerTransactionsTotal := WagerTransactionsTotal (counters w) @ [(out_Status out, Kind_str kind)],
     IdempotentReplaysTotal := IdempotentReplaysTotal (counters w) + (if out_IdempotentReplay out then 1 else 0)\<rparr>\<rparr> else w)"
  by (simp add: recordOutcome_def countIf_apply)

section \<open>Nothing committed by a failure\<close>

lemma executeLoop_atomic:
  assumes e: "alone e" and "session w = None" "\<not> snapshot w"
    and "executeLoop uc n inp kind hash e w = (Inl x, w')"
  shows "committed w' = committed w"
  using assms(2-)
proof (induction n arbitrary: w)
  case 0
  then show ?case by (auto simp: bindM_apply countIf_apply split: if_splits)
next
  case (Suc n)
  obtain r w1 where r: "WithinTx (attempt inp kind hash) e w = (r, w1)" by fastforce
  note out = attemptTx.uow_returns_outside [OF e Suc.prems(1,2), of inp kind hash]
  show ?case
  proof (cases r)
    case (Inl y)
    with attemptTx.uow_atomic [OF e Suc.prems(1,2)] r
    have w1: "committed w1 = committed w" "session w1 = None" "\<not> snapshot w1" by auto
    let ?w2 = "if uc_metrics uc then w1\<lparr>counters := (counters w1)\<lparr>OptimisticLockRetriesTotal :=
        OptimisticLockRetriesTotal (counters w1) + 1\<rparr>\<rparr> else w1"
    show ?thesis
    proof (cases "retryable y")
      case True
      then have "executeLoop uc n inp kind hash e ?w2 = (Inl x, w')"
        using Suc.prems(3) r Inl by (simp add: bindM_apply attempting_apply UowExecute_def countIf_apply split: if_splits)
      from Suc.IH [OF _ _ this] w1 show ?thesis by (simp split: if_splits)
    next
      case False
      then show ?thesis using Suc.prems(3) r Inl w1 by (simp add: bindM_apply attempting_apply UowExecute_def)
    qed
  next
    case (Inr out)
    then show ?thesis
      using Suc.prems(3) r by (simp add: bindM_apply attempting_apply UowExecute_def recordOutcome_apply)
  qed
qed

lemma Execute_loop:
  "Execute uc inp e w =
     (if supportedKind (Kind_of (in_Kind inp))
      then (case inputHash uc inp of Inl x \<Rightarrow> (Inl x, w)
        | Inr h \<Rightarrow> executeLoop uc (uc_maxRetries uc) inp (Kind_of (in_Kind inp)) h e w)
      else (Inl (UsecaseErr Usecase_ErrUnsupportedKind), w))"
  by (simp add: Execute_def Let_def bindM_apply split: sum.split)

lemma inputHash_Inr: "\<exists>h. inputHash uc inp = Inr h"
  by (simp add: inputHash_def computePayloadHash_def)

lemma OpenWallet_atomic:
  assumes e: "alone e" and w: "session w = None" "\<not> snapshot w"
    and r: "OpenWalletExecute inp e w = (Inl x, w')"
  shows "committed w' = committed w"
proof -
  let ?now = "clock e (clocks w)"
  let ?w1 = "w\<lparr>clocks := Suc (clocks w), ids := Suc (ids w)\<rparr>"
  let ?new = "NewWallet (new_id e (ids w)) (ow_PlayerID inp) (ow_InitialBalance inp) ?now"
  show ?thesis
  proof (cases ?new)
    case (Inl y)
    then show ?thesis using r by (auto simp: OpenWalletExecute_def bindM_apply timeNow_def NewID_def)
  next
    case (Inr wl)
    obtain q w2 where q: "WithinTx (open_in_tx inp wl ?now) e ?w1 = (q, w2)" by fastforce
    then obtain y where y: "q = Inl y" "w' = w2"
      using r Inr by (cases q) (auto simp: OpenWalletExecute_def bindM_apply timeNow_def NewID_def attempting_apply
          UowExecute_def split: if_splits)
    have "committed w2 = committed ?w1 \<and> session w2 = None \<and> \<not> snapshot w2"
      by (rule openTx.uow_atomic [OF e _ _ q [unfolded y(1)]]) (simp_all add: w)
    then show ?thesis using y by simp
  qed
qed

section \<open>Retry accounting\<close>

lemma executeLoop_counts:
  assumes "uc_metrics uc" "executeLoop uc n inp kind hash e w = (r, w')"
  shows "OptimisticLockRetriesTotal (counters w') \<le> OptimisticLockRetriesTotal (counters w) + n \<and>
    TooManyRetriesTotal (counters w') = TooManyRetriesTotal (counters w) +
      (if OptimisticLockRetriesTotal (counters w') = OptimisticLockRetriesTotal (counters w) + n then 1 else 0) \<and>
    OptimisticLockRetriesTotal (counters w) \<le> OptimisticLockRetriesTotal (counters w') \<and>
    (OptimisticLockRetriesTotal (counters w') = OptimisticLockRetriesTotal (counters w) + n \<longrightarrow>
      r = Inl (UsecaseErr Usecase_ErrTooManyRetries)) \<and>
    WagerTransactionsTotal (counters w') = WagerTransactionsTotal (counters w) @
      (case r of Inr out \<Rightarrow> [(out_Status out, Kind_str kind)] | Inl _ \<Rightarrow> [])"
  using assms(2)
proof (induction n arbitrary: w)
  case 0
  then show ?case using assms(1) by (auto simp: bindM_apply countIf_apply)
next
  case (Suc n)
  obtain q w1 where q: "WithinTx (attempt inp kind hash) e w = (q, w1)" by fastforce
  have w1: "counters w1 = counters w" using attemptTx.uow_counts [of inp kind hash e w] q by simp
  show ?case
  proof (cases q)
    case (Inr out)
    then show ?thesis using Suc.prems q w1 assms(1)
      by (auto simp: bindM_apply attempting_apply UowExecute_def recordOutcome_apply)
  next
    case (Inl y)
    show ?thesis
    proof (cases "retryable y")
      case True
      let ?w2 = "w1\<lparr>counters := (counters w1)\<lparr>OptimisticLockRetriesTotal := OptimisticLockRetriesTotal (counters w1) + 1\<rparr>\<rparr>"
      have "executeLoop uc n inp kind hash e ?w2 = (r, w')"
        using Suc.prems q Inl True assms(1)
        by (simp add: bindM_apply attempting_apply UowExecute_def countIf_apply)
      from Suc.IH [OF this] w1 show ?thesis by simp
    next
      case False
      then show ?thesis using Suc.prems q Inl w1 by (auto simp: bindM_apply attempting_apply UowExecute_def)
    qed
  qed
qed

lemma executeLoop_not_retryable:
  "executeLoop uc n inp kind hash e w = (Inl x, w') \<Longrightarrow> \<not> retryable x"
proof (induction n arbitrary: w)
  case 0
  then show ?case by (auto simp: bindM_apply countIf_apply retryable_def)
next
  case (Suc n)
  obtain q w1 where q: "WithinTx (attempt inp kind hash) e w = (q, w1)" by fastforce
  then show ?case
    using Suc.prems Suc.IH
    by (cases q) (auto simp: bindM_apply attempting_apply UowExecute_def countIf_apply recordOutcome_apply split: if_splits)
qed

section \<open>Properties\<close>

lemma failed_call_facts:
  assumes "alone e" "session w = None" "\<not> snapshot w"
  shows "Execute uc inp e w = (Inl x, w') \<Longrightarrow> committed w' = committed w"
    and "OpenWalletExecute oinp e w = (Inl x, w') \<Longrightarrow> committed w' = committed w"
    and "ResumePendingReference i e w = (Inl x, w') \<Longrightarrow> committed w' = committed w"
    and "ExpirePendingReference i e w = (Inl x, w') \<Longrightarrow> committed w' = committed w"
proof -
  show "committed w' = committed w" if "Execute uc inp e w = (Inl x, w')"
    using that executeLoop_atomic [OF assms] by (auto simp: Execute_loop split: if_splits sum.splits)
  show "committed w' = committed w" if "ResumePendingReference i e w = (Inl x, w')"
    using that resumeTx.uow_atomic [OF assms] by (simp add: ResumePendingReference_def UowExecute_def)
  show "committed w' = committed w" if "ExpirePendingReference i e w = (Inl x, w')"
    using that expireTx.uow_atomic [OF assms] by (simp add: ExpirePendingReference_def UowExecute_def)
  show "committed w' = committed w" if "OpenWalletExecute oinp e w = (Inl x, w')"
    using that OpenWallet_atomic [OF assms] by blast
qed

text \<open>C6: A call that reports an error has committed nothing: neither \<open>Execute\<close> after all its
  retries, nor opening a wallet, nor resuming or expiring a waiting transaction. Statements and
  the commit itself may fail at any point; what is excluded is a failure reported after it took
  effect, which no client can see, and commits of other sessions.\<close>

theorem failed_call_commits_nothing:
  assumes "alone e" "session w = None" "\<not> snapshot w"
  shows "(\<forall>x w'. Execute uc inp e w = (Inl x, w') \<longrightarrow> committed w' = committed w) \<and>
    (\<forall>x w'. OpenWalletExecute oinp e w = (Inl x, w') \<longrightarrow> committed w' = committed w) \<and>
    (\<forall>x w'. ResumePendingReference i e w = (Inl x, w') \<longrightarrow> committed w' = committed w) \<and>
    (\<forall>x w'. ExpirePendingReference i e w = (Inl x, w') \<longrightarrow> committed w' = committed w)"
  using failed_call_facts [OF assms] by blast

definition failing_env :: env where
  "failing_env = sample_env\<lparr>fault_at := \<lambda>n. if n = 9 then Fails InfraUnavailable else NoFault\<rparr>"

text \<open>The connection is lost in the middle of the settlement of a bet.\<close>

theorem failed_call_commits_nothing_witness:
  "committed (snd (Execute sample_uc (sample_bet ''k1'' 8000) failing_env (world_of sample_db))) = sample_db"
proof -
  let ?res = "Execute sample_uc (sample_bet ''k1'' 8000) failing_env (world_of sample_db)"
  have "fst ?res = Inl (InfraErr InfraUnavailable)" by code_simp
  then have "?res = (Inl (InfraErr InfraUnavailable), snd ?res)" by (cases ?res) simp
  moreover have "alone failing_env" by (simp add: alone_def failing_env_def sample_env_def)
  ultimately have "committed (snd ?res) = committed (world_of sample_db)"
    using failed_call_commits_nothing [of failing_env "world_of sample_db" sample_uc "sample_bet ''k1'' 8000"]
    by (simp add: world_of_def)
  then show ?thesis by (simp add: world_of_def)
qed

lemma retries_facts:
  assumes "uc_metrics uc" "supportedKind (Kind_of (in_Kind inp))" "Execute uc inp e w = (r, w')"
  defines "retries \<equiv> OptimisticLockRetriesTotal (counters w') - OptimisticLockRetriesTotal (counters w)"
  shows "OptimisticLockRetriesTotal (counters w) \<le> OptimisticLockRetriesTotal (counters w')"
    and "retries \<le> uc_maxRetries uc"
    and "TooManyRetriesTotal (counters w') = TooManyRetriesTotal (counters w) + (if retries = uc_maxRetries uc then 1 else 0)"
    and "retries = uc_maxRetries uc \<Longrightarrow> r = Inl (UsecaseErr Usecase_ErrTooManyRetries)"
    and "r = Inl x \<Longrightarrow> \<not> retryable x"
    and "WagerTransactionsTotal (counters w') = WagerTransactionsTotal (counters w) @
      (case r of Inr out \<Rightarrow> [(out_Status out, in_Kind inp)] | Inl _ \<Rightarrow> [])"
proof -
  obtain h where h: "inputHash uc inp = Inr h" using inputHash_Inr by blast
  then have loop: "executeLoop uc (uc_maxRetries uc) inp (Kind_of (in_Kind inp)) h e w = (r, w')"
    using assms(2,3) by (simp add: Execute_loop)
  note counts = executeLoop_counts [OF assms(1) loop]
  show "OptimisticLockRetriesTotal (counters w) \<le> OptimisticLockRetriesTotal (counters w')"
    "retries \<le> uc_maxRetries uc"
    "TooManyRetriesTotal (counters w') = TooManyRetriesTotal (counters w) + (if retries = uc_maxRetries uc then 1 else 0)"
    "WagerTransactionsTotal (counters w') = WagerTransactionsTotal (counters w) @
      (case r of Inr out \<Rightarrow> [(out_Status out, in_Kind inp)] | Inl _ \<Rightarrow> [])"
    using counts by (auto simp: retries_def split: if_splits sum.split)
  show "r = Inl (UsecaseErr Usecase_ErrTooManyRetries)" if "retries = uc_maxRetries uc"
  proof -
    have "OptimisticLockRetriesTotal (counters w') = OptimisticLockRetriesTotal (counters w) + uc_maxRetries uc"
      using counts that unfolding retries_def by linarith
    with counts show ?thesis by blast
  qed
  show "\<not> retryable x" if "r = Inl x" using executeLoop_not_retryable loop that by blast
qed

text \<open>C7: \<open>Execute\<close> ends after at most \<open>maxRetries\<close> attempts: it counts a retry per absorbed
  optimistic-lock or duplicate error and never more than the limit, counts an exhaustion exactly
  when the limit is used up and then reports \<open>ErrTooManyRetries\<close>, never lets a retryable error
  escape to its caller, and counts an outcome exactly when it returns one.\<close>

theorem Execute_retries_bounded:
  assumes "uc_metrics uc" "supportedKind (Kind_of (in_Kind inp))" "Execute uc inp e w = (r, w')"
  defines "retries \<equiv> OptimisticLockRetriesTotal (counters w') - OptimisticLockRetriesTotal (counters w)"
  shows "OptimisticLockRetriesTotal (counters w) \<le> OptimisticLockRetriesTotal (counters w') \<and>
    retries \<le> uc_maxRetries uc \<and>
    TooManyRetriesTotal (counters w') = TooManyRetriesTotal (counters w) + (if retries = uc_maxRetries uc then 1 else 0) \<and>
    (retries = uc_maxRetries uc \<longrightarrow> r = Inl (UsecaseErr Usecase_ErrTooManyRetries)) \<and>
    (\<forall>x. r = Inl x \<longrightarrow> \<not> retryable x) \<and>
    WagerTransactionsTotal (counters w') = WagerTransactionsTotal (counters w) @
      (case r of Inr out \<Rightarrow> [(out_Status out, in_Kind inp)] | Inl _ \<Rightarrow> [])"
  using retries_facts [OF assms(1-3)] unfolding retries_def by blast

text \<open>Another session moves the wallet before every save: five attempts, then the limit.\<close>

definition busy_env :: env where
  "busy_env = sample_env\<lparr>interf := \<lambda>n d. d\<lparr>wallets := map (\<lambda>r. r\<lparr>wr_version := wr_version r + 1\<rparr>) (wallets d)\<rparr>\<rparr>"

theorem Execute_retries_bounded_witness:
  "TooManyRetriesTotal (counters (snd (Execute sample_uc (sample_bet ''k1'' 8000) busy_env (world_of sample_db)))) = 1"
proof -
  let ?res = "Execute sample_uc (sample_bet ''k1'' 8000) busy_env (world_of sample_db)"
  have "OptimisticLockRetriesTotal (counters (snd ?res)) = 5" by code_simp
  moreover have "?res = (fst ?res, snd ?res)" by simp
  note Execute_retries_bounded [OF _ _ this]
  ultimately show ?thesis
    by (simp add: sample_uc_def NewProcessWagerTransaction_def sample_bet_def supportedKind_def Kind_of_def
        world_of_def no_counts_def)
qed

end
