(* ===== verification/Replay.thy ===== *)
theory Replay
  imports Retry_Loop
begin

text \<open>
  Idempotency: what an attempt that succeeds leaves behind under its idempotency key, and that a
  second \<open>Execute\<close> of the same request answers from it. Here no other session runs and no
  statement fails.
\<close>

definition quiet :: "env \<Rightarrow> bool" where
  "quiet e \<longleftrightarrow> (\<forall>n d. interf e n d = d) \<and> (\<forall>n. fault_at e n = NoFault)"

lemma quiet_alone: "quiet e \<Longrightarrow> alone e"
  by (simp add: quiet_def alone_def)

lemma quiet_interfere [simp]: "quiet e \<Longrightarrow> interfere e w = w\<lparr>ticks := Suc (ticks w)\<rparr>"
  by (cases "session w") (simp_all add: quiet_def interfere_def)

lemma quiet_fault [simp]: "quiet e \<Longrightarrow> fault_at e n = NoFault"
  by (simp add: quiet_def)

text \<open>In a transaction on \<open>c\<close> whose view satisfies \<open>p\<close>.\<close>

definition viewing :: "db \<Rightarrow> (db \<Rightarrow> bool) \<Rightarrow> world \<Rightarrow> bool" where
  "viewing c p w \<longleftrightarrow> \<not> snapshot w \<and> committed w = c \<and> (\<exists>d. session w = Some d \<and> p d)"

abbreviation anyhow :: "go_error \<Rightarrow> world \<Rightarrow> bool" where
  "anyhow \<equiv> \<lambda>_ _. True"

lemma viewing_weaken: "viewing c p w \<Longrightarrow> (\<And>d. p d \<Longrightarrow> q d) \<Longrightarrow> viewing c q w"
  by (auto simp: viewing_def)

lemma quiet_stmt:
  assumes "quiet e" "\<And>now d a d'. p d \<Longrightarrow> s now d = Inr (a, d') \<Longrightarrow> q a d'"
  shows "triple e (viewing c p) (stmt s) (\<lambda>a. viewing c (q a)) anyhow"
  using assms by (fastforce simp: triple_def viewing_def stmt_def Let_def view_def put_view_def split: sum.split)

lemma quiet_query:
  assumes "quiet e" "\<And>now d. p d \<Longrightarrow> r (q now d) d"
  shows "triple e (viewing c p) (query q) (\<lambda>a. viewing c (r a)) anyhow"
  unfolding query_def using assms by (intro quiet_stmt) auto

lemma viewing_NewID: "triple e (viewing c p) NewID (\<lambda>_. viewing c p) R"
  and viewing_timeNow: "triple e (viewing c p) timeNow (\<lambda>_. viewing c p) R"
  by (simp_all add: triple_def NewID_def timeNow_def viewing_def)

lemma viewing_unique: "triple e P m Q anyhow \<Longrightarrow> triple e P (unique_as_exists m) Q anyhow"
  by (rule triple_unique_as_exists)

lemma viewing_then:
  assumes "triple e (viewing c p) m (\<lambda>_. viewing c p) anyhow" "\<And>a. triple e (viewing c p) (k a) Q anyhow"
  shows "triple e (viewing c p) (bindM m k) Q anyhow"
  using assms by (rule triple_bind)

lemma viewing_lift:
  "(\<And>a. r = Inr a \<Longrightarrow> triple e (viewing c p) (k a) Q anyhow) \<Longrightarrow> triple e (viewing c p) (bindM (lift r) k) Q anyhow"
  by (cases r) (simp_all add: triple_def bindM_apply)

section \<open>The row under a key\<close>

definition row_of_key :: "string \<Rightarrow> tx_row list \<Rightarrow> tx_row option" where
  "row_of_key key ts = find (\<lambda>r. xr_key r = Some key) ts"

text \<open>The row is that of \<open>t\<close>, or of an earlier stage of \<open>t\<close>.\<close>

definition stored :: "string \<Rightarrow> WagerTransaction \<Rightarrow> tx_row list \<Rightarrow> bool" where
  "stored key t ts \<longleftrightarrow> row_of_key key ts = Some (tx_to_row t)"

definition held :: "string \<Rightarrow> WagerTransaction \<Rightarrow> tx_row list \<Rightarrow> bool" where
  "held key t ts \<longleftrightarrow> (\<exists>t0. tx_identity t0 = tx_identity t \<and> stored key t0 ts)"

lemma stored_held: "stored key t ts \<Longrightarrow> held key t ts"
  by (auto simp: held_def)

lemma held_same: "tx_identity t' = tx_identity t \<Longrightarrow> held key t' = held key t"
  by (simp add: held_def fun_eq_iff)

lemma find_map_same: "(\<And>r. P (g r) = P r) \<Longrightarrow> find P (map g rs) = map_option g (find P rs)"
  by (induction rs) auto

lemma find_append_none: "find P rs = None \<Longrightarrow> find P (rs @ [r]) = (if P r then Some r else None)"
  by (induction rs) auto

lemma quiet_TxUpdate:
  assumes "quiet e" and same: "tx_identity t' = tx_identity t"
  shows "triple e (viewing c (\<lambda>d. held key t (txs d) \<and> P (wallets d))) (TxUpdate t')
    (\<lambda>_. viewing c (\<lambda>d. stored key t' (txs d) \<and> P (wallets d))) anyhow"
  unfolding TxUpdate_def
proof (rule triple_bind, rule quiet_stmt [OF assms(1)])
  fix now d n d'
  assume p: "held key t (txs d) \<and> P (wallets d)"
    and up: "update_tx (\<lambda>r. xr_id r = t_id t') (tx_update_row t') d = Inr (n, d')"
  let ?g = "\<lambda>r. if xr_id r = t_id t' then tx_update_row t' r else r"
  have d': "d' = d\<lparr>txs := map ?g (txs d)\<rparr>" using up by (auto simp: update_tx_def bindE_Inr_iff update_row_Inr_iff)
  obtain t0 where t0: "tx_identity t0 = tx_identity t" "stored key t0 (txs d)" using p by (auto simp: held_def)
  have key: "(xr_key (?g r) = Some key) = (xr_key r = Some key)" for r by (simp add: tx_update_row_def)
  have "find (\<lambda>r. xr_key r = Some key) (map ?g (txs d)) = map_option ?g (find (\<lambda>r. xr_key r = Some key) (txs d))"
    by (rule find_map_same) (rule key)
  moreover have same0: "tx_identity t' = tx_identity t0" using same t0(1) by simp
  then have "t_id t' = t_id t0" by (simp add: tx_identity_def)
  then have "?g (tx_to_row t0) = tx_to_row t'" using tx_update_as_insert [OF same0] by (simp add: tx_to_row_def)
  ultimately have "stored key t' (txs d')" using t0(2) by (simp add: stored_def row_of_key_def d')
  then show "stored key t' (txs d') \<and> P (wallets d')" using p by (simp add: d')
next
  fix n :: nat
  show "triple e (viewing c (\<lambda>d. stored key t' (txs d) \<and> P (wallets d)))
      (if n = 0 then throw (PortsErr Ports_ErrNotFound) else ret ())
      (\<lambda>_. viewing c (\<lambda>d. stored key t' (txs d) \<and> P (wallets d))) anyhow"
    by (intro triple_rules) simp_all
qed

lemma quiet_OutboxCreate:
  assumes "quiet e"
  shows "triple e (viewing c (\<lambda>d. P (txs d) (wallets d))) (OutboxCreate ev)
    (\<lambda>_. viewing c (\<lambda>d. P (txs d) (wallets d))) anyhow"
  unfolding OutboxCreate_def
  by (rule viewing_lift, rule viewing_unique, rule quiet_stmt [OF assms])
    (auto simp: insert_outbox_def bindE_Inr_iff)

lemma quiet_WalletSave:
  assumes "quiet e"
  shows "triple e (viewing c (\<lambda>d. P (txs d))) (WalletSave w v) (\<lambda>_. viewing c (\<lambda>d. P (txs d))) anyhow"
  unfolding WalletSave_def
  by (rule viewing_then, rule quiet_stmt [OF assms])
    (auto simp: update_wallet_def bindE_Inr_iff intro!: triple_rules)

lemma quiet_LedgerCreate:
  assumes "quiet e"
  shows "triple e (viewing c (\<lambda>d. P (txs d))) (LedgerCreate en) (\<lambda>_. viewing c (\<lambda>d. P (txs d))) anyhow"
  unfolding LedgerCreate_def
  by (rule viewing_unique, rule quiet_stmt [OF assms]) (auto simp: insert_entry_def bindE_Inr_iff)

lemma quiet_TxCreate:
  assumes "quiet e" and key: "t_idempotencyKey t = key" "key \<noteq> []"
  shows "triple e (viewing c (\<lambda>d. P (wallets d))) (TxCreate t)
    (\<lambda>_. viewing c (\<lambda>d. held key t (txs d) \<and> P (wallets d))) anyhow"
  unfolding TxCreate_def
proof (rule viewing_unique, rule quiet_stmt [OF assms(1)])
  fix now d a d'
  assume p: "P (wallets d)" and i: "insert_tx (tx_to_row t) d = Inr (a, d')"
  then have d': "d' = d\<lparr>txs := txs d @ [tx_to_row t]\<rparr>" and no: "\<not> list_ex (tx_clash (tx_to_row t)) (txs d)"
    by (auto simp: insert_tx_def bindE_Inr_iff insert_row_Inr_iff)
  have k: "xr_key (tx_to_row t) = Some key" using key by (simp add: tx_to_row_def)
  have "find (\<lambda>r. xr_key r = Some key) (txs d) = None"
    using no k by (auto simp: find_None_iff list_ex_iff tx_clash_def same_key_def)
  from find_append_none [OF this, of "tx_to_row t"] show "held key t (txs d') \<and> P (wallets d')"
    using k p by (auto simp: d' stored_def row_of_key_def intro: stored_held)
qed

section \<open>What a success leaves\<close>

text \<open>\<open>out\<close> is what \<open>replayOutput\<close> would say of the transaction, up to the replay flag.\<close>

definition answers :: "WagerTransaction \<Rightarrow> ProcessOutput \<Rightarrow> wallet_row list \<Rightarrow> bool" where
  "answers t out ws \<longleftrightarrow> out_TransactionID out = t_id t \<and> out_Status out = Status_str (t_status t) \<and>
     out_FailureCode out = t_failureCode t \<and>
     (case t_financialResult t of
        Some m \<Rightarrow> out_Balance out = m
      | None \<Rightarrow> \<exists>w. scanWallet (find (\<lambda>r. wr_id r = t_walletID t) ws) = Inr w \<and> out_Balance out = w_balance w)"

text \<open>
  The row under the key answers a replay; when \<open>out\<close> is of the call that made the transaction and that
  does not wait, the row keeps its balance.
\<close>

definition replayable :: "string \<Rightarrow> string \<Rightarrow> ProcessOutput \<Rightarrow> db \<Rightarrow> bool" where
  "replayable key hash out d \<longleftrightarrow> (\<exists>t. scanWagerTx (row_of_key key (txs d)) = Inr t \<and> t_payloadHash t = hash \<and>
     answers t out (wallets d) \<and>
     (t_financialResult t = None \<longrightarrow> out_IdempotentReplay out \<or> t_status t = StatusPendingReference))"

lemma answers_stored [simp]: "answers (tx_stored t) out ws = answers t out ws"
  by (cases "t_financialResult t") (simp_all add: answers_def tx_stored_def)

lemma replayable_stored:
  assumes "stored key t (txs d)" "t_id t \<noteq> []" "tx_money_ok t" "t_payloadHash t = hash" "answers t out (wallets d)"
    "t_financialResult t = None \<Longrightarrow> out_IdempotentReplay out \<or> t_status t = StatusPendingReference"
  shows "replayable key hash out d"
  using assms scanWagerTx_stored [of t]
  by (intro exI [of _ "tx_stored t"] replayable_def [THEN iffD2])
    (simp add: stored_def, simp add: tx_stored_def)

text \<open>A transaction on its way: created under its key, without an outcome yet.\<close>

definition fresh_tx :: "string \<Rightarrow> WagerTransaction \<Rightarrow> bool" where
  "fresh_tx hash t \<longleftrightarrow> t_id t \<noteq> [] \<and> t_payloadHash t = hash \<and> money_ok (t_money t) \<and>
     t_failureCode t = [] \<and> t_financialResult t = None"

lemma fresh_identity: "tx_identity t' = tx_identity t \<Longrightarrow> fresh_tx hash t \<Longrightarrow>
    t_id t' \<noteq> [] \<and> t_payloadHash t' = hash \<and> money_ok (t_money t') \<and> t_walletID t' = t_walletID t"
  by (simp add: tx_identity_def fresh_tx_def)

lemma orReturn_identity:
  "orReturn (MarkRejectedWithResult t fc m now) = Inr t' \<Longrightarrow> tx_identity t' = tx_identity t"
  "orReturn (MarkPendingReference t now) = Inr t' \<Longrightarrow> tx_identity t' = tx_identity t"
  "orReturn (MarkProcessed t m now) = Inr t' \<Longrightarrow> tx_identity t' = tx_identity t"
  "orReturn (ResolveReference t r now) = Inr t' \<Longrightarrow> tx_identity t' = tx_identity t"
  by (simp_all add: tx_identity_def)

text \<open>The last steps of every path: update the transaction, write events, answer.\<close>

lemma replay_finish:
  assumes "stored key t (txs d)" "tx_identity t = tx_identity t0" "fresh_tx hash t0" "answers t out (wallets d)"
    and "case t_financialResult t of None \<Rightarrow> t_status t = StatusPendingReference | Some m \<Rightarrow> money_ok m"
  shows "replayable key hash out d"
  using fresh_identity [OF assms(2,3)] assms by (intro replayable_stored) (auto simp: tx_money_ok_def split: option.splits)

lemma replay_reject:
  assumes q: "quiet e" and t: "fresh_tx hash t" and m: "money_ok (w_balance w)"
  shows "triple e (viewing c (\<lambda>d. held key t (txs d))) (reject t w fc now cid) (\<lambda>out. viewing c (replayable key hash out)) anyhow"
  unfolding reject_def
proof (rule viewing_lift)
  fix t' assume t': "orReturn (MarkRejectedWithResult t fc (w_balance w) now) = Inr t'"
  note same = orReturn_identity(1) [OF t']
  have out: "t_failureCode t' = fc" "t_financialResult t' = Some (w_balance w)" using t' by simp_all
  note upd = quiet_TxUpdate [OF q same, of c key "\<lambda>_. True", simplified]
  note ev = quiet_OutboxCreate [OF q, of c "\<lambda>ts _. stored key t' ts"]
  show "triple e (viewing c (\<lambda>d. held key t (txs d))) (bindM (TxUpdate t') (\<lambda>_. bindM NewID (\<lambda>i. bindM (OutboxCreate
      (NewWagerTransactionRejected i (w_id w) cid now \<lparr>rd_transactionID = t_id t', rd_walletID = w_id w,
        rd_providerID = t_providerID t', rd_externalID = t_externalID t', rd_kind = Kind_str (t_kind t'), rd_failureCode = fc\<rparr>))
      (\<lambda>_. ret \<lparr>out_TransactionID = t_id t', out_Status = Status_str (t_status t'), out_Balance = w_balance w,
        out_FailureCode = fc, out_IdempotentReplay = False\<rparr>)))) (\<lambda>out. viewing c (replayable key hash out)) anyhow"
    by (intro triple_bind [OF upd] viewing_then [OF viewing_NewID] viewing_then [OF ev] triple_ret)
      (auto elim!: viewing_weaken intro!: replay_finish [OF _ same t] simp: answers_def out m)
qed

lemma replay_pending:
  assumes q: "quiet e" and t: "fresh_tx hash t" and wid: "t_walletID t = w_id w"
  shows "triple e (viewing c (\<lambda>d. held key t (txs d) \<and> scanWallet (find (\<lambda>r. wr_id r = w_id w) (wallets d)) = Inr w))
    (pendingReference t w now cid) (\<lambda>out. viewing c (replayable key hash out)) anyhow"
  unfolding pendingReference_def
proof (rule viewing_lift)
  let ?P = "\<lambda>ws. scanWallet (find (\<lambda>r. wr_id r = w_id w) ws) = Inr w"
  fix t' assume t': "orReturn (MarkPendingReference t now) = Inr t'"
  note same = orReturn_identity(2) [OF t']
  have out: "t_failureCode t' = []" "t_financialResult t' = None" "t_walletID t' = w_id w" "t_status t' = StatusPendingReference"
    using t' t wid by (simp_all add: fresh_tx_def)
  note upd = quiet_TxUpdate [OF q same, of c key ?P]
  note ev = quiet_OutboxCreate [OF q, of c "\<lambda>ts ws. stored key t' ts \<and> ?P ws"]
  show "triple e (viewing c (\<lambda>d. held key t (txs d) \<and> ?P (wallets d))) (bindM (TxUpdate t') (\<lambda>_. bindM NewID (\<lambda>i. bindM (OutboxCreate
      (NewWagerTransactionPendingReference i (w_id w) cid now \<lparr>qd_transactionID = t_id t', qd_walletID = w_id w,
        qd_providerID = t_providerID t', qd_externalID = t_externalID t', qd_referenceExternalID = t_referenceExternalID t'\<rparr>))
      (\<lambda>_. ret \<lparr>out_TransactionID = t_id t', out_Status = Status_str (t_status t'), out_Balance = w_balance w,
        out_FailureCode = [], out_IdempotentReplay = False\<rparr>)))) (\<lambda>out. viewing c (replayable key hash out)) anyhow"
    by (intro triple_bind [OF upd] viewing_then [OF viewing_NewID] viewing_then [OF ev] triple_ret)
      (auto elim!: viewing_weaken intro!: replay_finish [OF _ same t] simp: answers_def out)
qed

lemma replay_settled_events:
  assumes q: "quiet e" and t: "fresh_tx hash t" and m: "money_ok (w_balance w)"
  shows "triple e (viewing c (\<lambda>d. held key t (txs d))) (settled_events t w b dir a now cid)
    (\<lambda>out. viewing c (replayable key hash out)) anyhow"
  unfolding settled_events_def
proof (rule viewing_lift)
  fix t' assume t': "orReturn (MarkProcessed t (w_balance w) now) = Inr t'"
  note same = orReturn_identity(3) [OF t']
  have out: "t_failureCode t' = []" "t_financialResult t' = Some (w_balance w)" using t' t by (simp_all add: fresh_tx_def)
  note upd = quiet_TxUpdate [OF q same, of c key "\<lambda>_. True", simplified]
  note ev = quiet_OutboxCreate [OF q, of c "\<lambda>ts _. stored key t' ts"]
  show "triple e (viewing c (\<lambda>d. held key t (txs d))) (bindM (TxUpdate t') (\<lambda>_. bindM NewID (\<lambda>i1. bindM (OutboxCreate
      (NewWagerTransactionProcessed i1 (w_id w) cid now
       \<lparr>pd_transactionID = t_id t', pd_walletID = w_id w, pd_playerID = w_playerID w,
        pd_kind = Kind_str (t_kind t'), pd_providerID = t_providerID t', pd_externalID = t_externalID t',
        pd_money = a, pd_financialResult = None, pd_idempotentReplay = False\<rparr>)) (\<lambda>_.
     bindM NewID (\<lambda>i2.
     bindM (OutboxCreate (NewWalletBalanceChanged i2 (w_id w) cid now
       \<lparr>bd_walletID = w_id w, bd_transactionID = t_id t', bd_direction = Direction_str dir,
        bd_money = a, bd_balanceBefore = b, bd_balanceAfter = w_balance w,
        bd_walletVersion = w_version w\<rparr>)) (\<lambda>_.
     ret \<lparr>out_TransactionID = t_id t', out_Status = Status_str (t_status t'), out_Balance = w_balance w,
        out_FailureCode = [], out_IdempotentReplay = False\<rparr>)))))) (\<lambda>out. viewing c (replayable key hash out)) anyhow"
    by (intro triple_bind [OF upd] viewing_then [OF viewing_NewID] viewing_then [OF ev] triple_ret)
      (auto elim!: viewing_weaken intro!: replay_finish [OF _ same t] simp: answers_def out m)
qed

lemma replay_settle:
  assumes q: "quiet e" and t: "fresh_tx hash t" and m: "money_ok (w_balance w)"
  shows "triple e (viewing c (\<lambda>d. held key t (txs d))) (settle t w v b dir a now cid)
    (\<lambda>out. viewing c (replayable key hash out)) anyhow"
  unfolding settle_def
  by (intro viewing_then [OF quiet_WalletSave [OF q, of c "held key t"]] viewing_then [OF viewing_NewID]
      viewing_lift viewing_then [OF quiet_LedgerCreate [OF q, of c "held key t"]]
      replay_settled_events q t m)

lemma replay_debit:
  assumes q: "quiet e" and t: "fresh_tx hash t" and m: "money_ok (w_balance w)"
  shows "triple e (viewing c (\<lambda>d. held key t (txs d))) (debitAndSettle t w a fc now cid)
    (\<lambda>out. viewing c (replayable key hash out)) anyhow"
proof (cases "Debit w a now")
  case (Pair r w')
  then have "money_ok (w_balance w')"
    using m debit.move_effect(3) [of w a now w'] debit.move_error_keeps [of w a now _ w'] by (cases r) (auto simp: money_ok_def)
  then show ?thesis using Pair replay_settle [OF q t] replay_reject [OF q t]
    by (cases r) (simp_all add: debitAndSettle_def triple_throw)
qed

lemma replay_credit:
  assumes q: "quiet e" and t: "fresh_tx hash t" and m: "money_ok (w_balance w)"
  shows "triple e (viewing c (\<lambda>d. held key t (txs d))) (creditAndSettle t w a now cid)
    (\<lambda>out. viewing c (replayable key hash out)) anyhow"
proof (cases "Credit w a now")
  case (Pair r w')
  then have "money_ok (w_balance w')" if "r = None"
    using m credit.move_effect(3) [of w a now w'] that by (simp add: money_ok_def)
  then show ?thesis using Pair replay_settle [OF q t]
    by (cases r) (simp_all add: creditAndSettle_def triple_throw)
qed

lemma replay_loss:
  assumes q: "quiet e" and t: "fresh_tx hash t" and m: "money_ok (w_balance w)"
  shows "triple e (viewing c (\<lambda>d. held key t (txs d))) (settleLoss inp t w now cid)
    (\<lambda>out. viewing c (replayable key hash out)) anyhow"
  unfolding settleLoss_def
proof (rule viewing_lift)
  fix t' assume t': "orReturn (MarkProcessed t (w_balance w) now) = Inr t'"
  note same = orReturn_identity(3) [OF t']
  have out: "t_failureCode t' = []" "t_financialResult t' = Some (w_balance w)" using t' t by (simp_all add: fresh_tx_def)
  note upd = quiet_TxUpdate [OF q same, of c key "\<lambda>_. True", simplified]
  note ev = quiet_OutboxCreate [OF q, of c "\<lambda>ts _. stored key t' ts"]
  show "triple e (viewing c (\<lambda>d. held key t (txs d))) (bindM (TxUpdate t') (\<lambda>_. bindM NewID (\<lambda>i. bindM (OutboxCreate
      (NewWagerTransactionProcessed i (w_id w) cid now
       \<lparr>pd_transactionID = t_id t', pd_walletID = w_id w, pd_playerID = w_playerID w,
        pd_kind = ''LOSS'', pd_providerID = in_ProviderID inp,
        pd_externalID = in_ExternalTransactionID inp, pd_money = in_Money inp, pd_financialResult = None,
        pd_idempotentReplay = False\<rparr>)) (\<lambda>_.
     ret \<lparr>out_TransactionID = t_id t', out_Status = Status_str (t_status t'), out_Balance = w_balance w,
        out_FailureCode = [], out_IdempotentReplay = False\<rparr>)))) (\<lambda>out. viewing c (replayable key hash out)) anyhow"
    by (intro triple_bind [OF upd] viewing_then [OF viewing_NewID] viewing_then [OF ev] triple_ret)
      (auto elim!: viewing_weaken intro!: replay_finish [OF _ same t] simp: answers_def out m)
qed

lemma replay_applyKind:
  assumes q: "quiet e" and t: "fresh_tx hash t" and m: "money_ok (w_balance w)"
  shows "triple e (viewing c (\<lambda>d. held key t (txs d))) (applyKind inp kind t w ref now cid)
    (\<lambda>out. viewing c (replayable key hash out)) anyhow"
  using replay_debit [OF q t m] replay_credit [OF q t m] replay_loss [OF q t m]
  by (cases kind; cases ref) (simp_all add: applyKind_def triple_throw)

section \<open>An attempt\<close>

text \<open>Lookups leave the view as it is.\<close>

lemma quiet_find:
  assumes "quiet e" "\<And>now d x. p d \<Longrightarrow> scan (q now d) = Inr x \<Longrightarrow> r x d"
  shows "triple e (viewing c p) (bindM (query q) (\<lambda>row. lift (scan row))) (\<lambda>x. viewing c (\<lambda>d. p d \<and> r x d))
    (\<lambda>_. viewing c p)"
proof -
  have "triple e (viewing c p) (query q) (\<lambda>row. viewing c (\<lambda>d. p d \<and> (\<forall>x. scan row = Inr x \<longrightarrow> r x d))) (\<lambda>_. viewing c p)"
    unfolding triple_def
  proof (intro allI impI)
    fix w assume w: "viewing c p w"
    then show "case query q e w of (Inr row, w') \<Rightarrow> viewing c (\<lambda>d. p d \<and> (\<forall>x. scan row = Inr x \<longrightarrow> r x d)) w' | (Inl x, w') \<Rightarrow> viewing c p w'"
      using assms by (auto simp: query_def stmt_def Let_def viewing_def view_def put_view_def)
  qed
  then show ?thesis
    by (rule triple_bind) (auto intro!: triple_lift elim!: viewing_weaken)
qed

lemma quiet_try:
  assumes "triple e (viewing c p) m (\<lambda>x. viewing c (\<lambda>d. p d \<and> r x d)) (\<lambda>_. viewing c p)"
    and "\<And>x. triple e (viewing c (\<lambda>d. p d \<and> r x d)) (k (Inr x)) Q anyhow"
    and "\<And>x. triple e (viewing c p) (k (Inl x)) Q anyhow"
  shows "triple e (viewing c p) (bindM (attempting m) k) Q anyhow"
proof (rule triple_bind)
  show "triple e (viewing c p) (attempting m)
      (\<lambda>s. case s of Inr x \<Rightarrow> viewing c (\<lambda>d. p d \<and> r x d) | Inl _ \<Rightarrow> viewing c p) anyhow"
    using assms(1) by (intro triple_attempting) simp
  show "triple e (case s of Inr x \<Rightarrow> viewing c (\<lambda>d. p d \<and> r x d) | Inl _ \<Rightarrow> viewing c p) (k s) Q anyhow" for s
    using assms(2,3) by (cases s) auto
qed

lemma quiet_optional:
  assumes "triple e (viewing c p) m (\<lambda>x. viewing c (\<lambda>d. p d \<and> r x d)) (\<lambda>_. viewing c p)"
  shows "triple e (viewing c p) (notFoundAsNil m)
    (\<lambda>o'. case o' of None \<Rightarrow> viewing c p | Some x \<Rightarrow> viewing c (\<lambda>d. p d \<and> r x d)) anyhow"
  unfolding notFoundAsNil_def by (rule quiet_try [OF assms]) (auto intro!: triple_rules)

lemma replay_withReference:
  assumes q: "quiet e" and t: "fresh_tx hash t" and m: "money_ok (w_balance w)" and wid: "t_walletID t = w_id w"
  shows "triple e (viewing c (\<lambda>d. held key t (txs d) \<and> scanWallet (find (\<lambda>r. wr_id r = w_id w) (wallets d)) = Inr w))
    (withReference inp kind t w ref now cid) (\<lambda>out. viewing c (replayable key hash out)) anyhow"
    (is "triple e (viewing c ?p) _ ?Q _")
proof -
  have weak: "triple e (viewing c ?p) x ?Q anyhow" if "triple e (viewing c (\<lambda>d. held key t (txs d))) x ?Q anyhow" for x
    by (rule triple_weaken [OF that]) (auto elim: viewing_weaken)
  note rej = weak [OF replay_reject [OF q t m]]
  have resolved: "triple e (viewing c ?p) (bindM (lift (orReturn (ResolveReference t (t_id ref) now)))
      (\<lambda>t'. applyKind inp kind t' w (Some ref) now cid)) ?Q anyhow"
  proof (rule viewing_lift)
    fix t' assume t': "orReturn (ResolveReference t (t_id ref) now) = Inr t'"
    have "fresh_tx hash t'" using t' t by (simp add: fresh_tx_def)
    from replay_applyKind [OF q this m, of c key] held_same [OF orReturn_identity(4) [OF t']]
    show "triple e (viewing c ?p) (applyKind inp kind t' w (Some ref) now cid) ?Q anyhow"
      by (intro weak) simp
  qed
  have rev: "triple e (viewing c ?p) (if kind = KindRefund \<or> kind = KindRollback
      then notFoundAsNil (TxFindProcessedReversalByReference (t_id ref)) else ret None)
      (\<lambda>o'. case o' of None \<Rightarrow> viewing c ?p | Some x \<Rightarrow> viewing c (\<lambda>d. ?p d \<and> True)) anyhow"
    unfolding TxFindProcessedReversalByReference_def
    by (intro triple_if quiet_optional quiet_find q triple_ret) auto
  have "triple e (viewing c ?p) (bindM (if kind = KindRefund \<or> kind = KindRollback
      then notFoundAsNil (TxFindProcessedReversalByReference (t_id ref)) else ret None)
      (\<lambda>alreadyReversed. case alreadyReversed of
           Some _ \<Rightarrow> reject t w failureCodeReferenceAlreadyReversed now cid
         | None \<Rightarrow> bindM (lift (orReturn (ResolveReference t (t_id ref) now))) (\<lambda>t'.
             applyKind inp kind t' w (Some ref) now cid))) ?Q anyhow"
    using rej resolved by (intro triple_bind [OF rev]) (simp split: option.split)
  then show ?thesis
    unfolding withReference_def using rej replay_pending [OF q t wid] by simp
qed

lemma replay_resolveAndApply:
  assumes q: "quiet e" and t: "fresh_tx hash t" and m: "money_ok (w_balance w)" and wid: "t_walletID t = w_id w"
  shows "triple e (viewing c (\<lambda>d. held key t (txs d) \<and> scanWallet (find (\<lambda>r. wr_id r = w_id w) (wallets d)) = Inr w))
    (resolveAndApply inp kind t w now cid) (\<lambda>out. viewing c (replayable key hash out)) anyhow"
    (is "triple e (viewing c ?p) _ ?Q _")
proof -
  have weak: "triple e (viewing c ?p) x ?Q anyhow" if "triple e (viewing c (\<lambda>d. held key t (txs d))) x ?Q anyhow" for x
    by (rule triple_weaken [OF that]) (auto elim: viewing_weaken)
  have find: "triple e (viewing c ?p) (TxFindByProviderAndExternalID p x)
      (\<lambda>r. viewing c (\<lambda>d. ?p d \<and> True)) (\<lambda>_. viewing c ?p)" for p x
    unfolding TxFindByProviderAndExternalID_def by (rule quiet_find [OF q]) simp
  have "triple e (viewing c ?p) (bindM (attempting (TxFindByProviderAndExternalID p x)) (\<lambda>r. case r of
       Inl err \<Rightarrow> if err = PortsErr Ports_ErrNotFound then pendingReference t w now cid else throw err
     | Inr reference \<Rightarrow> withReference inp kind t w reference now cid)) ?Q anyhow" for p x
    using replay_withReference [OF q t m wid] replay_pending [OF q t wid]
    by (intro quiet_try [OF find]) (simp_all add: triple_throw)
  then show ?thesis
    unfolding resolveAndApply_def using weak [OF replay_reject [OF q t m]] weak [OF replay_applyKind [OF q t m]] by simp
qed

text \<open>What \<open>replayOutput\<close> and \<open>resolveExisting\<close> answer, on a view nothing was written to.\<close>

lemma quiet_replayOutput:
  assumes q: "quiet e"
  shows "triple e (viewing c (\<lambda>d. d = c)) (replayOutput t)
    (\<lambda>out. viewing c (\<lambda>d. d = c \<and> answers t out (wallets c) \<and> out_IdempotentReplay out)) anyhow"
  unfolding replayOutput_def
proof (rule triple_bind)
  let ?bal = "\<lambda>m. case t_financialResult t of Some x \<Rightarrow> m = x
      | None \<Rightarrow> \<exists>w. scanWallet (find (\<lambda>r. wr_id r = t_walletID t) (wallets c)) = Inr w \<and> m = w_balance w"
  have "triple e (viewing c (\<lambda>d. d = c)) (WalletFindByID i)
      (\<lambda>w. viewing c (\<lambda>d. d = c \<and> scanWallet (find (\<lambda>r. wr_id r = i) (wallets c)) = Inr w)) (\<lambda>_. viewing c (\<lambda>d. d = c))" for i
    unfolding WalletFindByID_def by (rule quiet_find [OF q]) (simp add: wallet_of_def)
  then have find: "triple e (viewing c (\<lambda>d. d = c)) (WalletFindByID i)
      (\<lambda>w. viewing c (\<lambda>d. d = c \<and> scanWallet (find (\<lambda>r. wr_id r = i) (wallets c)) = Inr w)) anyhow" for i
    by (rule triple_weaken) auto
  show "triple e (viewing c (\<lambda>d. d = c))
      (case t_financialResult t of None \<Rightarrow> bindM (WalletFindByID (t_walletID t)) (\<lambda>w. ret (w_balance w)) | Some m \<Rightarrow> ret m)
      (\<lambda>m. viewing c (\<lambda>d. d = c \<and> ?bal m)) anyhow"
  proof (cases "t_financialResult t")
    case None
    show ?thesis unfolding None option.case
      by (rule triple_bind [OF find triple_ret]) (auto elim!: viewing_weaken)
  qed (auto intro!: triple_ret)
  show "triple e (viewing c (\<lambda>d. d = c \<and> ?bal m))
      (ret \<lparr>out_TransactionID = t_id t, out_Status = Status_str (t_status t), out_Balance = m,
        out_FailureCode = t_failureCode t, out_IdempotentReplay = True\<rparr>)
      (\<lambda>out. viewing c (\<lambda>d. d = c \<and> answers t out (wallets c) \<and> out_IdempotentReplay out)) anyhow" for m
    by (rule triple_ret) (cases "t_financialResult t"; auto elim!: viewing_weaken simp: answers_def)
qed

lemma quiet_lookup:
  assumes "quiet e"
  shows "triple e (viewing c (\<lambda>d. d = c)) (notFoundAsNil (bindM (query (\<lambda>_. f)) (\<lambda>row. lift (scanWagerTx row))))
    (\<lambda>o'. viewing c (\<lambda>d. d = c \<and> (case o' of None \<Rightarrow> True | Some x \<Rightarrow> scanWagerTx (f c) = Inr x))) anyhow"
proof -
  have "triple e (viewing c (\<lambda>d. d = c)) (bindM (query (\<lambda>_. f)) (\<lambda>row. lift (scanWagerTx row)))
      (\<lambda>x. viewing c (\<lambda>d. d = c \<and> scanWagerTx (f c) = Inr x)) (\<lambda>_. viewing c (\<lambda>d. d = c))"
    by (rule quiet_find [OF assms]) simp
  from quiet_optional [OF this] show ?thesis by (rule triple_weaken) (auto split: option.splits)
qed

lemma scanWagerTx_fields:
  "scanWagerTx (Some r) = Inr t \<Longrightarrow> t_idempotencyKey t = deref (xr_key r) \<and> t_payloadHash t = deref (xr_hash r) \<and>
     t_id t = xr_id r \<and> t_status t = xr_status r \<and> t_kind t = xr_kind r"
  by (auto simp: scanWagerTx_def bindE_Inr_iff RehydrateTx_def split: if_splits option.splits)

text \<open>Keys are unique, so a row found by its operation is the one under its key.\<close>

lemma row_of_key_unique:
  assumes d: "db_inv d" and r: "r \<in> set (txs d)" "xr_key r = Some key"
  shows "row_of_key key (txs d) = Some r"
proof -
  obtain r' where r': "row_of_key key (txs d) = Some r'"
    using r unfolding row_of_key_def by (cases "find (\<lambda>r. xr_key r = Some key) (txs d)") (auto simp: find_None_iff)
  then have "r' \<in> set (txs d)" "xr_key r' = Some key" by (auto simp: row_of_key_def find_Some_iff)
  then have "r' = r"
    using xt.no_clash [OF db_inv_tables(2) [OF d], of r' r] r by (auto simp: tx_clash_def same_key_def)
  with r' show ?thesis by simp
qed

lemma quiet_resolveExisting:
  assumes q: "quiet e" and inv: "db_inv c" and key: "in_IdempotencyKey inp = key" "key \<noteq> []"
  shows "triple e (viewing c (\<lambda>d. d = c)) (resolveExisting inp hash)
    (\<lambda>fo. case fo of Some out \<Rightarrow> viewing c (replayable key hash out) | None \<Rightarrow> viewing c (\<lambda>d. d = c)) anyhow"
  unfolding resolveExisting_def
proof (rule triple_bind)
  let ?byKey = "\<lambda>d. row_of_key key (txs d)"
  let ?byOp = "\<lambda>d. find (\<lambda>r. xr_provider r = Some (in_ProviderID inp) \<and> xr_external r = Some (in_ExternalTransactionID inp)) (txs d)"
  let ?Q = "\<lambda>fo. case fo of Some out \<Rightarrow> viewing c (replayable key hash out) | None \<Rightarrow> viewing c (\<lambda>d. d = c)"
  show "triple e (viewing c (\<lambda>d. d = c))
      (if in_IdempotencyKey inp \<noteq> [] then notFoundAsNil (TxFindByIdempotencyKey (in_IdempotencyKey inp)) else ret None)
      (\<lambda>o'. viewing c (\<lambda>d. d = c \<and> (case o' of None \<Rightarrow> True | Some x \<Rightarrow> scanWagerTx (?byKey c) = Inr x))) anyhow"
    using quiet_lookup [OF q, of c ?byKey] key by (simp add: TxFindByIdempotencyKey_def row_of_key_def)
  have answer: "triple e (viewing c (\<lambda>d. d = c)) (bindM (replayOutput ex) (\<lambda>out. ret (Some out))) ?Q anyhow"
    if ex: "scanWagerTx (?byKey c) = Inr ex" "t_payloadHash ex = hash" for ex
    by (rule triple_bind [OF quiet_replayOutput [OF q] triple_ret])
      (use ex in \<open>auto elim!: viewing_weaken simp: replayable_def\<close>)
  have byOp: "triple e (viewing c (\<lambda>d. d = c)) (notFoundAsNil (TxFindByProviderAndExternalID (in_ProviderID inp) (in_ExternalTransactionID inp)))
      (\<lambda>o'. viewing c (\<lambda>d. d = c \<and> (case o' of None \<Rightarrow> True | Some x \<Rightarrow> scanWagerTx (?byOp c) = Inr x))) anyhow"
    unfolding TxFindByProviderAndExternalID_def by (rule quiet_lookup [OF q])
  have byOp_key: "scanWagerTx (?byKey c) = Inr ex" if ex: "scanWagerTx (?byOp c) = Inr ex" "t_idempotencyKey ex = key" for ex
  proof -
    obtain r where r: "?byOp c = Some r" using ex(1) by (cases "?byOp c") (auto simp: scanWagerTx_def)
    then have "r \<in> set (txs c)" by (auto simp: find_Some_iff)
    moreover have "xr_key r = Some key" using scanWagerTx_fields [of r ex] ex r key by (cases "xr_key r") (auto simp: deref_def)
    ultimately show ?thesis using row_of_key_unique [OF inv] ex r by simp
  qed
  have guard: "triple e (viewing c (\<lambda>d. d = c \<and> B)) x ?Q anyhow" if "B \<Longrightarrow> triple e (viewing c (\<lambda>d. d = c)) x ?Q anyhow" for B x
    using that by (cases B) (auto simp: triple_def viewing_def)
  show "triple e (viewing c (\<lambda>d. d = c \<and> (case o' of None \<Rightarrow> True | Some x \<Rightarrow> scanWagerTx (?byKey c) = Inr x)))
      (case o' of Some ex \<Rightarrow>
          if t_payloadHash ex \<noteq> hash then throw (UsecaseErr Usecase_ErrIdempotencyConflict)
          else bindM (replayOutput ex) (\<lambda>out. ret (Some out))
      | None \<Rightarrow>
          bindM (notFoundAsNil (TxFindByProviderAndExternalID (in_ProviderID inp) (in_ExternalTransactionID inp)))
          (\<lambda>existingByOp. case existingByOp of
             Some ex \<Rightarrow>
               if t_idempotencyKey ex \<noteq> in_IdempotencyKey inp \<or> t_payloadHash ex \<noteq> hash
               then throw (UsecaseErr Usecase_ErrIdempotencyConflict)
               else bindM (replayOutput ex) (\<lambda>out. ret (Some out))
           | None \<Rightarrow> ret None)) ?Q anyhow" for o'
  proof (cases o')
    case (Some ex)
    then show ?thesis using answer by (intro guard) (simp add: triple_throw)
  next
    case None
    have "triple e (viewing c (\<lambda>d. d = c \<and> (case ob of None \<Rightarrow> True | Some x \<Rightarrow> scanWagerTx (?byOp c) = Inr x)))
        (case ob of Some ex \<Rightarrow>
               if t_idempotencyKey ex \<noteq> in_IdempotencyKey inp \<or> t_payloadHash ex \<noteq> hash
               then throw (UsecaseErr Usecase_ErrIdempotencyConflict)
               else bindM (replayOutput ex) (\<lambda>out. ret (Some out))
           | None \<Rightarrow> ret None) ?Q anyhow" for ob
      using byOp_key answer key by (intro guard) (auto split: option.splits intro!: triple_throw triple_ret)
    from triple_bind [OF byOp this] have "triple e (viewing c (\<lambda>d. d = c)) (case None of Some ex \<Rightarrow>
          if t_payloadHash ex \<noteq> hash then throw (UsecaseErr Usecase_ErrIdempotencyConflict)
          else bindM (replayOutput ex) (\<lambda>out. ret (Some out))
      | None \<Rightarrow>
          bindM (notFoundAsNil (TxFindByProviderAndExternalID (in_ProviderID inp) (in_ExternalTransactionID inp)))
          (\<lambda>existingByOp. case existingByOp of
             Some ex \<Rightarrow>
               if t_idempotencyKey ex \<noteq> in_IdempotencyKey inp \<or> t_payloadHash ex \<noteq> hash
               then throw (UsecaseErr Usecase_ErrIdempotencyConflict)
               else bindM (replayOutput ex) (\<lambda>out. ret (Some out))
           | None \<Rightarrow> ret None)) ?Q anyhow" by (simp only: option.case)
    then show ?thesis unfolding None by (intro guard)
  qed
qed

lemma quiet_attempt:
  assumes q: "quiet e" and inv: "db_inv c" and key: "in_IdempotencyKey inp = key" "key \<noteq> []"
    and m: "money_ok (in_Money inp)"
  shows "triple e (viewing c (\<lambda>d. d = c)) (attempt inp kind hash) (\<lambda>out. viewing c (replayable key hash out)) anyhow"
  unfolding attempt_def
proof (rule triple_bind [OF quiet_resolveExisting [OF q inv key]])
  fix fo
  let ?P = "\<lambda>w ws. scanWallet (find (\<lambda>r. wr_id r = w_id w) ws) = Inr w"
  have find: "triple e (viewing c (\<lambda>d. d = c)) (WalletFindByID (in_WalletID inp))
      (\<lambda>w. viewing c (\<lambda>d. ?P w (wallets d) \<and> money_ok (w_balance w))) anyhow"
    unfolding WalletFindByID_def
  proof (rule triple_weaken [OF quiet_find [OF q, of "\<lambda>d. d = c" _ _
        "\<lambda>w d. w_id w = in_WalletID inp \<and> ?P w (wallets d) \<and> money_ok (w_balance w)"]])
    fix now d x assume d: "d = c" and s: "scanWallet (wallet_of d (in_WalletID inp)) = Inr x"
    then obtain r where r: "wallet_of c (in_WalletID inp) = Some r" "scanWallet (Some r) = Inr x"
      by (auto simp: scanWallet_Inr_iff)
    from scanWallet_seen [OF inv r] s d
    show "w_id x = in_WalletID inp \<and> ?P x (wallets d) \<and> money_ok (w_balance x)"
      by (simp add: wallet_of_def)
  qed (auto elim: viewing_weaken)
  have guard: "triple e (viewing c (\<lambda>d. ?P w (wallets d) \<and> B)) x Q anyhow"
    if "B \<Longrightarrow> triple e (viewing c (\<lambda>d. ?P w (wallets d))) x Q anyhow" for w B and x :: "ProcessOutput io" and Q
    using that by (cases B) (auto simp: triple_def viewing_def)
  have new: "fresh_tx hash tx \<and> t_walletID tx = w_id w \<and> t_idempotencyKey tx = key"
    if "NewExternalTransaction i (in_ProviderID inp) (in_ExternalTransactionID inp)
           (in_IdempotencyKey inp) hash (w_id w) (w_playerID w) (in_RoundID inp) (in_GameID inp) kind
           (in_Money inp) (in_ReferenceExternalTransactionID inp) now = Inr tx" for i now w tx
    using that m key by (auto simp: fresh_tx_def NewExternalTransaction_Inr_iff)
  have rest: "triple e (viewing c (\<lambda>d. ?P w (wallets d))) (if w_playerID w \<noteq> in_PlayerID inp
         then throw (UsecaseErr Usecase_ErrWalletPlayerMismatch)
         else bindM timeNow (\<lambda>now. bindM NewID (\<lambda>i.
         bindM (lift (NewExternalTransaction i (in_ProviderID inp) (in_ExternalTransactionID inp)
           (in_IdempotencyKey inp) hash (w_id w) (w_playerID w) (in_RoundID inp) (in_GameID inp) kind
           (in_Money inp) (in_ReferenceExternalTransactionID inp) now)) (\<lambda>tx.
         bindM (TxCreate tx) (\<lambda>_. resolveAndApply inp kind tx w now (t_id tx))))))
       (\<lambda>out. viewing c (replayable key hash out)) anyhow" if mw: "money_ok (w_balance w)" for w
  proof (intro triple_if triple_throw viewing_then [OF viewing_timeNow] viewing_then [OF viewing_NewID] viewing_lift TrueI)
    fix now i tx
    assume "NewExternalTransaction i (in_ProviderID inp) (in_ExternalTransactionID inp)
           (in_IdempotencyKey inp) hash (w_id w) (w_playerID w) (in_RoundID inp) (in_GameID inp) kind
           (in_Money inp) (in_ReferenceExternalTransactionID inp) now = Inr tx"
    note tx = new [OF this]
    show "triple e (viewing c (\<lambda>d. ?P w (wallets d))) (bindM (TxCreate tx) (\<lambda>_. resolveAndApply inp kind tx w now (t_id tx)))
        (\<lambda>out. viewing c (replayable key hash out)) anyhow"
      by (rule triple_bind [OF quiet_TxCreate [OF q _ key(2), of tx c "?P w"] replay_resolveAndApply [OF q _ mw]])
        (use tx in simp_all)
  qed
  show "triple e (case fo of Some out \<Rightarrow> viewing c (replayable key hash out) | None \<Rightarrow> viewing c (\<lambda>d. d = c))
      (case fo of Some out \<Rightarrow> ret out
       | None \<Rightarrow> bindM (WalletFindByID (in_WalletID inp)) (\<lambda>w.
         if w_playerID w \<noteq> in_PlayerID inp then throw (UsecaseErr Usecase_ErrWalletPlayerMismatch)
         else bindM timeNow (\<lambda>now. bindM NewID (\<lambda>i.
         bindM (lift (NewExternalTransaction i (in_ProviderID inp) (in_ExternalTransactionID inp)
           (in_IdempotencyKey inp) hash (w_id w) (w_playerID w) (in_RoundID inp) (in_GameID inp) kind
           (in_Money inp) (in_ReferenceExternalTransactionID inp) now)) (\<lambda>tx.
         bindM (TxCreate tx) (\<lambda>_. resolveAndApply inp kind tx w now (t_id tx)))))))
      (\<lambda>out. viewing c (replayable key hash out)) anyhow"
  proof (cases fo)
    case None
    show ?thesis unfolding None option.case
      by (rule triple_bind [OF find], rule guard, rule rest)
  qed (simp add: triple_ret)
qed

section \<open>A second call\<close>

text \<open>Without other sessions and faults a unit of work is its code between a begin and a commit that succeed.\<close>

lemma quiet_WithinTx:
  assumes q: "quiet e" and w: "session w = None" "\<not> snapshot w"
    and fn: "triple e (viewing (committed w) (\<lambda>d. d = committed w)) fn (\<lambda>a. viewing (committed w) (Q a)) anyhow"
    and r: "WithinTx fn e w = (Inr a, w')"
  shows "Q a (committed w') \<and> session w' = None \<and> \<not> snapshot w'"
proof -
  let ?w2 = "(interfere e w)\<lparr>session := Some (committed w), snapshot := False, tx_start := db_clock e (ticks w)\<rparr>"
  have c: "committed (interfere e w) = committed w" using q by simp
  obtain s w3 where f: "fn e ?w2 = (s, w3)" by fastforce
  have "viewing (committed w) (\<lambda>d. d = committed w) ?w2" using q by (simp add: viewing_def)
  then have out: "case s of Inr b \<Rightarrow> viewing (committed w) (Q b) w3 | Inl _ \<Rightarrow> True"
    using fn f unfolding triple_def by (cases s) force+
  obtain b where s: "s = Inr b"
    using r f q c by (cases s) (auto simp: WithinTx_def in_tx_def bindM_apply begin_tx_def Let_def)
  then have "a = b \<and> w' = publish (interfere e w3)"
    using r f q c by (auto simp: WithinTx_def in_tx_def bindM_apply begin_tx_def Let_def commit_tx_def)
  then show ?thesis using out s q by (auto simp: viewing_def publish_def end_tx_def)
qed

lemma quiet_executeLoop:
  assumes q: "quiet e" and w: "committed w = c" "session w = None" "\<not> snapshot w"
    and att: "triple e (viewing c (\<lambda>d. d = c)) (attempt inp kind hash) (\<lambda>out. viewing c (Q out)) anyhow"
    and r: "executeLoop uc n inp kind hash e w = (Inr out, w')"
  shows "Q out (committed w') \<and> session w' = None \<and> \<not> snapshot w'"
  using w r
proof (induction n arbitrary: w)
  case 0
  then show ?case by (auto simp: bindM_apply countIf_apply)
next
  case (Suc n)
  obtain s w1 where s: "WithinTx (attempt inp kind hash) e w = (s, w1)" by fastforce
  show ?case
  proof (cases s)
    case (Inr o1)
    have "Q o1 (committed w1) \<and> session w1 = None \<and> \<not> snapshot w1"
      by (rule quiet_WithinTx [OF q Suc.prems(2,3)]) (use s Inr Suc.prems(1) att in simp_all)
    then show ?thesis using Suc.prems(4) s Inr
      by (auto simp: bindM_apply attempting_apply UowExecute_def recordOutcome_apply split: if_splits)
  next
    case (Inl y)
    note at = attemptTx.uow_atomic [OF quiet_alone [OF q] Suc.prems(2,3) s [unfolded Inl]]
    let ?w2 = "if uc_metrics uc then w1\<lparr>counters := (counters w1)\<lparr>OptimisticLockRetriesTotal :=
        OptimisticLockRetriesTotal (counters w1) + 1\<rparr>\<rparr> else w1"
    have "executeLoop uc n inp kind hash e ?w2 = (Inr out, w')"
      using Suc.prems(4) s Inl by (simp add: bindM_apply attempting_apply UowExecute_def countIf_apply split: if_splits)
    from Suc.IH [OF _ _ _ this] Suc.prems(1) at show ?thesis by simp
  qed
qed

text \<open>A lookup in the open transaction.\<close>

lemma quiet_query_apply:
  "quiet e \<Longrightarrow> session w = Some d \<Longrightarrow> query (\<lambda>_. f) e w = (Inr (f d), w\<lparr>ticks := Suc (ticks w)\<rparr>)"
  by (simp add: query_def stmt_def Let_def view_def put_view_def)

lemma quiet_find_apply:
  "quiet e \<Longrightarrow> session w = Some d \<Longrightarrow>
    bindM (query (\<lambda>_. f)) (\<lambda>row. lift (scan row)) e w = (scan (f d), w\<lparr>ticks := Suc (ticks w)\<rparr>)"
  by (simp add: bindM_apply quiet_query_apply)

lemma replayOutput_apply:
  assumes "quiet e" "session w = Some d" "answers t out (wallets d)"
  shows "\<exists>n. replayOutput t e w = (Inr (out\<lparr>out_IdempotentReplay := True\<rparr>), w\<lparr>ticks := n\<rparr>)"
proof (cases "t_financialResult t")
  case None
  then obtain wl where wl: "scanWallet (wallet_of d (t_walletID t)) = Inr wl" "out_Balance out = w_balance wl"
    using assms(3) by (auto simp: answers_def wallet_of_def)
  have "replayOutput t e w = (Inr (out\<lparr>out_IdempotentReplay := True\<rparr>), w\<lparr>ticks := Suc (ticks w)\<rparr>)"
    using None wl assms(3)
    by (simp add: replayOutput_def WalletFindByID_def bindM_apply quiet_query_apply [OF assms(1,2)] answers_def)
  then show ?thesis by blast
next
  case (Some m)
  then have "replayOutput t e w = (Inr (out\<lparr>out_IdempotentReplay := True\<rparr>), w\<lparr>ticks := ticks w\<rparr>)"
    using assms(3) by (simp add: replayOutput_def bindM_apply answers_def)
  then show ?thesis by blast
qed

text \<open>The row found under the key decides: the same hash is answered, another is a conflict.\<close>

lemma attempt_found:
  assumes q: "quiet e" and s: "session w = Some d" and key: "in_IdempotencyKey inp = key" "key \<noteq> []"
    and t: "scanWagerTx (row_of_key key (txs d)) = Inr t"
  shows "t_payloadHash t \<noteq> hash \<Longrightarrow>
      \<exists>n. attempt inp kind hash e w = (Inl (UsecaseErr Usecase_ErrIdempotencyConflict), w\<lparr>ticks := n\<rparr>)"
    and "t_payloadHash t = hash \<Longrightarrow> answers t out (wallets d) \<Longrightarrow>
      \<exists>n. attempt inp kind hash e w = (Inr (out\<lparr>out_IdempotentReplay := True\<rparr>), w\<lparr>ticks := n\<rparr>)"
proof -
  let ?w1 = "w\<lparr>ticks := Suc (ticks w)\<rparr>"
  have find: "notFoundAsNil (TxFindByIdempotencyKey key) e w = (Inr (Some t), ?w1)"
    using quiet_find_apply [OF q s, of "\<lambda>d. row_of_key key (txs d)" scanWagerTx] t
    by (simp add: notFoundAsNil_def TxFindByIdempotencyKey_def row_of_key_def bindM_apply attempting_apply)
  show "\<exists>n. attempt inp kind hash e w = (Inl (UsecaseErr Usecase_ErrIdempotencyConflict), w\<lparr>ticks := n\<rparr>)"
    if "t_payloadHash t \<noteq> hash"
    using that find key by (auto simp: attempt_def resolveExisting_def bindM_apply)
  show "\<exists>n. attempt inp kind hash e w = (Inr (out\<lparr>out_IdempotentReplay := True\<rparr>), w\<lparr>ticks := n\<rparr>)"
    if h: "t_payloadHash t = hash" and a: "answers t out (wallets d)"
  proof -
    from replayOutput_apply [OF q _ a, of ?w1] s obtain n where
      "replayOutput t e ?w1 = (Inr (out\<lparr>out_IdempotentReplay := True\<rparr>), ?w1\<lparr>ticks := n\<rparr>)" by auto
    then show ?thesis using find key h by (auto simp: attempt_def resolveExisting_def bindM_apply)
  qed
qed

lemma Execute_found:
  assumes q: "quiet e" and w: "session w = None" "\<not> snapshot w"
    and inp: "supportedKind (Kind_of (in_Kind inp))" "in_IdempotencyKey inp = key" "key \<noteq> []" "inputHash uc inp = Inr hash"
    and t: "scanWagerTx (row_of_key key (txs (committed w))) = Inr t" and tries: "0 < uc_maxRetries uc"
  shows "t_payloadHash t \<noteq> hash \<Longrightarrow>
      \<exists>w'. Execute uc inp e w = (Inl (UsecaseErr Usecase_ErrIdempotencyConflict), w') \<and> committed w' = committed w"
    and "t_payloadHash t = hash \<Longrightarrow> answers t out (wallets (committed w)) \<Longrightarrow>
      \<exists>w'. Execute uc inp e w = (Inr (out\<lparr>out_IdempotentReplay := True\<rparr>), w') \<and> committed w' = committed w"
proof -
  let ?w2 = "(interfere e w)\<lparr>session := Some (committed w), snapshot := False, tx_start := db_clock e (ticks w)\<rparr>"
  obtain m where m: "uc_maxRetries uc = Suc m" using tries by (cases "uc_maxRetries uc") auto
  have run: "Execute uc inp e w = executeLoop uc (Suc m) inp (Kind_of (in_Kind inp)) hash e w"
    using inp by (simp add: Execute_loop m)
  note at = attempt_found [OF q _ inp(2,3), of ?w2 "committed w" t hash, OF _ t]
  show "\<exists>w'. Execute uc inp e w = (Inl (UsecaseErr Usecase_ErrIdempotencyConflict), w') \<and> committed w' = committed w"
    if "t_payloadHash t \<noteq> hash"
    using at(1) [OF _ that, of "Kind_of (in_Kind inp)"] q
    by (auto simp: run bindM_apply attempting_apply UowExecute_def WithinTx_def in_tx_def begin_tx_def Let_def
        end_tx_def retryable_def)
  show "\<exists>w'. Execute uc inp e w = (Inr (out\<lparr>out_IdempotentReplay := True\<rparr>), w') \<and> committed w' = committed w"
    if "t_payloadHash t = hash" "answers t out (wallets (committed w))"
    using at(2) [OF _ that, of "Kind_of (in_Kind inp)"] q
    by (auto simp: run bindM_apply attempting_apply UowExecute_def WithinTx_def in_tx_def begin_tx_def Let_def
        end_tx_def commit_tx_def publish_def recordOutcome_apply)
qed

text \<open>What the first call of a request leaves.\<close>

lemma Execute_leaves:
  assumes "quiet e" "db_inv (committed w)" "session w = None" "\<not> snapshot w"
    and "in_IdempotencyKey inp \<noteq> []" "money_ok (in_Money inp)"
    and "Execute uc inp e w = (Inr out, w')"
  obtains hash where "inputHash uc inp = Inr hash" "supportedKind (Kind_of (in_Kind inp))" "0 < uc_maxRetries uc"
    "replayable (in_IdempotencyKey inp) hash out (committed w')" "session w' = None" "\<not> snapshot w'"
proof -
  obtain hash where hash: "inputHash uc inp = Inr hash" using inputHash_Inr by blast
  have kind: "supportedKind (Kind_of (in_Kind inp))" using assms(7) by (auto simp: Execute_loop split: if_splits)
  have loop: "executeLoop uc (uc_maxRetries uc) inp (Kind_of (in_Kind inp)) hash e w = (Inr out, w')"
    using assms(7) kind hash by (simp add: Execute_loop)
  have n: "0 < uc_maxRetries uc" using loop by (cases "uc_maxRetries uc") (auto simp: bindM_apply countIf_apply)
  from quiet_executeLoop [OF assms(1) refl assms(3,4) quiet_attempt [OF assms(1,2) refl assms(5,6)] loop]
  show ?thesis using that [OF hash kind n] by blast
qed

lemma Execute_again:
  assumes "quiet e" "db_inv (committed w)" "session w = None" "\<not> snapshot w"
    and "in_IdempotencyKey inp \<noteq> []" "money_ok (in_Money inp)"
    and "Execute uc inp e w = (Inr out, w')"
  shows "\<exists>w''. Execute uc inp e w' = (Inr (out\<lparr>out_IdempotentReplay := True\<rparr>), w'') \<and> committed w'' = committed w'"
proof -
  obtain hash where h: "inputHash uc inp = Inr hash" "supportedKind (Kind_of (in_Kind inp))" "0 < uc_maxRetries uc"
    "replayable (in_IdempotencyKey inp) hash out (committed w')" "session w' = None" "\<not> snapshot w'"
    by (rule Execute_leaves [OF assms])
  then obtain t where t: "scanWagerTx (row_of_key (in_IdempotencyKey inp) (txs (committed w'))) = Inr t"
    "t_payloadHash t = hash" "answers t out (wallets (committed w'))"
    by (auto simp: replayable_def)
  show ?thesis by (rule Execute_found(2) [OF assms(1) h(5,6,2) refl assms(5) h(1) t(1) h(3) t(2,3)])
qed

text \<open>
  As long as the row stays, the request is answered from it: a recorded balance is answered as it is, whatever
  the wallet holds, and a transaction that waits is answered with what its wallet holds now.
\<close>

lemma Execute_later:
  assumes first: "inputHash uc inp = Inr hash" "supportedKind (Kind_of (in_Kind inp))" "0 < uc_maxRetries uc" "in_IdempotencyKey inp = key" "key \<noteq> []"
    and row: "scanWagerTx (row_of_key key (txs d)) = Inr t" "t_payloadHash t = hash" "answers t out (wallets d)"
    and later: "quiet e" "session w = None" "\<not> snapshot w" "row_of_key key (txs (committed w)) = row_of_key key (txs d)"
  shows "t_financialResult t \<noteq> None \<Longrightarrow>
      \<exists>w'. Execute uc inp e w = (Inr (out\<lparr>out_IdempotentReplay := True\<rparr>), w') \<and> committed w' = committed w"
    and "t_financialResult t = None \<Longrightarrow> scanWallet (wallet_of (committed w) (t_walletID t)) = Inr wl \<Longrightarrow>
      \<exists>w'. Execute uc inp e w = (Inr (out\<lparr>out_Balance := w_balance wl, out_IdempotentReplay := True\<rparr>), w') \<and> committed w' = committed w"
proof -
  note found = Execute_found(2) [OF later(1-3) first(2,4,5,1) _ first(3) row(2), unfolded later(4), OF row(1)]
  show "\<exists>w'. Execute uc inp e w = (Inr (out\<lparr>out_IdempotentReplay := True\<rparr>), w') \<and> committed w' = committed w"
    if "t_financialResult t \<noteq> None"
    by (rule found) (use row(3) that in \<open>auto simp: answers_def\<close>)
  show "\<exists>w'. Execute uc inp e w = (Inr (out\<lparr>out_Balance := w_balance wl, out_IdempotentReplay := True\<rparr>), w') \<and> committed w' = committed w"
    if "t_financialResult t = None" "scanWallet (wallet_of (committed w) (t_walletID t)) = Inr wl"
    using found [of "out\<lparr>out_Balance := w_balance wl\<rparr>"] row(3) that by (auto simp: answers_def wallet_of_def)
qed

section \<open>Properties\<close>

text \<open>C4: After a call that returned an output, a request with the same idempotency key and a
  different payload hash is refused with \<open>ErrIdempotencyConflict\<close> and changes nothing.\<close>

theorem Execute_conflict:
  assumes "quiet e" "db_inv (committed w)" "session w = None" "\<not> snapshot w"
    and "in_IdempotencyKey inp \<noteq> []" "money_ok (in_Money inp)"
    and "Execute uc inp e w = (Inr out, w')"
    and "in_IdempotencyKey inp' = in_IdempotencyKey inp" "inputHash uc inp' \<noteq> inputHash uc inp"
    and "supportedKind (Kind_of (in_Kind inp'))"
  shows "\<exists>w''. Execute uc inp' e w' = (Inl (UsecaseErr Usecase_ErrIdempotencyConflict), w'') \<and> committed w'' = committed w'"
proof -
  obtain hash where h: "inputHash uc inp = Inr hash" "0 < uc_maxRetries uc"
    "replayable (in_IdempotencyKey inp) hash out (committed w')" "session w' = None" "\<not> snapshot w'"
    by (rule Execute_leaves [OF assms(1-7)])
  then obtain t where t: "scanWagerTx (row_of_key (in_IdempotencyKey inp) (txs (committed w'))) = Inr t" "t_payloadHash t = hash"
    by (auto simp: replayable_def)
  obtain hash' where hash': "inputHash uc inp' = Inr hash'" using inputHash_Inr by blast
  show ?thesis
    by (rule Execute_found(1) [OF assms(1) h(4,5) assms(10,8,5) hash' t(1) h(2)]) (use t h(1) hash' assms(9) in auto)
qed

lemma sample_quiet: "quiet sample_env"
  by (simp add: quiet_def sample_env_def)

text \<open>A digest that tells apart just the requests of the example.\<close>

definition input_fields :: "ProcessInput \<Rightarrow> canonicalWagerFields" where
  "input_fields inp = \<lparr>cf_ProviderID = in_ProviderID inp, cf_ExternalTransactionID = in_ExternalTransactionID inp,
      cf_PlayerID = in_PlayerID inp, cf_WalletID = in_WalletID inp, cf_RoundID = in_RoundID inp,
      cf_GameID = in_GameID inp, cf_Kind = in_Kind inp, cf_MoneyAmount = DecimalString (in_Money inp),
      cf_MoneyCurrency = currency (in_Money inp),
      cf_ReferenceExternalTransactionID = in_ReferenceExternalTransactionID inp\<rparr>"

definition sample_digest :: "string \<Rightarrow> string" where
  "sample_digest s = (if s = render (canonical (input_fields (sample_bet ''k1'' 8000))) then ''a'' else ''b'')"

definition digest_uc :: UseCase where
  "digest_uc = NewProcessWagerTransaction sample_digest True"

lemma sample_hashes:
  "inputHash digest_uc (sample_bet ''k1'' 8000) = Inr ''61''"
  "inputHash digest_uc (sample_bet ''k1'' 5000) = Inr ''62''"
proof -
  have f: "inputHash digest_uc inp = Inr (hexEncode (sample_digest (render (canonical (input_fields inp)))))" for inp
    by (simp add: inputHash_def computePayloadHash_def digest_uc_def NewProcessWagerTransaction_def input_fields_def)
  have "fields_utf8 (input_fields (sample_bet ''k1'' 8000))" "fields_utf8 (input_fields (sample_bet ''k1'' 5000))"
    by code_simp+
  moreover have "DecimalString \<lparr>minorUnits = 8000, currency = ''BRL''\<rparr> \<noteq> DecimalString \<lparr>minorUnits = 5000, currency = ''BRL''\<rparr>"
    by code_simp
  then have "input_fields (sample_bet ''k1'' 5000) \<noteq> input_fields (sample_bet ''k1'' 8000)"
    by (simp add: input_fields_def sample_bet_def)
  ultimately have "sample_digest (render (canonical (input_fields (sample_bet ''k1'' 5000)))) = ''b''"
    by (simp add: sample_digest_def render_canonical_inject)
  moreover have "sample_digest (render (canonical (input_fields (sample_bet ''k1'' 8000)))) = ''a''"
    by (simp add: sample_digest_def)
  moreover have "hexEncode ''a'' = ''61''" "hexEncode ''b'' = ''62''" by code_simp+
  ultimately show "inputHash digest_uc (sample_bet ''k1'' 8000) = Inr ''61''"
    "inputHash digest_uc (sample_bet ''k1'' 5000) = Inr ''62''" by (simp_all add: f)
qed

abbreviation first_call :: "ProcessOutput result \<times> world" where
  "first_call \<equiv> Execute digest_uc (sample_bet ''k1'' 8000) sample_env (world_of sample_db)"

definition sample_outcome :: ProcessOutput where
  "sample_outcome = \<lparr>out_TransactionID = ''i'', out_Status = ''PROCESSED'',
     out_Balance = \<lparr>minorUnits = 2000, currency = ''BRL''\<rparr>, out_FailureCode = [], out_IdempotentReplay = False\<rparr>"

lemma first_call: "first_call = (Inr sample_outcome, snd first_call)"
proof -
  have "fst (executeLoop digest_uc 5 (sample_bet ''k1'' 8000) KindBet ''61'' sample_env (world_of sample_db)) = Inr sample_outcome"
    by code_simp
  moreover have "first_call = executeLoop digest_uc 5 (sample_bet ''k1'' 8000) KindBet ''61'' sample_env (world_of sample_db)"
    by (simp add: Execute_loop sample_hashes del: executeLoop.simps)
      (simp add: sample_bet_def Kind_of_def supportedKind_def digest_uc_def NewProcessWagerTransaction_def del: executeLoop.simps)
  ultimately show ?thesis by (simp only: prod_eq_iff fst_conv snd_conv)
qed

lemma sample_request_ok:
  "db_inv (committed (world_of sample_db))" "session (world_of sample_db) = None" "\<not> snapshot (world_of sample_db)"
  "in_IdempotencyKey (sample_bet ''k1'' 8000) \<noteq> []" "money_ok (in_Money (sample_bet ''k1'' 8000))"
  by (simp_all add: world_of_def sample_db_inv sample_bet_def money_ok_def iso4217Currencies_def)

theorem Execute_conflict_witness:
  "\<exists>w''. Execute digest_uc (sample_bet ''k1'' 5000) sample_env (snd first_call) =
     (Inl (UsecaseErr Usecase_ErrIdempotencyConflict), w'') \<and> committed w'' = committed (snd first_call)"
  by (rule Execute_conflict [OF sample_quiet sample_request_ok first_call])
    (simp_all add: sample_hashes, simp_all add: sample_bet_def supportedKind_def Kind_of_def)

end
