(* ===== verification/Accounts.thy ===== *)
theory Accounts
  imports Replay
begin

text \<open>
  An abstract view of \<open>Execute\<close>: a map from wallets to balances that each accepted operation moves
  by a signed amount. The concrete use case, with its repositories, optimistic save, ledger and
  outbox, refines it; as in \<open>Replay\<close> no other session runs and no statement fails.
\<close>

section \<open>The specification\<close>

text \<open>Balances per wallet, and what one accepted operation does to them: a bet takes its amount, a win
  and a refund give it, a loss moves nothing, and a rollback undoes what it refers to.\<close>

definition takes_back :: "db \<Rightarrow> ProcessInput \<Rightarrow> bool" where
  "takes_back c inp \<longleftrightarrow>
     (\<exists>r. find (\<lambda>r. xr_provider r = Some (in_ProviderID inp) \<and>
        xr_external r = Some (in_ReferenceExternalTransactionID inp)) (txs c) = Some r \<and>
       xr_kind r \<in> {KindWin, KindRefund})"

definition movement :: "db \<Rightarrow> ProcessInput \<Rightarrow> int" where
  "movement c inp = (case Kind_of (in_Kind inp) of
     KindBet \<Rightarrow> - amt (in_Money inp)
   | KindWin \<Rightarrow> amt (in_Money inp)
   | KindRefund \<Rightarrow> amt (in_Money inp)
   | KindRollback \<Rightarrow> (if takes_back c inp then - amt (in_Money inp) else amt (in_Money inp))
   | _ \<Rightarrow> 0)"

definition post_movement :: "string \<Rightarrow> int \<Rightarrow> (string \<Rightarrow> int) \<Rightarrow> string \<Rightarrow> int" where
  "post_movement i n b = b(i := b i + n)"

text \<open>The answer an operation on wallet \<open>i\<close> of \<open>c\<close> may give, moving \<open>n\<close> if it is accepted.\<close>

definition accounted :: "db \<Rightarrow> string \<Rightarrow> int \<Rightarrow> ProcessOutput \<Rightarrow> db \<Rightarrow> bool" where
  "accounted c i n out d \<longleftrightarrow>
     \<not> out_IdempotentReplay out \<and> amt (out_Balance out) = stored_balance d i \<and>
     (if out_Status out = ''PROCESSED'' then stored_balance d = post_movement i n (stored_balance c)
      else out_Status out \<in> {''REJECTED'', ''PENDING_REFERENCE''} \<and> wallets d = wallets c)"

section \<open>Code that leaves the wallets alone\<close>

definition wallet_pred :: "(db \<Rightarrow> bool) \<Rightarrow> bool" where
  "wallet_pred p \<longleftrightarrow> (\<forall>d d'. wallets d' = wallets d \<longrightarrow> p d \<longrightarrow> p d')"

lemma wallet_pred_intros [intro]:
  "wallet_pred (\<lambda>d. wallets d = ws)" "wallet_pred (\<lambda>d. stored_balance d = b)"
  by (auto simp: wallet_pred_def stored_balance_def fun_eq_iff)

locale wallet_neutral =
  fixes m :: "'a io"
  assumes keeps: "quiet e \<Longrightarrow> wallet_pred p \<Longrightarrow> triple e (viewing c p) m (\<lambda>_. viewing c p) anyhow"
begin

lemma keeps_then:
  assumes "quiet e" "wallet_pred p" "\<And>a. triple e (viewing c p) (k a) Q anyhow"
  shows "triple e (viewing c p) (bindM m k) Q anyhow"
  using keeps [OF assms(1,2)] assms(3) by (rule triple_bind)

end

lemma wallet_neutral_stmt:
  assumes "\<And>now d a d'. s now d = Inr (a, d') \<Longrightarrow> wallets d' = wallets d"
  shows "wallet_neutral (stmt s)"
proof
  fix e p c assume "quiet e" and p: "wallet_pred p"
  then show "triple e (viewing c p) (stmt s) (\<lambda>_. viewing c p) anyhow"
  proof (rule_tac quiet_stmt)
    fix now d a d' assume "p d" "s now d = Inr (a, d')"
    with assms [of now d a d'] p show "p d'" unfolding wallet_pred_def by blast
  qed
qed

lemma wallet_neutral_unique: "wallet_neutral m \<Longrightarrow> wallet_neutral (unique_as_exists m)"
  unfolding wallet_neutral_def by (blast intro: triple_unique_as_exists)

interpretation txUpdate: wallet_neutral "TxUpdate t" for t
proof
  fix e p c assume q: "quiet e" and p: "wallet_pred p"
  have "wallet_neutral (stmt (\<lambda>_. update_tx (\<lambda>r. xr_id r = t_id t) (tx_update_row t)))"
    by (rule wallet_neutral_stmt) (auto simp: update_tx_def bindE_Inr_iff)
  then show "triple e (viewing c p) (TxUpdate t) (\<lambda>_. viewing c p) anyhow"
    unfolding TxUpdate_def by (rule wallet_neutral.keeps_then [OF _ q p]) (intro triple_rules; simp)
qed

interpretation ledgerCreate: wallet_neutral "LedgerCreate en" for en
  unfolding LedgerCreate_def
  by (rule wallet_neutral_unique, rule wallet_neutral_stmt) (auto simp: insert_entry_def bindE_Inr_iff)

interpretation outboxCreate: wallet_neutral "OutboxCreate ev" for ev
proof
  fix e p c assume q: "quiet e" and p: "wallet_pred p"
  have "wallet_neutral (unique_as_exists (stmt (\<lambda>now. insert_outbox (event_to_row now ev j))))" for j
    by (rule wallet_neutral_unique, rule wallet_neutral_stmt) (auto simp: insert_outbox_def bindE_Inr_iff)
  from wallet_neutral.keeps [OF this q p] show "triple e (viewing c p) (OutboxCreate ev) (\<lambda>_. viewing c p) anyhow"
    unfolding OutboxCreate_def by (intro viewing_lift)
qed

interpretation newID: wallet_neutral NewID
  by unfold_locales (rule viewing_NewID)

lemmas wallet_keep = txUpdate.keeps_then ledgerCreate.keeps_then outboxCreate.keeps_then newID.keeps_then

section \<open>The answers of the parts\<close>

definition answered :: "db \<Rightarrow> string \<Rightarrow> int \<Rightarrow> string \<Rightarrow> string \<Rightarrow> ProcessOutput \<Rightarrow> db \<Rightarrow> bool" where
  "answered c i n st fc out d \<longleftrightarrow> accounted c i n out d \<and> out_Status out = st \<and> out_FailureCode out = fc"

lemma answered_accounted: "answered c i n st fc out d \<Longrightarrow> accounted c i n out d"
  by (simp add: answered_def)

lemma accounted_reject:
  assumes q: "quiet e" and b: "amt (w_balance w) = stored_balance c i"
  shows "triple e (viewing c (\<lambda>d. wallets d = wallets c)) (reject t w fc now cid) (\<lambda>out. viewing c (answered c i n ''REJECTED'' fc out)) anyhow"
  unfolding reject_def using b
  by (intro viewing_lift wallet_keep [OF q] wallet_pred_intros triple_ret)
    (auto simp: answered_def accounted_def stored_balance_def elim!: viewing_weaken)

lemma accounted_pending:
  assumes q: "quiet e" and b: "amt (w_balance w) = stored_balance c i"
  shows "triple e (viewing c (\<lambda>d. wallets d = wallets c)) (pendingReference t w now cid)
    (\<lambda>out. viewing c (answered c i n ''PENDING_REFERENCE'' [] out)) anyhow"
  unfolding pendingReference_def using b
  by (intro viewing_lift wallet_keep [OF q] wallet_pred_intros triple_ret)
    (auto simp: answered_def accounted_def stored_balance_def elim!: viewing_weaken)

lemma accounted_loss:
  assumes q: "quiet e" and b: "amt (w_balance w) = stored_balance c i"
  shows "triple e (viewing c (\<lambda>d. wallets d = wallets c)) (settleLoss inp t w now cid)
    (\<lambda>out. viewing c (answered c i 0 ''PROCESSED'' [] out)) anyhow"
  unfolding settleLoss_def using b
  by (intro viewing_lift wallet_keep [OF q] wallet_pred_intros triple_ret)
    (auto simp: answered_def accounted_def stored_balance_def post_movement_def fun_eq_iff elim!: viewing_weaken)

lemma accounted_events:
  assumes q: "quiet e" and b: "amt (w_balance w) = stored_balance c i + n"
  shows "triple e (viewing c (\<lambda>d. stored_balance d = post_movement i n (stored_balance c)))
    (settled_events t w b0 dir a now cid) (\<lambda>out. viewing c (answered c i n ''PROCESSED'' [] out)) anyhow"
  unfolding settled_events_def using b
  by (intro viewing_lift wallet_keep [OF q] wallet_pred_intros triple_ret)
    (auto simp: answered_def accounted_def post_movement_def elim!: viewing_weaken)

lemma accounted_settle:
  assumes q: "quiet e" and i: "w_id w = i" and b: "amt (w_balance w) = stored_balance c i + n"
  shows "triple e (viewing c (\<lambda>d. db_inv d \<and> wallets d = wallets c)) (settle t w v b0 dir a now cid)
    (\<lambda>out. viewing c (answered c i n ''PROCESSED'' [] out)) anyhow"
proof -
  let ?B = "\<lambda>d. stored_balance d = post_movement i n (stored_balance c)"
  have save: "triple e (viewing c (\<lambda>d. db_inv d \<and> wallets d = wallets c)) (WalletSave w v) (\<lambda>_. viewing c ?B) anyhow"
    unfolding WalletSave_def
  proof (rule triple_bind, rule quiet_stmt [OF q])
    fix now d m d'
    let ?sel = "\<lambda>r. wr_id r = w_id w \<and> wr_version r = v"
    let ?f = "\<lambda>r. r\<lparr>wr_balance := minorUnits (w_balance w), wr_version := w_version w, wr_updated := pg_ts (w_updatedAt w)\<rparr>"
    assume d: "db_inv d \<and> wallets d = wallets c" and up: "update_wallet ?sel ?f d = Inr (m, d')"
    have same: "stored_balance d = stored_balance c" using d by (simp add: stored_balance_def fun_eq_iff)
    show "m \<noteq> 0 \<longrightarrow> ?B d'"
    proof
      assume m: "m \<noteq> 0"
      have ent: "entries d' = entries d" using up by (auto simp: update_wallet_def bindE_Inr_iff)
      have eff: "\<exists>r\<in>set (wallets d). ?sel r \<and> ?f r \<in> set (wallets d') \<and>
          gap d' j = gap d j + (if j = w_id w then sint (wr_balance (?f r)) - sint (wr_balance r) else 0)" for j
        by (rule update_wallet_inv(3) [OF conjunct1 [OF d] up _ _ _ m]) auto
      have "stored_balance d' j = stored_balance d j + (if j = i then n else 0)" for j
      proof -
        obtain r where r: "r \<in> set (wallets d)" "wr_id r = w_id w"
          "gap d' j = gap d j + (if j = w_id w then amt (w_balance w) - sint (wr_balance r) else 0)"
          using eff [of j] by auto
        moreover have "sint (wr_balance r) = stored_balance c i"
          using stored_balance_row [of d r] r d i same by (simp add: db_inv_def)
        moreover have "ledger_sum d' j = ledger_sum d j" using ent by (simp add: ledger_sum_def)
        ultimately show ?thesis using b i by (auto simp: gap_def)
      qed
      then show "?B d'" by (simp add: post_movement_def fun_eq_iff same)
    qed
  next
    fix m :: nat
    show "triple e (viewing c (\<lambda>d. m \<noteq> 0 \<longrightarrow> ?B d)) (if m = 0 then throw (PortsErr Ports_ErrOptimisticLock) else ret ())
        (\<lambda>_. viewing c ?B) anyhow"
      by (intro triple_rules) (auto elim: viewing_weaken)
  qed
  show ?thesis
    unfolding settle_def
    by (rule triple_bind [OF save])
      (intro viewing_lift wallet_keep [OF q] wallet_pred_intros accounted_events [OF q b])
qed

lemma answered_weaken:
  assumes "triple e P m (\<lambda>out. viewing c (answered c i n st fc out)) anyhow"
  shows "triple e P m (\<lambda>out. viewing c (accounted c i n out)) anyhow"
  by (rule triple_weaken [OF assms]) (auto elim!: viewing_weaken intro: answered_accounted)

lemma wallets_view: "triple e (viewing c (\<lambda>d. wallets d = wallets c)) m Q R \<Longrightarrow>
    triple e (viewing c (\<lambda>d. db_inv d \<and> wallets d = wallets c)) m Q R"
  by (erule triple_weaken) (auto elim: viewing_weaken)

lemma answered_debit:
  assumes q: "quiet e" and b: "amt (w_balance w) = stored_balance c (w_id w)"
  shows "triple e (viewing c (\<lambda>d. db_inv d \<and> wallets d = wallets c)) (debitAndSettle t w a fc now cid)
    (\<lambda>out. viewing c (\<lambda>d. if amt a \<le> stored_balance c (w_id w) then answered c (w_id w) (- amt a) ''PROCESSED'' [] out d
       else answered c (w_id w) (- amt a) ''REJECTED'' fc out d)) anyhow"
proof (cases "Debit w a now")
  case (Pair r w')
  show ?thesis
  proof (cases r)
    case None
    note eff = debit.move_effect [OF Pair [unfolded None]]
    from Pair None have le: "amt a \<le> stored_balance c (w_id w)" by (simp add: Debit_None_iff flip: b)
    have "triple e (viewing c (\<lambda>d. db_inv d \<and> wallets d = wallets c))
        (settle t w' (w_version w) (w_balance w) DirectionDebit a now cid)
        (\<lambda>out. viewing c (answered c (w_id w) (- amt a) ''PROCESSED'' [] out)) anyhow"
      using eff b by (intro accounted_settle [OF q]) simp_all
    then show ?thesis using le by (simp add: debitAndSettle_def Pair None)
  next
    case (Some err)
    then have w': "w' = w" using debit.move_error_keeps Pair by simp
    show ?thesis
    proof (cases "err = WalletErr Wallet_ErrInsufficientBalance")
      case True
      have "fst (Debit w a now) = Some (WalletErr Wallet_ErrInsufficientBalance)" using Pair Some True by simp
      then have "stored_balance c (w_id w) < amt a"
        by (auto simp: Debit_def Sub_def subInt64_spec int64_simps b split: if_splits)
      then show ?thesis
        using wallets_view [OF accounted_reject [OF q b, of t fc now cid "- amt a"]] Some True w'
        by (simp add: debitAndSettle_def Pair)
    qed (simp add: debitAndSettle_def Pair Some triple_throw)
  qed
qed

lemma accounted_credit:
  assumes q: "quiet e" and b: "amt (w_balance w) = stored_balance c (w_id w)"
  shows "triple e (viewing c (\<lambda>d. db_inv d \<and> wallets d = wallets c)) (creditAndSettle t w a now cid)
    (\<lambda>out. viewing c (accounted c (w_id w) (amt a) out)) anyhow"
proof (cases "Credit w a now")
  case (Pair r w')
  show ?thesis
  proof (cases r)
    case None
    note eff = credit.move_effect [OF Pair [unfolded None]]
    have "triple e (viewing c (\<lambda>d. db_inv d \<and> wallets d = wallets c))
        (settle t w' (w_version w) (w_balance w) DirectionCredit a now cid)
        (\<lambda>out. viewing c (answered c (w_id w) (amt a) ''PROCESSED'' [] out)) anyhow"
      using eff b by (intro accounted_settle [OF q]) simp_all
    then show ?thesis by (simp add: creditAndSettle_def Pair None answered_weaken)
  qed (simp add: creditAndSettle_def Pair triple_throw)
qed

lemma accounted_debit:
  assumes q: "quiet e" and b: "amt (w_balance w) = stored_balance c (w_id w)"
  shows "triple e (viewing c (\<lambda>d. db_inv d \<and> wallets d = wallets c)) (debitAndSettle t w a fc now cid)
    (\<lambda>out. viewing c (accounted c (w_id w) (- amt a) out)) anyhow"
  by (rule triple_weaken [OF answered_debit [OF q b]])
    (auto elim!: viewing_weaken split: if_splits dest: answered_accounted)

section \<open>An attempt\<close>

text \<open>After the transaction row is created: everything else is as committed.\<close>

definition created :: "db \<Rightarrow> WagerTransaction \<Rightarrow> db \<Rightarrow> bool" where
  "created c t d \<longleftrightarrow> db_inv d \<and> wallets d = wallets c \<and> txs d = txs c @ [tx_to_row t]"

lemma created_view: "triple e (viewing c (\<lambda>d. db_inv d \<and> wallets d = wallets c)) m Q R \<Longrightarrow>
    triple e (viewing c (created c t)) m Q R"
  by (erule triple_weaken) (auto elim!: viewing_weaken simp: created_def)

definition kind_of_reference :: "db \<Rightarrow> ProcessInput \<Rightarrow> Kind \<Rightarrow> bool" where
  "kind_of_reference c inp k \<longleftrightarrow> (takes_back c inp \<longleftrightarrow> k \<in> {KindWin, KindRefund})"

lemma accounted_applyKind:
  assumes q: "quiet e" and b: "amt (w_balance w) = stored_balance c (w_id w)"
    and k: "kind = Kind_of (in_Kind inp)"
    and ref: "\<And>r. ref = Some r \<Longrightarrow> kind_of_reference c inp (t_kind r)"
  shows "triple e (viewing c (\<lambda>d. db_inv d \<and> wallets d = wallets c)) (applyKind inp kind t w ref now cid)
    (\<lambda>out. viewing c (accounted c (w_id w) (movement c inp) out)) anyhow"
  using accounted_debit [OF q b] accounted_credit [OF q b] wallets_view [OF answered_weaken [OF accounted_loss [OF q b]]] ref
  by (cases kind; cases ref)
    (simp_all add: applyKind_def triple_throw movement_def kind_of_reference_def flip: k)

lemma accounted_withReference:
  assumes q: "quiet e" and b: "amt (w_balance w) = stored_balance c (w_id w)"
    and k: "kind = Kind_of (in_Kind inp)"
    and ref: "t_status r = StatusProcessed \<Longrightarrow> kind_of_reference c inp (t_kind r)"
  shows "triple e (viewing c (\<lambda>d. db_inv d \<and> wallets d = wallets c)) (withReference inp kind t w r now cid)
    (\<lambda>out. viewing c (accounted c (w_id w) (movement c inp) out)) anyhow"
    (is "triple e (viewing c ?V) _ ?Q _")
proof (cases "t_status r = StatusProcessed")
  case False
  then show ?thesis
    using wallets_view [OF answered_weaken [OF accounted_reject [OF q b]]]
      wallets_view [OF answered_weaken [OF accounted_pending [OF q b]]]
    by (simp add: withReference_def)
next
  case True
  note rej = wallets_view [OF answered_weaken [OF accounted_reject [OF q b]]]
  have resolved: "triple e (viewing c ?V) (bindM (lift (orReturn (ResolveReference t (t_id r) now)))
      (\<lambda>t'. applyKind inp kind t' w (Some r) now cid)) ?Q anyhow"
    by (intro viewing_lift accounted_applyKind [OF q b k]) (use ref True in simp)
  have rev: "triple e (viewing c ?V) (if kind = KindRefund \<or> kind = KindRollback
      then notFoundAsNil (TxFindProcessedReversalByReference (t_id r)) else ret None)
      (\<lambda>o'. case o' of None \<Rightarrow> viewing c ?V | Some x \<Rightarrow> viewing c (\<lambda>d. ?V d \<and> True)) anyhow"
    unfolding TxFindProcessedReversalByReference_def
    by (intro triple_if quiet_optional quiet_find q triple_ret) auto
  have "triple e (viewing c ?V) (bindM (if kind = KindRefund \<or> kind = KindRollback
      then notFoundAsNil (TxFindProcessedReversalByReference (t_id r)) else ret None)
      (\<lambda>alreadyReversed. case alreadyReversed of
           Some _ \<Rightarrow> reject t w failureCodeReferenceAlreadyReversed now cid
         | None \<Rightarrow> bindM (lift (orReturn (ResolveReference t (t_id r) now))) (\<lambda>t'.
             applyKind inp kind t' w (Some r) now cid))) ?Q anyhow"
    using rej resolved by (intro triple_bind [OF rev]) (simp split: option.split)
  then show ?thesis unfolding withReference_def using rej True by simp
qed

lemma find_append_some: "find P rs = Some r \<Longrightarrow> find P (rs @ ss) = Some r"
  by (induction rs) (auto split: if_splits)

text \<open>A processed reference was there before the transaction that names it.\<close>

lemma reference_kind:
  assumes d: "created c t d" and t: "t_status t = StatusPending"
    and x: "scanWagerTx (find (\<lambda>r. xr_provider r = Some (in_ProviderID inp) \<and>
        xr_external r = Some (in_ReferenceExternalTransactionID inp)) (txs d)) = Inr x"
    and st: "t_status x = StatusProcessed"
  shows "kind_of_reference c inp (t_kind x)"
proof -
  let ?P = "\<lambda>r. xr_provider r = Some (in_ProviderID inp) \<and> xr_external r = Some (in_ReferenceExternalTransactionID inp)"
  obtain r where r: "find ?P (txs d) = Some r" using x by (cases "find ?P (txs d)") (auto simp: scanWagerTx_def)
  then have x': "xr_status r = StatusProcessed" "t_kind x = xr_kind r" using x st scanWagerTx_fields [of r x] by auto
  have "find ?P (txs c) = Some r"
  proof (cases "find ?P (txs c)")
    case None
    then have "r = tx_to_row t" using r find_append_none [OF None, of "tx_to_row t"] d
      by (simp add: created_def split: if_splits)
    then show ?thesis using x' t by (simp add: tx_to_row_def)
  next
    case (Some r0)
    from find_append_some [OF this, of "[tx_to_row t]"] show ?thesis using r d Some by (simp add: created_def)
  qed
  then show ?thesis using x' by (auto simp: kind_of_reference_def takes_back_def)
qed

lemma accounted_resolveAndApply:
  assumes q: "quiet e" and b: "amt (w_balance w) = stored_balance c (w_id w)"
    and k: "kind = Kind_of (in_Kind inp)" and t: "t_status t = StatusPending"
  shows "triple e (viewing c (created c t)) (resolveAndApply inp kind t w now cid)
    (\<lambda>out. viewing c (accounted c (w_id w) (movement c inp) out)) anyhow"
    (is "triple e _ _ ?Q _")
proof -
  let ?row = "\<lambda>d. find (\<lambda>r. xr_provider r = Some (in_ProviderID inp) \<and>
        xr_external r = Some (in_ReferenceExternalTransactionID inp)) (txs d)"
  note rej = created_view [OF wallets_view [OF answered_weaken [OF accounted_reject [OF q b]]]]
  note pend = created_view [OF wallets_view [OF answered_weaken [OF accounted_pending [OF q b]]]]
  have find: "triple e (viewing c (created c t))
      (TxFindByProviderAndExternalID (in_ProviderID inp) (in_ReferenceExternalTransactionID inp))
      (\<lambda>x. viewing c (\<lambda>d. created c t d \<and> scanWagerTx (?row d) = Inr x)) (\<lambda>_. viewing c (created c t))"
    unfolding TxFindByProviderAndExternalID_def by (rule quiet_find [OF q]) simp
  have "triple e (viewing c (\<lambda>d. created c t d \<and> scanWagerTx (?row d) = Inr x)) (withReference inp kind t w x now cid) ?Q anyhow" for x
  proof (cases "t_status x = StatusProcessed \<longrightarrow> kind_of_reference c inp (t_kind x)")
    case True
    then have "triple e (viewing c (created c t)) (withReference inp kind t w x now cid) ?Q anyhow"
      by (intro created_view accounted_withReference [OF q b k]) simp
    then show ?thesis by (rule triple_weaken) (auto elim: viewing_weaken)
  next
    case False
    then have "\<not> viewing c (\<lambda>d. created c t d \<and> scanWagerTx (?row d) = Inr x) v" for v
      using reference_kind [OF _ t] by (auto simp: viewing_def)
    then show ?thesis by (simp add: triple_def)
  qed
  then have "triple e (viewing c (created c t))
      (bindM (attempting (TxFindByProviderAndExternalID (in_ProviderID inp) (in_ReferenceExternalTransactionID inp))) (\<lambda>r. case r of
       Inl err \<Rightarrow> if err = PortsErr Ports_ErrNotFound then pendingReference t w now cid else throw err
     | Inr reference \<Rightarrow> withReference inp kind t w reference now cid)) ?Q anyhow"
    using pend by (intro quiet_try [OF find]) (simp_all add: triple_throw)
  then show ?thesis
    unfolding resolveAndApply_def
    using rej created_view [OF accounted_applyKind [OF q b k, of None]] by simp
qed

lemma replay_flagged:
  assumes q: "quiet e"
  shows "triple e (viewing c (\<lambda>d. d = c)) (resolveExisting inp hash)
    (\<lambda>fo. viewing c (\<lambda>d. d = c \<and> (\<forall>out. fo = Some out \<longrightarrow> out_IdempotentReplay out))) anyhow"
proof -
  have lookup: "triple e (viewing c (\<lambda>d. d = c)) (notFoundAsNil (bindM (query (\<lambda>_. f)) (\<lambda>row. lift (scanWagerTx row))))
    (\<lambda>_. viewing c (\<lambda>d. d = c)) anyhow" for f
    by (rule triple_weaken [OF quiet_lookup [OF q]]) (auto elim: viewing_weaken)
  have find: "triple e (viewing c (\<lambda>d. d = c)) (WalletFindByID i) (\<lambda>_. viewing c (\<lambda>d. d = c)) anyhow" for i
    unfolding WalletFindByID_def
    by (rule triple_weaken [OF quiet_find [OF q, of "\<lambda>d. d = c" _ _ "\<lambda>_ _. True"]]) (auto elim: viewing_weaken)
  have answer: "triple e (viewing c (\<lambda>d. d = c)) (bindM (replayOutput t) (\<lambda>out. ret (Some out)))
      (\<lambda>fo. viewing c (\<lambda>d. d = c \<and> (\<forall>out. fo = Some out \<longrightarrow> out_IdempotentReplay out))) anyhow" for t
  proof -
    have "triple e (viewing c (\<lambda>d. d = c)) (replayOutput t) (\<lambda>out. viewing c (\<lambda>d. d = c \<and> out_IdempotentReplay out)) anyhow"
      unfolding replayOutput_def
    proof (rule triple_bind)
      show "triple e (viewing c (\<lambda>d. d = c)) (case t_financialResult t of Some m \<Rightarrow> ret m
          | None \<Rightarrow> bindM (WalletFindByID (t_walletID t)) (\<lambda>w. ret (w_balance w))) (\<lambda>_. viewing c (\<lambda>d. d = c)) anyhow"
        by (cases "t_financialResult t") (simp_all add: triple_ret triple_bind [OF find])
    qed (rule triple_ret, auto elim: viewing_weaken)
    then show ?thesis by (rule triple_bind) (auto intro!: triple_ret elim: viewing_weaken)
  qed
  have none: "triple e (viewing c (\<lambda>d. d = c)) (ret None)
      (\<lambda>fo. viewing c (\<lambda>d. d = c \<and> (\<forall>out. fo = Some out \<longrightarrow> out_IdempotentReplay out))) anyhow"
    by (rule triple_ret) (auto elim: viewing_weaken)
  show ?thesis
    unfolding resolveExisting_def TxFindByIdempotencyKey_def TxFindByProviderAndExternalID_def
    by (rule triple_bind [where Q' = "\<lambda>_. viewing c (\<lambda>d. d = c)"])
      (auto intro!: triple_if lookup triple_ret triple_throw answer none triple_bind [OF lookup] split: option.split)
qed

text \<open>What an attempt answers is a replay or what \<open>resolveAndApply\<close> answers for the wallet it read and
  the transaction it created.\<close>

lemma attempt_frame:
  assumes q: "quiet e" and inv: "db_inv c"
    and resolve: "\<And>wl tx i now. scanWallet (wallet_of c (in_WalletID inp)) = Inr wl \<Longrightarrow>
      NewExternalTransaction i (in_ProviderID inp) (in_ExternalTransactionID inp)
           (in_IdempotencyKey inp) hash (w_id wl) (w_playerID wl) (in_RoundID inp) (in_GameID inp) kind
           (in_Money inp) (in_ReferenceExternalTransactionID inp) now = Inr tx \<Longrightarrow>
      triple e (viewing c (created c tx)) (resolveAndApply inp kind tx wl now (t_id tx)) (\<lambda>out. viewing c (Q out)) anyhow"
    and fresh: "\<And>out d. Q out d \<Longrightarrow> \<not> out_IdempotentReplay out"
  shows "triple e (viewing c (\<lambda>d. d = c)) (attempt inp kind hash) (\<lambda>out. viewing c (\<lambda>d.
    if out_IdempotentReplay out then d = c else Q out d)) anyhow"
    (is "triple e _ _ ?Q _")
  unfolding attempt_def
proof (rule triple_bind [OF replay_flagged [OF q]])
  fix fo
  have find: "triple e (viewing c (\<lambda>d. d = c)) (WalletFindByID (in_WalletID inp))
      (\<lambda>w. viewing c (\<lambda>d. d = c \<and> scanWallet (wallet_of c (in_WalletID inp)) = Inr w)) anyhow"
    unfolding WalletFindByID_def
    by (rule triple_weaken [OF quiet_find [OF q, of "\<lambda>d. d = c" _ _
        "\<lambda>w d. scanWallet (wallet_of c (in_WalletID inp)) = Inr w"]]) auto
  have guard: "triple e (viewing c (\<lambda>d. d = c \<and> B)) x Q' anyhow"
    if "B \<Longrightarrow> triple e (viewing c (\<lambda>d. d = c)) x Q' anyhow" for B and x :: "ProcessOutput io" and Q'
    using that by (cases B) (auto simp: triple_def viewing_def)
  have create: "triple e (viewing c (\<lambda>d. d = c)) (TxCreate t) (\<lambda>_. viewing c (created c t)) anyhow" for t
    unfolding TxCreate_def
  proof (rule viewing_unique, rule quiet_stmt [OF q])
    fix now d a d' assume "d = c" and i: "insert_tx (tx_to_row t) d = Inr (a, d')"
    then have i: "insert_tx (tx_to_row t) c = Inr (a, d')" by simp
    then have "txs d' = txs c @ [tx_to_row t]" by (auto simp: insert_tx_def bindE_Inr_iff insert_row_Inr_iff)
    then show "created c t d'" using insert_tx_inv(1,3) [OF inv i] by (simp add: created_def)
  qed
  have new: "triple e P m ?Q anyhow" if "triple e P m (\<lambda>out. viewing c (Q out)) anyhow" for P m
    by (rule triple_weaken [OF that]) (auto elim!: viewing_weaken dest: fresh)
  have rest: "triple e (viewing c (\<lambda>d. d = c)) (if w_playerID w \<noteq> in_PlayerID inp
         then throw (UsecaseErr Usecase_ErrWalletPlayerMismatch)
         else bindM timeNow (\<lambda>now. bindM NewID (\<lambda>i.
         bindM (lift (NewExternalTransaction i (in_ProviderID inp) (in_ExternalTransactionID inp)
           (in_IdempotencyKey inp) hash (w_id w) (w_playerID w) (in_RoundID inp) (in_GameID inp) kind
           (in_Money inp) (in_ReferenceExternalTransactionID inp) now)) (\<lambda>tx.
         bindM (TxCreate tx) (\<lambda>_. resolveAndApply inp kind tx w now (t_id tx)))))) ?Q anyhow"
    if w: "scanWallet (wallet_of c (in_WalletID inp)) = Inr w" for w
    by (intro triple_if triple_throw viewing_then [OF viewing_timeNow] viewing_then [OF viewing_NewID] viewing_lift TrueI)
      (intro triple_bind [OF create] new resolve [OF w])
  show "triple e (viewing c (\<lambda>d. d = c \<and> (\<forall>out. fo = Some out \<longrightarrow> out_IdempotentReplay out)))
      (case fo of Some out \<Rightarrow> ret out
       | None \<Rightarrow> bindM (WalletFindByID (in_WalletID inp)) (\<lambda>w.
         if w_playerID w \<noteq> in_PlayerID inp then throw (UsecaseErr Usecase_ErrWalletPlayerMismatch)
         else bindM timeNow (\<lambda>now. bindM NewID (\<lambda>i.
         bindM (lift (NewExternalTransaction i (in_ProviderID inp) (in_ExternalTransactionID inp)
           (in_IdempotencyKey inp) hash (w_id w) (w_playerID w) (in_RoundID inp) (in_GameID inp) kind
           (in_Money inp) (in_ReferenceExternalTransactionID inp) now)) (\<lambda>tx.
         bindM (TxCreate tx) (\<lambda>_. resolveAndApply inp kind tx w now (t_id tx))))))) ?Q anyhow"
  proof (cases fo)
    case None
    show ?thesis unfolding None option.case
      by (rule guard, rule triple_bind [OF find], rule guard, rule rest)
  qed (auto intro!: triple_ret elim!: viewing_weaken)
qed

lemma wallet_read:
  assumes inv: "db_inv c" and s: "scanWallet (wallet_of c i) = Inr wl"
  shows "w_id wl = i" and "amt (w_balance wl) = stored_balance c i"
    and "\<exists>r. wallet_of c i = Some r \<and> w_currency wl = wr_currency r"
proof -
  obtain r where r: "wallet_of c i = Some r" "scanWallet (Some r) = Inr wl"
    using s by (auto simp: scanWallet_Inr_iff)
  from scanWallet_seen [OF inv r] db_inv_wallet_row [OF inv r] r
  show "w_id wl = i" "amt (w_balance wl) = stored_balance c i" "\<exists>r. wallet_of c i = Some r \<and> w_currency wl = wr_currency r"
    by (simp_all add: w_currency_def)
qed

lemma accounted_attempt:
  assumes q: "quiet e" and inv: "db_inv c" and k: "kind = Kind_of (in_Kind inp)"
  shows "triple e (viewing c (\<lambda>d. d = c)) (attempt inp kind hash) (\<lambda>out. viewing c (\<lambda>d.
    if out_IdempotentReplay out then d = c else accounted c (in_WalletID inp) (movement c inp) out d)) anyhow"
proof (rule attempt_frame [OF q inv])
  fix wl tx i now
  assume w: "scanWallet (wallet_of c (in_WalletID inp)) = Inr wl"
    and "NewExternalTransaction i (in_ProviderID inp) (in_ExternalTransactionID inp)
           (in_IdempotencyKey inp) hash (w_id wl) (w_playerID wl) (in_RoundID inp) (in_GameID inp) kind
           (in_Money inp) (in_ReferenceExternalTransactionID inp) now = Inr tx"
  then have t: "t_status tx = StatusPending" by (simp add: NewExternalTransaction_Inr_iff)
  show "triple e (viewing c (created c tx)) (resolveAndApply inp kind tx wl now (t_id tx))
      (\<lambda>out. viewing c (accounted c (in_WalletID inp) (movement c inp) out)) anyhow"
    using accounted_resolveAndApply [OF q _ k t, of wl c] wallet_read [OF inv w] by simp
qed (simp add: accounted_def)

definition bet_answer :: "string \<Rightarrow> Money \<Rightarrow> int \<Rightarrow> string \<times> string" where
  "bet_answer cur stake balance =
     (if cur \<noteq> currency stake then (''REJECTED'', ''CURRENCY_MISMATCH'')
      else if amt stake \<le> balance then (''PROCESSED'', [])
      else (''REJECTED'', ''INSUFFICIENT_BALANCE''))"

lemma bet_attempt:
  assumes q: "quiet e" and inv: "db_inv c"
  shows "triple e (viewing c (\<lambda>d. d = c)) (attempt inp KindBet hash) (\<lambda>out. viewing c (\<lambda>d.
    if out_IdempotentReplay out then d = c else \<not> out_IdempotentReplay out \<and>
      (\<exists>r. wallet_of c (in_WalletID inp) = Some r \<and>
        (out_Status out, out_FailureCode out) =
          bet_answer (wr_currency r) (in_Money inp) (stored_balance c (in_WalletID inp))))) anyhow"
proof (rule attempt_frame [OF q inv])
  fix wl tx i now
  assume w: "scanWallet (wallet_of c (in_WalletID inp)) = Inr wl"
    and tx: "NewExternalTransaction i (in_ProviderID inp) (in_ExternalTransactionID inp)
           (in_IdempotencyKey inp) hash (w_id wl) (w_playerID wl) (in_RoundID inp) (in_GameID inp) KindBet
           (in_Money inp) (in_ReferenceExternalTransactionID inp) now = Inr tx"
  let ?Q = "\<lambda>out d. \<not> out_IdempotentReplay out \<and> (\<exists>r. wallet_of c (in_WalletID inp) = Some r \<and>
      (out_Status out, out_FailureCode out) =
        bet_answer (wr_currency r) (in_Money inp) (stored_balance c (in_WalletID inp)))"
  have noref: "in_ReferenceExternalTransactionID inp = []"
    using tx by (simp add: NewExternalTransaction_Inr_iff external_rule_ok_def)
  obtain r where r: "wallet_of c (in_WalletID inp) = Some r" "w_currency wl = wr_currency r"
    using wallet_read(3) [OF inv w] by blast
  note i = wallet_read(1) [OF inv w]
  have b: "amt (w_balance wl) = stored_balance c (w_id wl)" using wallet_read(2) [OF inv w] i by simp
  show "triple e (viewing c (created c tx)) (resolveAndApply inp KindBet tx wl now (t_id tx)) (\<lambda>out. viewing c (?Q out)) anyhow"
  proof (cases "w_currency wl = currency (in_Money inp)")
    case False
    then have run: "resolveAndApply inp KindBet tx wl now (t_id tx) = reject tx wl FailureCodeCurrencyMismatch now (t_id tx)"
      by (simp add: resolveAndApply_def)
    show ?thesis unfolding run
      by (rule triple_weaken [OF created_view [OF wallets_view [OF accounted_reject [OF q b]]]])
        (use False r in \<open>auto elim!: viewing_weaken simp: answered_def accounted_def bet_answer_def
          FailureCodeCurrencyMismatch_def\<close>)
  next
    case True
    then have run: "resolveAndApply inp KindBet tx wl now (t_id tx) =
        debitAndSettle tx wl (in_Money inp) FailureCodeInsufficientBalance now (t_id tx)"
      by (simp add: resolveAndApply_def noref applyKind_def)
    show ?thesis unfolding run
      by (rule triple_weaken [OF created_view [OF answered_debit [OF q b]]])
        (use True r i in \<open>auto elim!: viewing_weaken split: if_splits simp: answered_def accounted_def bet_answer_def
          FailureCodeInsufficientBalance_def\<close>)
  qed
qed simp

section \<open>Properties\<close>

text \<open>C2: \<open>Execute\<close> refines bookkeeping on a map of balances. A first answer \<open>PROCESSED\<close> means the
  wallet's balance moved by exactly the signed amount the operation stands for (a bet takes, a
  win or refund gives, a loss moves nothing, a rollback takes back what a win or refund gave and
  gives back what a bet took) and no other balance changed; any other first answer is
  \<open>REJECTED\<close> or \<open>PENDING_REFERENCE\<close> and changes no wallet; the balance in the answer is the
  one stored; and a replay changes nothing at all.\<close>

theorem Execute_refines_accounts:
  assumes "quiet e" "db_inv (committed w)" "session w = None" "\<not> snapshot w"
    and "Execute uc inp e w = (Inr out, w')"
  shows "if out_IdempotentReplay out then committed w' = committed w
    else amt (out_Balance out) = stored_balance (committed w') (in_WalletID inp) \<and>
      (if out_Status out = ''PROCESSED''
       then stored_balance (committed w') =
         post_movement (in_WalletID inp) (movement (committed w) inp) (stored_balance (committed w))
       else out_Status out \<in> {''REJECTED'', ''PENDING_REFERENCE''} \<and> wallets (committed w') = wallets (committed w))"
proof -
  obtain hash where hash: "inputHash uc inp = Inr hash" using inputHash_Inr by blast
  have "executeLoop uc (uc_maxRetries uc) inp (Kind_of (in_Kind inp)) hash e w = (Inr out, w')"
    using assms(5) hash by (auto simp: Execute_loop split: if_splits)
  from quiet_executeLoop [OF assms(1) refl assms(3,4) accounted_attempt [OF assms(1,2) refl] this]
  show ?thesis by (auto simp: accounted_def)
qed

theorem Execute_refines_accounts_witness:
  "stored_balance (committed (snd first_call)) ''w1'' = 2000"
proof -
  have "stored_balance (committed (snd first_call)) =
      post_movement ''w1'' (movement sample_db (sample_bet ''k1'' 8000)) (stored_balance sample_db)"
    using Execute_refines_accounts [OF sample_quiet sample_request_ok(1-3) first_call]
    by (simp add: sample_outcome_def world_of_def) (simp add: sample_bet_def)
  then show ?thesis
    by (simp add: post_movement_def movement_def sample_bet_def Kind_of_def stored_balance_def sample_rows)
qed

text \<open>C8: A first bet is decided by the stored wallet alone: in another currency it is rejected as
  \<open>CURRENCY_MISMATCH\<close>, up to the stored balance it is processed, and above it is rejected as
  \<open>INSUFFICIENT_BALANCE\<close>. With the balance movement above, no sequence of bets can overdraw.\<close>

theorem Bet_decided_by_balance:
  assumes "quiet e" "db_inv (committed w)" "session w = None" "\<not> snapshot w"
    and "in_Kind inp = ''BET''" "Execute uc inp e w = (Inr out, w')" "\<not> out_IdempotentReplay out"
  shows "\<exists>r. wallet_of (committed w) (in_WalletID inp) = Some r \<and>
    (out_Status out, out_FailureCode out) =
      (if wr_currency r \<noteq> currency (in_Money inp) then (''REJECTED'', ''CURRENCY_MISMATCH'')
       else if amt (in_Money inp) \<le> sint (wr_balance r) then (''PROCESSED'', [])
       else (''REJECTED'', ''INSUFFICIENT_BALANCE''))"
proof -
  obtain hash where hash: "inputHash uc inp = Inr hash" using inputHash_Inr by blast
  have "executeLoop uc (uc_maxRetries uc) inp KindBet hash e w = (Inr out, w')"
    using assms(5,6) hash by (auto simp: Execute_loop Kind_of_def split: if_splits)
  from quiet_executeLoop [OF assms(1) refl assms(3,4) bet_attempt [OF assms(1,2)] this]
  obtain r where r: "wallet_of (committed w) (in_WalletID inp) = Some r" "(out_Status out, out_FailureCode out) =
      bet_answer (wr_currency r) (in_Money inp) (stored_balance (committed w) (in_WalletID inp))"
    using assms(7) by auto
  moreover have "stored_balance (committed w) (in_WalletID inp) = sint (wr_balance r)"
    using r(1) assms(2) stored_balance_row [of "committed w" r] by (auto simp: wallet_of_Some db_inv_def)
  ultimately show ?thesis by (auto simp: bet_answer_def)
qed

theorem Bet_decided_by_balance_witness:
  "\<exists>out. fst (Execute sample_uc (sample_bet ''k3'' 12000) sample_env (world_of sample_db)) = Inr out \<and>
     out_FailureCode out = ''INSUFFICIENT_BALANCE''"
proof -
  let ?res = "Execute sample_uc (sample_bet ''k3'' 12000) sample_env (world_of sample_db)"
  have "case fst ?res of Inr out \<Rightarrow> \<not> out_IdempotentReplay out | Inl _ \<Rightarrow> False" by code_simp
  then obtain out where out: "?res = (Inr out, snd ?res)" "\<not> out_IdempotentReplay out"
    by (cases ?res) (auto split: sum.splits)
  show ?thesis
    using Bet_decided_by_balance [OF sample_quiet sample_request_ok(1-3) _ out(1) out(2)] out(1)
    by (cases ?res) (auto simp: sample_bet_def world_of_def wallet_of_def sample_rows)
qed

end
