(* ===== verification/Rows.thy ===== *)
theory Rows
  imports Ledger_Repository
begin

text \<open>Domain values and table rows: what the constructors build fits the constraints of the schema, and what is stored is read back.\<close>

section \<open>Properties\<close>

text \<open>C16: A transaction comes back from its row as it was stored, its instants rounded down to
  microseconds, whether the row was written by \<open>Create\<close> or by \<open>Create\<close> and a later \<open>Update\<close> of the
  same transaction at another stage; optional fields, empty strings and missing results included.\<close>

theorem tx_row_roundtrip:
  assumes "t_id t \<noteq> []" "tx_money_ok t" "tx_identity t' = tx_identity t" "tx_money_ok t'"
  shows "scanWagerTx (Some (tx_to_row t)) = Inr (tx_stored t) \<and>
    scanWagerTx (Some (tx_update_row t' (tx_to_row t))) = Inr (tx_stored t')"
proof -
  have "t_id t' \<noteq> []" using assms(1,3) by (simp add: tx_identity_def)
  then show ?thesis
    using scanWagerTx_stored assms by (simp add: tx_update_as_insert [OF assms(3)])
qed

definition sample_tx :: WagerTransaction where
  "sample_tx = \<lparr>t_id = ''t1'', t_kind = KindBet, t_status = StatusPending, t_walletID = ''w1'',
     t_playerID = ''p1'', t_money = \<lparr>minorUnits = 500, currency = ''BRL''\<rparr>, t_providerID = ''prov'', t_externalID = ''x'',
     t_idempotencyKey = ''k'', t_payloadHash = ''h'', t_roundID = ''r'', t_gameID = ''g'',
     t_referenceExternalID = [], t_resolvedReferenceID = [], t_failureCode = [], t_financialResult = None,
     t_referenceRetryAttempts = 0, t_referenceNextRetryAt = None, t_createdAt = 1234567, t_updatedAt = 1234567\<rparr>"

theorem tx_row_roundtrip_witness:
  "scanWagerTx (Some (tx_update_row (sample_tx\<lparr>t_status := StatusRejected, t_failureCode := ''NO''\<rparr>) (tx_to_row sample_tx))) =
     Inr (sample_tx\<lparr>t_status := StatusRejected, t_failureCode := ''NO'', t_createdAt := 1234000, t_updatedAt := 1234000\<rparr>)"
  using tx_row_roundtrip [of sample_tx "sample_tx\<lparr>t_status := StatusRejected, t_failureCode := ''NO''\<rparr>"]
  by (simp add: sample_tx_def tx_money_ok_def money_ok_def tx_identity_def tx_stored_def pg_ts_def)

lemma constructor_facts:
  assumes "money_ok a"
  shows "NewExternalTransaction i p x k h w pl r g kind a ref now = Inr t \<Longrightarrow> tx_check (tx_to_row t)"
    and "NewOpeningTransaction i w pl a now = Inr t \<Longrightarrow> tx_check (tx_to_row t)"
    and "NewWallet i pl a now = Inr wl \<Longrightarrow> wallet_check (wallet_to_row wl)"
    and "NewEntry i w x d a b b' now = Inr en \<Longrightarrow> 0 \<le> amt b' \<Longrightarrow> ledger_check (entry_to_row en)"
proof -
  have cur: "currency_format (currency a)" using assms iso_currency_format by (simp add: money_ok_def)
  show "tx_check (tx_to_row t)" if "NewExternalTransaction i p x k h w pl r g kind a ref now = Inr t"
    using that cur unfolding NewExternalTransaction_Inr_iff
    by (auto simp: tx_check_def tx_to_row_def external_rule_ok_def tx_amount_by_kind_def tx_kind_fields_def
        tx_reference_by_kind_def in_int32_def)
  show "tx_check (tx_to_row t)" if "NewOpeningTransaction i w pl a now = Inr t"
    using that cur unfolding NewOpeningTransaction_Inr_iff
    by (auto simp: tx_check_def tx_to_row_def tx_amount_by_kind_def tx_kind_fields_def
        tx_reference_by_kind_def in_int32_def)
  show "wallet_check (wallet_to_row wl)" if "NewWallet i pl a now = Inr wl"
    using that cur unfolding NewWallet_Inr_iff by (simp add: wallet_check_def wallet_to_row_def w_currency_def)
  show "ledger_check (entry_to_row en)" if "NewEntry i w x d a b b' now = Inr en" "0 \<le> amt b'"
    using that cur unfolding NewEntry_Inr_iff
    by (auto simp: ledger_check_def entry_to_row_def entry_ok_def entry_delta_def)
qed

text \<open>C32: What the domain constructors accept satisfies the CHECK constraints of the schema, so no insert
  of a constructed value is refused for its shape: external transactions of every kind, openings,
  wallets, and ledger entries that leave a non-negative balance.\<close>

theorem constructors_satisfy_schema:
  assumes "money_ok a"
  shows "(\<forall>t. NewExternalTransaction i p x k h w pl r g kind a ref now = Inr t \<longrightarrow> tx_check (tx_to_row t)) \<and>
    (\<forall>t. NewOpeningTransaction i w pl a now = Inr t \<longrightarrow> tx_check (tx_to_row t)) \<and>
    (\<forall>wl. NewWallet i pl a now = Inr wl \<longrightarrow> wallet_check (wallet_to_row wl)) \<and>
    (\<forall>en. NewEntry i w x d a b b' now = Inr en \<and> 0 \<le> amt b' \<longrightarrow> ledger_check (entry_to_row en))"
  using constructor_facts(1) [OF assms] constructor_facts(2) [OF assms] constructor_facts(3) [OF assms]
    constructor_facts(4) [OF assms]
  by (intro conjI allI impI) auto

theorem constructors_satisfy_schema_witness:
  "case NewExternalTransaction ''t1'' ''prov'' ''x'' ''k'' ''h'' ''w'' ''p'' ''r'' ''g'' KindRefund
      \<lparr>minorUnits = 500, currency = ''BRL''\<rparr> ''x0'' 7 of Inr t \<Rightarrow> tx_check (tx_to_row t) | Inl _ \<Rightarrow> False"
proof -
  let ?a = "\<lparr>minorUnits = 500, currency = ''BRL''\<rparr>"
  obtain t where t: "NewExternalTransaction ''t1'' ''prov'' ''x'' ''k'' ''h'' ''w'' ''p'' ''r'' ''g'' KindRefund ?a ''x0'' 7 = Inr t"
    by (simp add: NewExternalTransaction_Inr_iff external_rule_ok_def)
  with constructors_satisfy_schema [of ?a "''t1''" "''prov''" "''x''" "''k''" "''h''" "''w''" "''p''" "''r''" "''g''" KindRefund "''x0''" 7]
  show ?thesis by (simp add: money_ok_def)
qed

end
