(* ===== verification/Opening.thy ===== *)
theory Opening
  imports Replay
begin

text \<open>What opening a wallet writes, statement by statement.\<close>

lemma viewing_stmt:
  assumes "quiet e" "\<And>now d a d'. p d \<Longrightarrow> s now d = Inr (a, d') \<Longrightarrow> q d'"
  shows "triple e (viewing c p) (stmt s) (\<lambda>_. viewing c q) anyhow"
  using quiet_stmt [OF assms(1), of p s "\<lambda>_. q" c] assms(2) by blast

lemma viewing_OutboxCreate:
  assumes q: "quiet e" and p: "\<And>now d pl. p d \<Longrightarrow> data_json (e_Data ev) = Inr pl \<Longrightarrow> r (d\<lparr>outbox := outbox d @ [event_to_row now ev pl]\<rparr>)"
  shows "triple e (viewing c p) (OutboxCreate ev) (\<lambda>_. viewing c r) anyhow"
  unfolding OutboxCreate_def
  by (rule viewing_lift, rule viewing_unique, rule viewing_stmt [OF q])
    (auto simp: insert_outbox_def bindE_Inr_iff insert_row_Inr_iff intro: p)

text \<open>The rows of an opening with money: its transaction, its entry and its two events.\<close>

definition opened_with :: "db \<Rightarrow> Wallet \<Rightarrow> db \<Rightarrow> bool" where
  "opened_with c w d \<longleftrightarrow> (\<exists>x l ev1 ev2.
     d = c\<lparr>wallets := wallets c @ [wallet_to_row w], txs := txs c @ [x], entries := entries c @ [l], outbox := outbox c @ [ev1, ev2]\<rparr> \<and>
     xr_kind x = KindOpening \<and> xr_status x = StatusProcessed \<and> xr_wallet x = w_id w \<and> xr_amount x = minorUnits (w_balance w) \<and>
     lr_wallet l = w_id w \<and> lr_tx l = xr_id x \<and> lr_direction l = DirectionCredit \<and> lr_amount l = minorUnits (w_balance w) \<and>
     lr_before l = 0 \<and> lr_after l = minorUnits (w_balance w) \<and>
     or_type ev1 = ''WagerTransactionProcessed'' \<and> or_type ev2 = ''WalletBalanceChanged'' \<and>
     or_aggregate ev1 = w_id w \<and> or_aggregate ev2 = w_id w)"

definition opened :: "db \<Rightarrow> OpenWalletInput \<Rightarrow> Wallet \<Rightarrow> db \<Rightarrow> bool" where
  "opened c inp w d \<longleftrightarrow>
     \<not> list_ex (\<lambda>r. wr_player r = w_playerID w \<and> wr_currency r = w_currency w) (wallets c) \<and>
     (if IsZero (ow_InitialBalance inp) then d = c\<lparr>wallets := wallets c @ [wallet_to_row w]\<rparr> else opened_with c w d)"

lemma quiet_open:
  assumes q: "quiet e" and bal: "w_balance w = ow_InitialBalance inp"
  shows "triple e (viewing c (\<lambda>d. d = c)) (open_in_tx inp w now) (\<lambda>_. viewing c (opened c inp w)) anyhow"
  unfolding open_in_tx_def
proof (rule triple_bind)
  let ?new = "\<not> list_ex (\<lambda>r. wr_player r = w_playerID w \<and> wr_currency r = w_currency w) (wallets c)"
  let ?c1 = "c\<lparr>wallets := wallets c @ [wallet_to_row w]\<rparr>"
  let ?p = "\<lambda>d. ?new \<and> d = ?c1"
  show "triple e (viewing c (\<lambda>d. d = c)) (WalletCreate w) (\<lambda>_. viewing c ?p) anyhow"
    unfolding WalletCreate_def
    by (rule viewing_unique, rule viewing_stmt [OF q])
      (auto simp: insert_wallet_def bindE_Inr_iff insert_row_Inr_iff wallet_clash_def wallet_to_row_def list_ex_iff)
  let ?tail = "bindM NewID (\<lambda>txid.
     bindM (lift (NewOpeningTransaction txid (w_id w) (w_playerID w) (ow_InitialBalance inp) now)) (\<lambda>openingTx.
     bindM (TxCreate openingTx) (\<lambda>_.
     bindM (lift (Zero (currency (ow_InitialBalance inp)))) (\<lambda>zero.
     bindM NewID (\<lambda>eid.
     bindM (lift (NewEntry eid (w_id w) (t_id openingTx) DirectionCredit (ow_InitialBalance inp) zero (w_balance w) now)) (\<lambda>entry.
     bindM (LedgerCreate entry) (\<lambda>_.
     opening_events inp w openingTx zero now)))))))"
  show "triple e (viewing c ?p) (if IsZero (ow_InitialBalance inp) then ret () else ?tail) (\<lambda>_. viewing c (opened c inp w)) anyhow" for u :: unit
  proof (rule triple_if)
    show "triple e (viewing c ?p) (ret ()) (\<lambda>_. viewing c (opened c inp w)) anyhow" if "IsZero (ow_InitialBalance inp)"
      by (rule triple_ret) (use that in \<open>auto simp: opened_def elim!: viewing_weaken\<close>)
    assume nz: "\<not> IsZero (ow_InitialBalance inp)"
    show "triple e (viewing c ?p) ?tail (\<lambda>_. viewing c (opened c inp w)) anyhow"
    proof (intro viewing_then [OF viewing_NewID] viewing_lift)
      fix txid tx
      assume tx: "NewOpeningTransaction txid (w_id w) (w_playerID w) (ow_InitialBalance inp) now = Inr tx"
      let ?p2 = "\<lambda>d. ?new \<and> d = ?c1\<lparr>txs := txs c @ [tx_to_row tx]\<rparr>"
      have create: "triple e (viewing c ?p) (TxCreate tx) (\<lambda>_. viewing c ?p2) anyhow"
        unfolding TxCreate_def
        by (rule viewing_unique, rule viewing_stmt [OF q]) (auto simp: insert_tx_def bindE_Inr_iff insert_row_Inr_iff)
      show "triple e (viewing c ?p) (bindM (TxCreate tx) (\<lambda>_.
     bindM (lift (Zero (currency (ow_InitialBalance inp)))) (\<lambda>zero.
     bindM NewID (\<lambda>eid.
     bindM (lift (NewEntry eid (w_id w) (t_id tx) DirectionCredit (ow_InitialBalance inp) zero (w_balance w) now)) (\<lambda>entry.
     bindM (LedgerCreate entry) (\<lambda>_.
     opening_events inp w tx zero now)))))) (\<lambda>_. viewing c (opened c inp w)) anyhow"
      proof (rule triple_bind [OF create], intro viewing_then [OF viewing_NewID] viewing_lift)
        fix zero eid entry
        assume z: "Zero (currency (ow_InitialBalance inp)) = Inr zero"
          and en: "NewEntry eid (w_id w) (t_id tx) DirectionCredit (ow_InitialBalance inp) zero (w_balance w) now = Inr entry"
        let ?p3 = "\<lambda>d. ?new \<and> d = ?c1\<lparr>txs := txs c @ [tx_to_row tx], entries := entries c @ [entry_to_row entry]\<rparr>"
        have book: "triple e (viewing c ?p2) (LedgerCreate entry) (\<lambda>_. viewing c ?p3) anyhow"
          unfolding LedgerCreate_def
          by (rule viewing_unique, rule viewing_stmt [OF q]) (auto simp: insert_entry_def bindE_Inr_iff insert_row_Inr_iff)
        let ?t1 = "\<lambda>o1. or_type o1 = ''WagerTransactionProcessed'' \<and> or_aggregate o1 = w_id w"
        let ?p4 = "\<lambda>d. ?new \<and> (\<exists>o1. ?t1 o1 \<and> d = ?c1\<lparr>txs := txs c @ [tx_to_row tx], entries := entries c @ [entry_to_row entry],
          outbox := outbox c @ [o1]\<rparr>)"
        have x: "xr_kind (tx_to_row tx) = KindOpening" "xr_status (tx_to_row tx) = StatusProcessed" "xr_wallet (tx_to_row tx) = w_id w"
          "xr_amount (tx_to_row tx) = minorUnits (w_balance w)" "xr_id (tx_to_row tx) = t_id tx"
          using tx bal by (auto simp: NewOpeningTransaction_Inr_iff tx_to_row_def)
        have "minorUnits zero = 0" using z by (auto simp: Zero_def bindE_Inr_iff)
        then have l: "lr_wallet (entry_to_row entry) = w_id w" "lr_tx (entry_to_row entry) = t_id tx"
          "lr_direction (entry_to_row entry) = DirectionCredit" "lr_amount (entry_to_row entry) = minorUnits (w_balance w)"
          "lr_before (entry_to_row entry) = 0" "lr_after (entry_to_row entry) = minorUnits (w_balance w)"
          using en bal by (auto simp: NewEntry_Inr_iff entry_to_row_def)
        have last: "opened c inp w (d\<lparr>outbox := outbox d @ [o2]\<rparr>)"
          if p4: "?p4 d" and t2: "or_type o2 = ''WalletBalanceChanged''" "or_aggregate o2 = w_id w" for d o2
        proof -
          obtain o1 where o1: "?t1 o1" "d = ?c1\<lparr>txs := txs c @ [tx_to_row tx], entries := entries c @ [entry_to_row entry],
            outbox := outbox c @ [o1]\<rparr>" using p4 by blast
          have "opened_with c w (d\<lparr>outbox := outbox d @ [o2]\<rparr>)"
            unfolding opened_with_def using o1 t2 x l
            by (intro exI [of _ "tx_to_row tx"] exI [of _ "entry_to_row entry"] exI [of _ o1] exI [of _ o2]) simp
          then show ?thesis using nz p4 by (simp add: opened_def)
        qed
        have e1: "triple e (viewing c ?p3) (OutboxCreate (NewWagerTransactionProcessed i (w_id w) k now dt)) (\<lambda>_. viewing c ?p4) anyhow"
          for i k dt
        proof (rule viewing_OutboxCreate [OF q])
          fix at d pl
          let ?o = "event_to_row at (NewWagerTransactionProcessed i (w_id w) k now dt) pl"
          assume "?p3 d"
          moreover have "?t1 ?o" by (simp add: event_to_row_def NewWagerTransactionProcessed_def)
          ultimately show "?p4 (d\<lparr>outbox := outbox d @ [?o]\<rparr>)" by (intro conjI exI [of _ ?o]) simp_all
        qed
        have e2: "triple e (viewing c ?p4) (OutboxCreate (NewWalletBalanceChanged i (w_id w) k now dt)) (\<lambda>_. viewing c (opened c inp w)) anyhow"
          for i k dt
          by (rule viewing_OutboxCreate [OF q], rule last) (simp_all add: event_to_row_def NewWalletBalanceChanged_def)
        have "triple e (viewing c ?p3) (opening_events inp w tx zero now) (\<lambda>_. viewing c (opened c inp w)) anyhow"
          unfolding opening_events_def
          by (rule viewing_then [OF viewing_NewID], rule triple_bind [OF e1], rule viewing_then [OF viewing_NewID], rule e2)
        then show "triple e (viewing c ?p2) (bindM (LedgerCreate entry) (\<lambda>_. opening_events inp w tx zero now))
            (\<lambda>_. viewing c (opened c inp w)) anyhow"
          by (rule triple_bind [OF book])
      qed
    qed
  qed
qed

lemma OpenWalletExecute_parts:
  assumes "OpenWalletExecute inp e w = (Inr out, w')"
  obtains wl now v where "NewWallet (oo_ID out) (ow_PlayerID inp) (ow_InitialBalance inp) now = Inr wl"
    "committed v = committed w" "session v = session w" "snapshot v = snapshot w"
    "WithinTx (open_in_tx inp wl now) e v = (Inr (), w')"
    "out = \<lparr>oo_ID = w_id wl, oo_PlayerID = w_playerID wl, oo_Balance = w_balance wl, oo_Version = w_version wl\<rparr>"
proof -
  let ?now = "clock e (clocks w)" and ?i = "new_id e (ids w)" and ?v = "w\<lparr>clocks := Suc (clocks w), ids := Suc (ids w)\<rparr>"
  obtain wl where wl: "NewWallet ?i (ow_PlayerID inp) (ow_InitialBalance inp) ?now = Inr wl"
    using assms by (cases "NewWallet ?i (ow_PlayerID inp) (ow_InitialBalance inp) ?now")
      (simp_all add: OpenWalletExecute_def bindM_apply timeNow_def NewID_def)
  then have i: "w_id wl = ?i" by (auto simp: NewWallet_def split: if_splits)
  have r: "WithinTx (open_in_tx inp wl ?now) e ?v = (Inr (), w')"
    "out = \<lparr>oo_ID = w_id wl, oo_PlayerID = w_playerID wl, oo_Balance = w_balance wl, oo_Version = w_version wl\<rparr>"
    using assms wl by (auto simp: OpenWalletExecute_def bindM_apply timeNow_def NewID_def attempting_apply UowExecute_def
        split: prod.splits sum.splits if_splits)
  show thesis by (rule that [of ?now wl ?v]) (use wl r i in simp_all)
qed

section \<open>Properties\<close>

text \<open>C11: Opening a wallet that succeeds adds exactly one wallet, with the requested player and balance and
  version 1, where the player had none in that currency. With a balance of zero nothing else is
  written; otherwise the same commit adds the \<open>OPENING\<close> transaction, processed, one credit entry that
  takes the balance from zero to the initial balance, and the two events, and touches nothing else.\<close>

theorem Open_wallet_exact:
  assumes "quiet e" "session w = None" "\<not> snapshot w" "OpenWalletExecute inp e w = (Inr out, w')"
  shows "\<exists>r. oo_Balance out = ow_InitialBalance inp \<and> oo_PlayerID out = ow_PlayerID inp \<and> oo_Version out = 1 \<and>
    (wr_id r, wr_player r, wr_currency r, wr_balance r, wr_version r) =
      (oo_ID out, ow_PlayerID inp, currency (ow_InitialBalance inp), minorUnits (ow_InitialBalance inp), 1) \<and>
    \<not> list_ex (\<lambda>r'. wr_player r' = wr_player r \<and> wr_currency r' = wr_currency r) (wallets (committed w)) \<and>
    (if IsZero (ow_InitialBalance inp) then committed w' = committed w\<lparr>wallets := wallets (committed w) @ [r]\<rparr>
     else \<exists>x l ev1 ev2. committed w' = committed w\<lparr>wallets := wallets (committed w) @ [r], txs := txs (committed w) @ [x],
         entries := entries (committed w) @ [l], outbox := outbox (committed w) @ [ev1, ev2]\<rparr> \<and>
       xr_kind x = KindOpening \<and> xr_status x = StatusProcessed \<and> xr_wallet x = wr_id r \<and> xr_amount x = wr_balance r \<and>
       lr_wallet l = wr_id r \<and> lr_tx l = xr_id x \<and> lr_direction l = DirectionCredit \<and> lr_amount l = wr_balance r \<and>
       lr_before l = 0 \<and> lr_after l = wr_balance r \<and>
       or_type ev1 = ''WagerTransactionProcessed'' \<and> or_type ev2 = ''WalletBalanceChanged'')"
proof -
  obtain wl now v where f: "NewWallet (oo_ID out) (ow_PlayerID inp) (ow_InitialBalance inp) now = Inr wl"
    "committed v = committed w" "session v = None" "\<not> snapshot v" "WithinTx (open_in_tx inp wl now) e v = (Inr (), w')"
    "out = \<lparr>oo_ID = w_id wl, oo_PlayerID = w_playerID wl, oo_Balance = w_balance wl, oo_Version = w_version wl\<rparr>"
    using OpenWalletExecute_parts [OF assms(4)] assms(2,3) by metis
  have wl: "w_playerID wl = ow_PlayerID inp" "w_balance wl = ow_InitialBalance inp" "w_version wl = 1"
    using f(1) by (auto simp: NewWallet_def split: if_splits)
  from quiet_WithinTx [OF assms(1) f(3,4) quiet_open [OF assms(1) wl(2)] f(5)] f(2)
  have o: "opened (committed w) inp wl (committed w')" by simp
  have r: "(wr_id r, wr_player r, wr_currency r, wr_balance r, wr_version r) =
      (oo_ID out, ow_PlayerID inp, currency (ow_InitialBalance inp), minorUnits (ow_InitialBalance inp), 1)"
    if "r = wallet_to_row wl" for r
    using that f(6) wl by (simp add: wallet_to_row_def w_currency_def)
  show ?thesis
  proof (intro exI [of _ "wallet_to_row wl"] conjI r refl)
    show "oo_Balance out = ow_InitialBalance inp" "oo_PlayerID out = ow_PlayerID inp" "oo_Version out = 1"
      using f(6) wl by simp_all
    show "\<not> list_ex (\<lambda>r'. wr_player r' = wr_player (wallet_to_row wl) \<and> wr_currency r' = wr_currency (wallet_to_row wl)) (wallets (committed w))"
      using o by (simp add: opened_def wallet_to_row_def)
    show "if IsZero (ow_InitialBalance inp) then committed w' = committed w\<lparr>wallets := wallets (committed w) @ [wallet_to_row wl]\<rparr>
      else \<exists>x l ev1 ev2. committed w' = committed w\<lparr>wallets := wallets (committed w) @ [wallet_to_row wl], txs := txs (committed w) @ [x],
         entries := entries (committed w) @ [l], outbox := outbox (committed w) @ [ev1, ev2]\<rparr> \<and>
       xr_kind x = KindOpening \<and> xr_status x = StatusProcessed \<and> xr_wallet x = wr_id (wallet_to_row wl) \<and>
       xr_amount x = wr_balance (wallet_to_row wl) \<and>
       lr_wallet l = wr_id (wallet_to_row wl) \<and> lr_tx l = xr_id x \<and> lr_direction l = DirectionCredit \<and>
       lr_amount l = wr_balance (wallet_to_row wl) \<and> lr_before l = 0 \<and> lr_after l = wr_balance (wallet_to_row wl) \<and>
       or_type ev1 = ''WagerTransactionProcessed'' \<and> or_type ev2 = ''WalletBalanceChanged''"
      using o unfolding opened_def opened_with_def by (cases "IsZero (ow_InitialBalance inp)") (simp_all add: wallet_to_row_def, blast)
  qed
qed

definition second_opening :: OpenWalletInput where
  "second_opening = \<lparr>ow_PlayerID = ''p2'', ow_InitialBalance = \<lparr>minorUnits = 5000, currency = ''BRL''\<rparr>\<rparr>"

theorem Open_wallet_exact_witness:
  "\<exists>l. entries (committed (snd (OpenWalletExecute second_opening sample_env (world_of sample_db)))) = [sample_entry_row, l] \<and>
     lr_after l = 5000"
proof -
  let ?res = "OpenWalletExecute second_opening sample_env (world_of sample_db)"
  have "case fst ?res of Inr _ \<Rightarrow> True | Inl _ \<Rightarrow> False" by code_simp
  then obtain out where "?res = (Inr out, snd ?res)" by (cases ?res) (auto split: sum.splits)
  from Open_wallet_exact [OF sample_quiet _ _ this] obtain l where
    "entries (committed (snd ?res)) = [sample_entry_row, l]" "lr_after l = 5000"
    by (auto simp: world_of_def second_opening_def IsZero_def sample_db_def)
  then show ?thesis by auto
qed

end
