(* ===== verification/Reconcile.thy ===== *)
theory Reconcile
  imports Process_Safety
begin

text \<open>\<open>internal/application/usecase/reconcile_wallet.go\<close>: comparing a stored balance with its ledger on one snapshot. Its log line is not modelled.\<close>

record ReconcileWalletOutput =
  rw_WalletID :: string
  rw_StoredBalance :: Money
  rw_CalculatedBalance :: Money
  rw_Difference :: Money
  rw_Consistent :: bool
  rw_CheckedEntries :: nat

definition reconcile_read :: "string \<Rightarrow> (Money \<times> Money \<times> nat) io" where
  "reconcile_read walletID =
     bindM (WalletFindByID walletID) (\<lambda>w.
     bindM (LedgerCountByWallet walletID) (\<lambda>checkedEntries.
     if checkedEntries = 0
     then bindM (lift (Zero (currency (w_balance w)))) (\<lambda>calculated. ret (w_balance w, calculated, checkedEntries))
     else bindM (LedgerSumByWallet walletID) (\<lambda>calculated. ret (w_balance w, calculated, checkedEntries))))"

definition ReconcileWalletExecute :: "bool \<Rightarrow> string \<Rightarrow> ReconcileWalletOutput io" where
  "ReconcileWalletExecute withMetrics walletID =
     bindM (ReadSnapshot (reconcile_read walletID)) (\<lambda>(stored, calculated, checkedEntries).
     bindM (lift (Sub stored calculated)) (\<lambda>difference.
     bindM (if withMetrics then count (\<lambda>m. m\<lparr>ReconciliationChecksTotal := ReconciliationChecksTotal m + 1,
         ReconciliationDivergentTotal := ReconciliationDivergentTotal m + (if IsZero difference then 0 else 1)\<rparr>)
       else ret ()) (\<lambda>_.
     ret \<lparr>rw_WalletID = walletID, rw_StoredBalance = stored, rw_CalculatedBalance = calculated,
        rw_Difference = difference, rw_Consistent = IsZero difference, rw_CheckedEntries = checkedEntries\<rparr>)))"

section \<open>On one snapshot\<close>

text \<open>In a snapshot transaction a query sees the same database whatever the other sessions commit; it
  answers or fails as a whole.\<close>

definition reading :: "db \<Rightarrow> world \<Rightarrow> bool" where
  "reading d w \<longleftrightarrow> snapshot w \<and> session w = Some d"

lemma reading_query:
  "triple e (reading d) (query (\<lambda>_. f)) (\<lambda>a w. reading d w \<and> a = f d) (\<lambda>_. reading d)"
  by (auto simp: triple_def reading_def query_def stmt_def Let_def view_def put_view_def interfere_def
      split: fault.split)

lemma reading_then:
  assumes "triple e (reading d) m (\<lambda>a w. reading d w \<and> P a) R" "\<And>a. P a \<Longrightarrow> triple e (reading d) (k a) Q R"
  shows "triple e (reading d) (bindM m k) Q R"
proof (rule triple_bind [OF assms(1)])
  show "triple e (\<lambda>w. reading d w \<and> P a) (k a) Q R" for a
    using assms(2) [of a] by (cases "P a") (simp_all add: triple_def)
qed

lemma reading_lift:
  "triple e (reading d) (lift r) (\<lambda>a w. reading d w \<and> r = Inr a) (\<lambda>_. reading d)"
  by (rule triple_lift) auto

text \<open>What a snapshot transaction reads is the state committed when it began.\<close>

lemma ReadSnapshot_reads:
  assumes fn: "triple e (reading (interf e (ticks w) (committed w))) fn (\<lambda>a w. reading d w \<and> Q a) (\<lambda>_. reading d)"
    and r: "ReadSnapshot fn e w = (Inr a, w')"
  shows "Q a"
proof -
  let ?w1 = "interfere e w"
  let ?w2 = "?w1\<lparr>session := Some (committed ?w1), snapshot := True, tx_start := db_clock e (ticks w)\<rparr>"
  obtain q w3 where f: "fn e ?w2 = (q, w3)" by fastforce
  have "reading (interf e (ticks w) (committed w)) ?w2" by (simp add: reading_def interfere_def)
  then have "case q of Inr b \<Rightarrow> Q b | Inl _ \<Rightarrow> True"
    using fn f unfolding triple_def by (cases q) force+
  then show ?thesis
    using r f by (cases q) (auto simp: ReadSnapshot_def in_tx_def bindM_apply begin_tx_def Let_def commit_tx_def
        split: fault.splits)
qed

definition books_read :: "db \<Rightarrow> string \<Rightarrow> Money \<times> Money \<times> nat \<Rightarrow> bool" where
  "books_read d i r = (case r of (st, calc, n) \<Rightarrow>
     amt st = stored_balance d i \<and> amt calc = ledger_sum d i \<and>
     currency calc = currency st \<and> n = length (wallet_entries d i))"

lemma ledger_sum_none: "wallet_entries d i = [] \<Longrightarrow> ledger_sum d i = 0"
  by (simp add: ledger_sum_def wallet_entries_def)

lemma LedgerSumByWallet_reads:
  "triple e (reading d) (LedgerSumByWallet i)
     (\<lambda>m w. reading d w \<and> in_int64 (sum_signed (wallet_entries d i)) \<and>
       FromMinorUnits (word_of_int (sum_signed (wallet_entries d i))) (max_currency (wallet_entries d i)) = Inr m)
     (\<lambda>_. reading d)"
  unfolding LedgerSumByWallet_def
  by (rule reading_then [OF reading_query])
    (auto intro!: triple_if triple_throw triple_lift)

lemma reconcile_reads:
  assumes inv: "db_inv d"
  shows "triple e (reading d) (reconcile_read i) (\<lambda>r w. reading d w \<and> books_read d i r) (\<lambda>_. reading d)"
  unfolding reconcile_read_def
proof (rule reading_then)
  show "triple e (reading d) (WalletFindByID i) (\<lambda>wl w. reading d w \<and> scanWallet (wallet_of d i) = Inr wl) (\<lambda>_. reading d)"
    unfolding WalletFindByID_def by (rule reading_then [OF reading_query]) (simp add: reading_lift)
next
  fix wl assume s: "scanWallet (wallet_of d i) = Inr wl"
  then obtain r where r: "wallet_of d i = Some r" "scanWallet (Some r) = Inr wl" by (auto simp: scanWallet_Inr_iff)
  note bal = db_inv_wallet_row [OF inv r]
  have row: "r \<in> set (wallets d)" "wr_id r = i" using inv r(1) by (auto simp: wallet_of_Some db_inv_def)
  have iso: "toUpper (wr_currency r) = wr_currency r"
    using iso_currency_format [OF bal(3)] by (auto simp: currency_format_def intro: toUpper_letters)
  show "triple e (reading d) (bindM (LedgerCountByWallet i) (\<lambda>checkedEntries.
     if checkedEntries = 0
     then bindM (lift (Zero (currency (w_balance wl)))) (\<lambda>calculated. ret (w_balance wl, calculated, checkedEntries))
     else bindM (LedgerSumByWallet i) (\<lambda>calculated. ret (w_balance wl, calculated, checkedEntries))))
     (\<lambda>r w. reading d w \<and> books_read d i r) (\<lambda>_. reading d)"
    unfolding LedgerCountByWallet_def
  proof (rule reading_then [OF reading_query], rule triple_if)
    fix n assume n: "n = length (wallet_entries d i)"
    show "triple e (reading d) (bindM (lift (Zero (currency (w_balance wl)))) (\<lambda>calculated. ret (w_balance wl, calculated, n)))
        (\<lambda>r w. reading d w \<and> books_read d i r) (\<lambda>_. reading d)" if "n = 0"
      by (rule reading_then [OF reading_lift], rule triple_ret)
        (use n that bal iso ledger_sum_none [of d i] in
          \<open>auto simp: books_read_def Zero_def bindE_Inr_iff normalizeCurrency_Inr_iff\<close>)
    show "triple e (reading d) (bindM (LedgerSumByWallet i) (\<lambda>calculated. ret (w_balance wl, calculated, n)))
        (\<lambda>r w. reading d w \<and> books_read d i r) (\<lambda>_. reading d)" if nz: "n \<noteq> 0"
    proof (rule reading_then [OF LedgerSumByWallet_reads], rule triple_ret)
      fix m w
      assume m: "in_int64 (sum_signed (wallet_entries d i)) \<and>
          FromMinorUnits (word_of_int (sum_signed (wallet_entries d i))) (max_currency (wallet_entries d i)) = Inr m"
        and w: "reading d w"
      have "max_currency (wallet_entries d i) = wr_currency r"
        using max_currency_same wallet_entries_currency [OF inv row(1)] nz n row(2) by auto
      then show "reading d w \<and> books_read d i (w_balance wl, m, n)"
        using m w n bal iso sum_signed_eq [OF inv]
        by (auto simp: books_read_def FromMinorUnits_def bindE_Inr_iff normalizeCurrency_Inr_iff sint_of_int64 wrap64_id)
    qed
  qed
qed

section \<open>Properties\<close>

text \<open>C9: A reconciliation reports the truth about one instant: its stored balance, the sum of its
  ledger entries, their difference and count are all those of the database committed when its
  snapshot was taken, whatever other sessions commit while it reads; and it says \<open>consistent\<close>
  exactly when the stored balance equals the ledger sum.\<close>

theorem Reconcile_exact:
  assumes "ReconcileWalletExecute withMetrics i e w = (Inr out, w')"
    and "db_inv (interf e (ticks w) (committed w))"
  defines "d \<equiv> interf e (ticks w) (committed w)"
  shows "rw_WalletID out = i \<and> amt (rw_StoredBalance out) = stored_balance d i \<and>
    amt (rw_CalculatedBalance out) = ledger_sum d i \<and>
    amt (rw_Difference out) = stored_balance d i - ledger_sum d i \<and>
    (rw_Consistent out \<longleftrightarrow> stored_balance d i = ledger_sum d i) \<and>
    rw_CheckedEntries out = length (wallet_entries d i)"
proof -
  obtain s c n w1 where r: "ReadSnapshot (reconcile_read i) e w = (Inr (s, c, n), w1)"
    using assms(1) by (auto simp: ReconcileWalletExecute_def bindM_apply split: prod.splits sum.splits)
  then have books: "books_read d i (s, c, n)"
    using ReadSnapshot_reads [OF reconcile_reads] assms(2) by (simp add: d_def)
  obtain x where x: "Sub s c = Inr x"
    using assms(1) r by (auto simp: ReconcileWalletExecute_def bindM_apply split: sum.splits)
  then have out: "out = \<lparr>rw_WalletID = i, rw_StoredBalance = s, rw_CalculatedBalance = c,
      rw_Difference = x, rw_Consistent = IsZero x, rw_CheckedEntries = n\<rparr>"
    using assms(1) r by (simp add: ReconcileWalletExecute_def bindM_apply count_def split: if_splits)
  then show ?thesis using books x by (auto simp: books_read_def money_op_iffs)
qed

text \<open>A stored balance that someone changed behind the ledger is found.\<close>

definition tampered_db :: db where
  "tampered_db = sample_db\<lparr>wallets := [sample_wallet_row\<lparr>wr_balance := 9000\<rparr>]\<rparr>"

lemma tampered_inv: "db_inv tampered_db"
  by (simp add: tampered_db_def db_inv_def schema_ok_def sample_rows table_ok_def wallet_check_def tx_check_def
      ledger_check_def tx_amount_by_kind_def tx_kind_fields_def tx_reference_by_kind_def in_int32_def
      tx_fk_def ledger_fk_def entry_currency_ok_def currency_format_def isAllLetters_def)

theorem Reconcile_exact_witness:
  "case ReconcileWalletExecute True ''w1'' sample_env (world_of tampered_db) of
     (Inr out, _) \<Rightarrow> \<not> rw_Consistent out \<and> amt (rw_Difference out) = - 1000 | (Inl _, _) \<Rightarrow> False"
proof -
  let ?res = "ReconcileWalletExecute True ''w1'' sample_env (world_of tampered_db)"
  have "case fst ?res of Inr _ \<Rightarrow> True | Inl _ \<Rightarrow> False" by code_simp
  then obtain out w' where r: "?res = (Inr out, w')" by (cases ?res) (auto split: sum.splits)
  have "stored_balance tampered_db ''w1'' = 9000" "ledger_sum tampered_db ''w1'' = 10000"
    by (simp_all add: stored_balance_def ledger_sum_def row_delta_def tampered_db_def sample_rows)
  then show ?thesis using Reconcile_exact [OF r] r tampered_inv by (simp add: sample_env_def world_of_def)
qed

end
