(* ===== verification/Append_Only.thy ===== *)
theory Append_Only
  imports Retry_Loop Reconcile "HOL-Library.Sublist"
begin

text \<open>
  What the writes of the service can never undo. A property of the database that every kind of
  write keeps, such as ledger entries being only appended or an inbox row being there, is kept by
  every operation, transaction and use case built from them, whatever fails and whatever other
  sessions do that keep it too.
\<close>

section \<open>Code of a transaction\<close>

text \<open>\<open>p\<close> holds of the open view, \<open>q\<close> of what is committed and of the queue.\<close>

definition holding :: "(db \<Rightarrow> queue \<Rightarrow> bool) \<Rightarrow> (db \<Rightarrow> bool) \<Rightarrow> world \<Rightarrow> bool" where
  "holding q p w \<longleftrightarrow> \<not> snapshot w \<and> q (committed w) (mail w) \<and> (\<exists>d. session w = Some d \<and> p d)"

definition others_keep :: "env \<Rightarrow> (db \<Rightarrow> bool) \<Rightarrow> bool" where
  "others_keep e p \<longleftrightarrow> (\<forall>n d. p d \<longrightarrow> p (interf e n d))"

definition others_keep2 :: "env \<Rightarrow> (db \<Rightarrow> queue \<Rightarrow> bool) \<Rightarrow> bool" where
  "others_keep2 e q \<longleftrightarrow> (\<forall>m. others_keep e (\<lambda>d. q d m))"

lemma others_keep2_const [simp]: "others_keep2 e (\<lambda>d _. p d) \<longleftrightarrow> others_keep e p"
  by (simp add: others_keep2_def)

definition keeps :: "(db \<Rightarrow> bool) \<Rightarrow> 'a io \<Rightarrow> bool" where
  "keeps p m \<longleftrightarrow> (\<forall>e q. others_keep e p \<longrightarrow> others_keep2 e q \<longrightarrow>
     triple e (holding q p) m (\<lambda>_. holding q p) (\<lambda>_. holding q p))"

lemma keepsD:
  "keeps p m \<Longrightarrow> others_keep e p \<Longrightarrow> others_keep2 e q \<Longrightarrow> triple e (holding q p) m (\<lambda>_. holding q p) (\<lambda>_. holding q p)"
  by (simp add: keeps_def)

lemma interfere_holding:
  "others_keep e p \<Longrightarrow> others_keep2 e q \<Longrightarrow> holding q p w \<Longrightarrow> holding q p (interfere e w)"
  by (auto simp: holding_def interfere_def others_keep_def others_keep2_def)

lemma holding_stmt:
  assumes o: "others_keep e p" "others_keep2 e q"
    and s: "\<And>now d a d'. p d \<Longrightarrow> s now d = Inr (a, d') \<Longrightarrow> r d'"
    and pr: "\<And>d. r d \<Longrightarrow> p d"
  shows "triple e (holding q p) (stmt s) (\<lambda>_. holding q r) (\<lambda>_. holding q p)"
  unfolding triple_def
proof (intro allI impI)
  fix w assume "holding q p w"
  from interfere_holding [OF o this] have w1: "holding q p (interfere e w)" .
  have "holding q r (put_view d (interfere e w))" if "s (sql_now e w) (view (interfere e w)) = Inr (a, d)" for a d
    using s [OF _ that] w1 by (auto simp: holding_def view_def put_view_def)
  moreover from this have "holding q p (put_view d (interfere e w))"
    if "s (sql_now e w) (view (interfere e w)) = Inr (a, d)" for a d
    using that pr unfolding holding_def by blast
  ultimately show "case stmt s e w of (Inr a, w') \<Rightarrow> holding q r w' | (Inl x, w') \<Rightarrow> holding q p w'"
    using w1 by (auto simp: stmt_def Let_def split: fault.split sum.split)
qed

lemma holding_query:
  assumes o: "others_keep e p" "others_keep2 e q" and r: "\<And>now d. p d \<Longrightarrow> r (f now d)"
  shows "triple e (holding q p) (query f) (\<lambda>a w. holding q p w \<and> r a) (\<lambda>_. holding q p)"
  unfolding triple_def
proof (intro allI impI)
  fix w assume "holding q p w"
  from interfere_holding [OF o this] have w1: "holding q p (interfere e w)" .
  then have "p (view (interfere e w))" "put_view (view (interfere e w)) (interfere e w) = interfere e w"
    by (auto simp: holding_def view_def put_view_def)
  then show "case query f e w of (Inr a, w') \<Rightarrow> holding q p w' \<and> r a | (Inl x, w') \<Rightarrow> holding q p w'"
    using w1 r by (auto simp: query_def stmt_def Let_def split: fault.split)
qed

lemma scanned_row: "scanWagerTx (Some r) = Inr t \<Longrightarrow> t_id t = xr_id r \<and> t_status t = xr_status r"
  by (auto simp: scanWagerTx_def bindE_Inr_iff RehydrateTx_def split: if_splits option.splits)

named_theorems keeps_intros

lemma keeps_stmt: "(\<And>now d a d'. p d \<Longrightarrow> s now d = Inr (a, d') \<Longrightarrow> p d') \<Longrightarrow> keeps p (stmt s)"
  unfolding keeps_def by (intro allI impI holding_stmt)

lemma keeps_query [keeps_intros]: "keeps p (query f)"
  unfolding query_def by (rule keeps_stmt) auto

lemma keeps_pure [keeps_intros]: "keeps p (ret x)" "keeps p (throw y)" "keeps p (lift z)" "keeps p NewID" "keeps p timeNow"
    "keeps p (count f)"
  by (auto simp: keeps_def triple_def holding_def NewID_def timeNow_def count_def split: sum.split)

lemma keeps_bind [keeps_intros]: "keeps p m \<Longrightarrow> (\<And>a. keeps p (k a)) \<Longrightarrow> keeps p (bindM m k)"
  unfolding keeps_def by (blast intro: triple_bind)

lemma keeps_lift: "(\<And>a. r = Inr a \<Longrightarrow> keeps p (k a)) \<Longrightarrow> keeps p (bindM (lift r) k)"
  by (cases r) (auto simp: keeps_def triple_def bindM_apply)

lemma keeps_attempting [keeps_intros]: "keeps p m \<Longrightarrow> keeps p (attempting m)"
  unfolding keeps_def by (blast intro: triple_attempting)

lemma keeps_unique [keeps_intros]: "keeps p m \<Longrightarrow> keeps p (unique_as_exists m)"
  unfolding keeps_def by (blast intro: triple_unique_as_exists)

lemma keeps_if [keeps_intros]: "(b \<Longrightarrow> keeps p m) \<Longrightarrow> (\<not> b \<Longrightarrow> keeps p n) \<Longrightarrow> keeps p (if b then m else n)"
  by simp

lemma keeps_cases [keeps_intros]:
  "keeps p m \<Longrightarrow> (\<And>x. keeps p (k x)) \<Longrightarrow> keeps p (case opt of None \<Rightarrow> m | Some x \<Rightarrow> k x)"
  "(\<And>x. keeps p (f x)) \<Longrightarrow> (\<And>y. keeps p (g y)) \<Longrightarrow> keeps p (case r of Inl x \<Rightarrow> f x | Inr y \<Rightarrow> g y)"
  "(\<And>x y. keeps p (h x y)) \<Longrightarrow> keeps p (case pr of (x, y) \<Rightarrow> h x y)"
  by (cases opt; cases r; cases pr; simp)+

lemma keeps_Kind [keeps_intros]:
  "keeps p a \<Longrightarrow> keeps p b \<Longrightarrow> keeps p c \<Longrightarrow> keeps p d \<Longrightarrow> keeps p f \<Longrightarrow> keeps p g \<Longrightarrow> (\<And>s. keeps p (h s)) \<Longrightarrow>
   keeps p (case k of KindBet \<Rightarrow> a | KindWin \<Rightarrow> b | KindLoss \<Rightarrow> c | KindRefund \<Rightarrow> d | KindRollback \<Rightarrow> f
     | KindOpening \<Rightarrow> g | KindOther s \<Rightarrow> h s)"
  by (cases k) simp_all

section \<open>Units of work and use cases\<close>

definition resting :: "(db \<Rightarrow> queue \<Rightarrow> bool) \<Rightarrow> world \<Rightarrow> bool" where
  "resting p w \<longleftrightarrow> \<not> snapshot w \<and> session w = None \<and> p (committed w) (mail w)"

lemma interfere_resting: "others_keep2 e p \<Longrightarrow> resting p w \<Longrightarrow> resting p (interfere e w)"
  by (auto simp: resting_def interfere_def others_keep_def others_keep2_def)

text \<open>A transaction that starts with \<open>p\<close> and leaves \<open>r\<close> commits \<open>r\<close> when it succeeds; a failed one may have, too.\<close>

lemma uow_leaves:
  assumes p: "others_keep e p" and r: "others_keep e r" and q: "others_keep2 e q" and rq: "\<And>c d m. r d \<Longrightarrow> q c m \<Longrightarrow> q d m"
    and pq: "\<And>d m. q d m \<Longrightarrow> p d"
    and m: "triple e (holding q p) m (\<lambda>_. holding q r) (\<lambda>_. holding q p)"
  shows "triple e (resting q) (WithinTx m) (\<lambda>_. resting (\<lambda>d m. r d \<and> q d m)) (\<lambda>_. resting q)"
  unfolding triple_def
proof (intro allI impI)
  fix w assume w: "resting q w"
  let ?w1 = "interfere e w"
  let ?w2 = "?w1\<lparr>session := Some (committed ?w1), snapshot := False, tx_start := db_clock e (ticks w)\<rparr>"
  have w1: "resting q ?w1" by (rule interfere_resting [OF q w])
  then have "holding q p ?w2" by (auto simp: holding_def resting_def intro: pq)
  then have out: "case m e ?w2 of (Inr a, w3) \<Rightarrow> holding q r w3 | (Inl x, w3) \<Rightarrow> holding q p w3"
    using m by (simp add: triple_def)
  obtain a w3 where a: "m e ?w2 = (a, w3)" by fastforce
  have ended: "resting q (end_tx w3)" if "holding q z w3" for z
    using that by (simp add: holding_def resting_def end_tx_def)
  have pub: "resting (\<lambda>d m. r d \<and> q d m) (publish (interfere e w3))" "resting q (end_tx (interfere e w3))" if "holding q r w3"
    using interfere_holding [OF r q that] rq by (auto simp: holding_def resting_def publish_def end_tx_def)
  then show "case WithinTx m e w of (Inr a, w') \<Rightarrow> resting (\<lambda>d m. r d \<and> q d m) w' | (Inl x, w') \<Rightarrow> resting q w'"
    using w1 out a ended rq
    by (cases a) (auto simp: WithinTx_def in_tx_def bindM_apply begin_tx_def commit_tx_def Let_def ret_def resting_def split: fault.split)
qed

text \<open>The contract of a use case, and how the use cases are built.\<close>

abbreviation at_rest :: "(db \<Rightarrow> bool) \<Rightarrow> world \<Rightarrow> bool" where
  "at_rest p \<equiv> resting (\<lambda>d _. p d)"

definition keeps_out :: "(db \<Rightarrow> bool) \<Rightarrow> 'a io \<Rightarrow> bool" where
  "keeps_out p m \<longleftrightarrow> (\<forall>e. others_keep e p \<longrightarrow> triple e (at_rest p) m (\<lambda>_. at_rest p) (\<lambda>_. at_rest p))"

named_theorems out_intros

lemma out_uow [out_intros]: "keeps p m \<Longrightarrow> keeps_out p (WithinTx m)"
  unfolding keeps_out_def 
  by (intro allI impI triple_weaken [OF uow_leaves [where q = "\<lambda>d _. p d" and r = p, OF _ _ _ _ _ keepsD]]) (auto simp: resting_def)

lemma out_pure [out_intros]: "keeps_out p (ret x)" "keeps_out p (throw y)" "keeps_out p (lift z)" "keeps_out p NewID"
    "keeps_out p timeNow" "keeps_out p (count f)" "keeps_out p ctxDone" "keeps_out p (queue_call h)"
  by (auto simp: keeps_out_def triple_def resting_def NewID_def timeNow_def count_def ctxDone_def queue_call_def
      split: sum.split fault.split)

lemma out_bind [out_intros]: "keeps_out p m \<Longrightarrow> (\<And>a. keeps_out p (k a)) \<Longrightarrow> keeps_out p (bindM m k)"
  unfolding keeps_out_def by (blast intro: triple_bind)

lemma out_attempting [out_intros]: "keeps_out p m \<Longrightarrow> keeps_out p (attempting m)"
  unfolding keeps_out_def by (blast intro: triple_attempting)

lemma out_if [out_intros]: "(b \<Longrightarrow> keeps_out p m) \<Longrightarrow> (\<not> b \<Longrightarrow> keeps_out p n) \<Longrightarrow> keeps_out p (if b then m else n)"
  by simp

lemma out_cases [out_intros]:
  "keeps_out p m \<Longrightarrow> (\<And>x. keeps_out p (k x)) \<Longrightarrow> keeps_out p (case opt of None \<Rightarrow> m | Some x \<Rightarrow> k x)"
  "(\<And>x. keeps_out p (f x)) \<Longrightarrow> (\<And>y. keeps_out p (g y)) \<Longrightarrow> keeps_out p (case r of Inl x \<Rightarrow> f x | Inr y \<Rightarrow> g y)"
  "(\<And>x y. keeps_out p (h x y)) \<Longrightarrow> keeps_out p (case pr of (x, y) \<Rightarrow> h x y)"
  by (cases opt; cases r; cases pr; simp)+

lemma out_stmt: "(\<And>now d a d'. p d \<Longrightarrow> s now d = Inr (a, d') \<Longrightarrow> p d') \<Longrightarrow> keeps_out p (stmt s)"
  unfolding keeps_out_def triple_def
proof (intro allI impI)
  fix e w
  assume s: "\<And>now d a d'. p d \<Longrightarrow> s now d = Inr (a, d') \<Longrightarrow> p d'" and "others_keep e p" "at_rest p w"
  then have w1: "at_rest p (interfere e w)" by (intro interfere_resting) simp_all
  have "at_rest p (put_view d (interfere e w))" if "s (sql_now e w) (view (interfere e w)) = Inr (a, d)" for a d
    using s [OF _ that] w1 by (simp add: resting_def view_def put_view_def)
  then show "case stmt s e w of (Inr a, w') \<Rightarrow> at_rest p w' | (Inl x, w') \<Rightarrow> at_rest p w'"
    using w1 by (auto simp: stmt_def Let_def split: fault.split sum.split)
qed

lemma out_query [out_intros]: "keeps_out p (query f)"
  unfolding query_def by (rule out_stmt) auto

text \<open>A read-only snapshot publishes nothing.\<close>

definition reads :: "(db \<Rightarrow> bool) \<Rightarrow> 'a io \<Rightarrow> bool" where
  "reads p m \<longleftrightarrow> (\<forall>e w. others_keep e p \<longrightarrow> snapshot w \<longrightarrow> session w \<noteq> None \<longrightarrow> p (committed w) \<longrightarrow>
     snapshot (snd (m e w)) \<and> session (snd (m e w)) \<noteq> None \<and> p (committed (snd (m e w))))"

lemma reads_pure [keeps_intros]: "reads p (ret x)" "reads p (throw y)" "reads p (lift z)"
  by (simp_all add: reads_def)

lemma reads_query [keeps_intros]: "reads p (query f)"
  by (auto simp: reads_def query_def stmt_def Let_def put_view_def interfere_def others_keep_def split: fault.split)

lemma reads_bind [keeps_intros]:
  assumes "reads p m" "\<And>a. reads p (k a)"
  shows "reads p (bindM m k)"
  unfolding reads_def
proof (intro allI impI)
  fix e and w :: world
  assume o: "others_keep e p" and w: "snapshot w" "session w \<noteq> None" "p (committed w)"
  obtain r w1 where r: "m e w = (r, w1)" by fastforce
  then have w1: "snapshot w1" "session w1 \<noteq> None" "p (committed w1)"
    using assms(1) o w unfolding reads_def by (metis snd_conv)+
  show "snapshot (snd (bindM m k e w)) \<and> session (snd (bindM m k e w)) \<noteq> None \<and> p (committed (snd (bindM m k e w)))"
  proof (cases r)
    case (Inr a)
    then show ?thesis using assms(2) [of a] o w1 r by (simp add: reads_def bindM_apply)
  qed (use r w1 in \<open>simp add: bindM_apply\<close>)
qed

lemma reads_if [keeps_intros]: "reads p m \<Longrightarrow> reads p n \<Longrightarrow> reads p (if b then m else n)"
  by simp

lemma reads_prod [keeps_intros]: "(\<And>x y. reads p (h x y)) \<Longrightarrow> reads p (case pr of (x, y) \<Rightarrow> h x y)"
  by (cases pr) simp

lemma out_snapshot [out_intros]:
  assumes "reads p m" shows "keeps_out p (ReadSnapshot m)"
  unfolding keeps_out_def triple_def
proof (intro allI impI)
  fix e and w :: world
  assume o: "others_keep e p" and w: "at_rest p w"
  let ?w1 = "interfere e w"
  let ?w2 = "?w1\<lparr>session := Some (committed ?w1), snapshot := True, tx_start := db_clock e (ticks w)\<rparr>"
  have w1: "at_rest p ?w1" by (rule interfere_resting [OF _ w]) (simp add: o)
  obtain r w3 where r: "m e ?w2 = (r, w3)" by fastforce
  have "snapshot ?w2" "session ?w2 \<noteq> None" "p (committed ?w2)" using w1 by (simp_all add: resting_def)
  then have w3: "snapshot w3" "session w3 \<noteq> None" "p (committed w3)"
    using assms o r unfolding reads_def by (metis snd_conv)+
  then have "p (committed (interfere e w3))" using o by (simp add: interfere_def others_keep_def)
  then show "case ReadSnapshot m e w of (Inr a, w') \<Rightarrow> at_rest p w' | (Inl x, w') \<Rightarrow> at_rest p w'"
    using w1 r w3 by (cases r) (auto simp: ReadSnapshot_def in_tx_def bindM_apply begin_tx_def commit_tx_def Let_def
        ret_def resting_def publish_def end_tx_def interfere_def split: fault.split)
qed

section \<open>The writes of the service\<close>

text \<open>
  The contract of a property no write can undo: tables it does not look at change freely, ledger
  entries and inbox rows are appended, and an inbox row is completed. Of the transactions it may fix
  some, by their ids: those exist already and do not wait for a reference, and the service does not
  update them.
\<close>

locale write_stable =
  fixes p :: "db \<Rightarrow> bool" and final :: "string set"
  assumes wallets: "p d \<Longrightarrow> p (d\<lparr>wallets := ws\<rparr>)"
    and created: "p d \<Longrightarrow> insert_tx r d = Inr (u, d') \<Longrightarrow> p d' \<and> xr_id r \<notin> final"
    and updated: "p d \<Longrightarrow> t_id tx \<notin> final \<Longrightarrow>
      p (d\<lparr>txs := map (\<lambda>r. if xr_id r = t_id tx then tx_update_row tx r else r) (txs d)\<rparr>)"
    and finished: "p d \<Longrightarrow> x \<in> set (txs d) \<Longrightarrow> xr_id x \<in> final \<Longrightarrow> xr_status x \<noteq> StatusPendingReference"
    and outbox: "p d \<Longrightarrow> p (d\<lparr>outbox := obs\<rparr>)"
    and entries: "p d \<Longrightarrow> p (d\<lparr>entries := entries d @ [en]\<rparr>)"
    and inbox: "p d \<Longrightarrow> p (d\<lparr>inbox := inbox d @ [b]\<rparr>)"
    and completed: "p d \<Longrightarrow> p (d\<lparr>inbox := map (\<lambda>b. if sel b then b\<lparr>ir_completed := t\<rparr> else b) (inbox d)\<rparr>)"
begin

lemma table_writes:
  "p d \<Longrightarrow> insert_wallet x d = Inr (u, d') \<Longrightarrow> p d'"
  "p d \<Longrightarrow> update_wallet wsel wg d = Inr (n, d') \<Longrightarrow> p d'"
  "p d \<Longrightarrow> insert_tx y d = Inr (u, d') \<Longrightarrow> p d'"
  "p d \<Longrightarrow> t_id tx \<notin> final \<Longrightarrow> update_tx (\<lambda>r. xr_id r = t_id tx) (tx_update_row tx) d = Inr (n, d') \<Longrightarrow> p d'"
  "p d \<Longrightarrow> insert_entry z d = Inr (u, d') \<Longrightarrow> p d'"
  "p d \<Longrightarrow> insert_outbox o' d = Inr (u, d') \<Longrightarrow> p d'"
  "p d \<Longrightarrow> update_outbox osel og d = Inr (n, d') \<Longrightarrow> p d'"
  "p d \<Longrightarrow> insert_inbox b d = Inr (n, d') \<Longrightarrow> p d'"
  "p d \<Longrightarrow> update_inbox bsel (\<lambda>b. b\<lparr>ir_completed := t\<rparr>) d = Inr (n, d') \<Longrightarrow> p d'"
  by (auto dest: created simp: insert_wallet_def update_wallet_def update_tx_def insert_entry_def insert_outbox_def
      update_outbox_def insert_inbox_def update_inbox_def bindE_Inr_iff insert_row_Inr_iff update_row_Inr_iff
      wallets updated outbox entries inbox completed split: if_splits)

lemma repositories [keeps_intros]:
  "keeps p (WalletFindByID i)" "keeps p (WalletCreate wl)" "keeps p (WalletSave wl v)"
  "keeps p (TxFindByProviderAndExternalID x y)"
  "keeps p (TxFindByIdempotencyKey k)" "keeps p (TxFindProcessedReversalByReference i)"
  "keeps p (LedgerCreate en)"
  "keeps p (OutboxCreate ev)" "keeps p (InboxCreate c m h)" "keeps p (InboxMarkCompleted c m)"
  unfolding repository_defs InboxCreate_def InboxMarkCompleted_def
  by (intro keeps_intros keeps_stmt; erule table_writes; assumption)+

text \<open>Only a transaction that is not fixed is updated, and one that is new or waits for its reference is not fixed.\<close>

lemma tx_update: "t_id t \<notin> final \<Longrightarrow> keeps p (TxUpdate t)"
  unfolding TxUpdate_def by (intro keeps_intros keeps_stmt) (erule table_writes; assumption)

lemma tx_create:
  assumes "t_id t \<notin> final \<Longrightarrow> keeps p m"
  shows "keeps p (bindM (TxCreate t) (\<lambda>_. m))"
  unfolding keeps_def
proof (intro allI impI)
  fix e q assume o: "others_keep e p" "others_keep2 e q"
  let ?H = "holding q p"
  have "triple e ?H (TxCreate t) (\<lambda>_. holding q (\<lambda>d. p d \<and> t_id t \<notin> final)) (\<lambda>_. ?H)"
    unfolding TxCreate_def
    by (rule triple_unique_as_exists, rule holding_stmt [OF o]) (auto dest: created simp: tx_to_row_def)
  moreover have "triple e (holding q (\<lambda>d. p d \<and> t_id t \<notin> final)) m (\<lambda>_. ?H) (\<lambda>_. ?H)"
  proof (cases "t_id t \<in> final")
    case False
    from keepsD [OF assms [OF this] o] show ?thesis using False by simp
  qed (simp add: triple_def holding_def)
  ultimately show "triple e ?H (bindM (TxCreate t) (\<lambda>_. m)) (\<lambda>_. ?H) (\<lambda>_. ?H)" by (rule triple_bind)
qed

lemma tx_for_update:
  assumes "\<And>t. (t_status t = StatusPendingReference \<Longrightarrow> t_id t \<notin> final) \<Longrightarrow> keeps p (k t)"
  shows "keeps p (bindM (TxFindByIDForUpdate i) k)"
  unfolding keeps_def
proof (intro allI impI)
  fix e q assume o: "others_keep e p" "others_keep2 e q"
  let ?H = "holding q p" and ?waits = "\<lambda>t. t_status t = StatusPendingReference \<longrightarrow> t_id t \<notin> final"
  have row: "?waits t" if pd: "p d" and sc: "scanWagerTx (find (\<lambda>r. xr_id r = i) (txs d)) = Inr t" for d t
  proof -
    obtain r where r: "find (\<lambda>r. xr_id r = i) (txs d) = Some r" using sc
      by (cases "find (\<lambda>r. xr_id r = i) (txs d)") (simp_all add: scanWagerTx_def)
    have "scanWagerTx (Some r) = Inr t" using sc unfolding r .
    from scanned_row [OF this] have "t_id t = xr_id r \<and> t_status t = xr_status r" .
    moreover have "r \<in> set (txs d)" using r by (auto simp: find_Some_iff)
    ultimately show ?thesis using finished [OF pd] by auto
  qed
  have "triple e ?H (query (\<lambda>_ d. find (\<lambda>r. xr_id r = i) (txs d)))
      (\<lambda>row w. ?H w \<and> (\<forall>t. scanWagerTx row = Inr t \<longrightarrow> ?waits t)) (\<lambda>_. ?H)"
    by (rule holding_query [OF o]) (use row in blast)
  then have "triple e ?H (TxFindByIDForUpdate i) (\<lambda>t w. ?H w \<and> ?waits t) (\<lambda>_. ?H)"
    unfolding TxFindByIDForUpdate_def by (rule triple_bind) (auto intro: triple_lift)
  moreover have "triple e (\<lambda>w. ?H w \<and> ?waits t) (k t) (\<lambda>_. ?H) (\<lambda>_. ?H)" for t
  proof (cases "?waits t")
    case True
    from keepsD [OF assms o] True show ?thesis by simp
  qed (simp add: triple_def)
  ultimately show "triple e ?H (bindM (TxFindByIDForUpdate i) k) (\<lambda>_. ?H) (\<lambda>_. ?H)" by (rule triple_bind)
qed

text \<open>A step of the life of a transaction leaves its id.\<close>

lemma tx_step:
  "(\<And>t'. t_id t' = t_id t \<Longrightarrow> keeps p (k t')) \<Longrightarrow> keeps p (bindM (lift (orReturn (MarkRejectedWithResult t fc m now))) k)"
  "(\<And>t'. t_id t' = t_id t \<Longrightarrow> keeps p (k t')) \<Longrightarrow> keeps p (bindM (lift (orReturn (MarkPendingReference t now))) k)"
  "(\<And>t'. t_id t' = t_id t \<Longrightarrow> keeps p (k t')) \<Longrightarrow> keeps p (bindM (lift (orReturn (MarkProcessed t m now))) k)"
  "(\<And>t'. t_id t' = t_id t \<Longrightarrow> keeps p (k t')) \<Longrightarrow> keeps p (bindM (lift (orReturn (MarkFailed t fc now))) k)"
  "(\<And>t'. t_id t' = t_id t \<Longrightarrow> keeps p (k t')) \<Longrightarrow> keeps p (bindM (lift (orReturn (ResolveReference t i now))) k)"
  "(\<And>t'. t_id t' = t_id t \<Longrightarrow> keeps p (k t')) \<Longrightarrow> keeps p (bindM (lift (orReturn (RecordReferenceRetryAttempt t nx now))) k)"
  by (auto intro!: keeps_lift)

lemma parts [keeps_intros]:
  "keeps p m \<Longrightarrow> keeps p (notFoundAsNil m)"
  "keeps p m' \<Longrightarrow> keeps p (discard m')"
  "keeps p (replayOutput tx)"
  unfolding notFoundAsNil_def discard_def replayOutput_def by (intro keeps_intros; assumption)+

lemma outcomes [keeps_intros]:
  assumes "t_id tx \<notin> final"
  shows "keeps p (reject tx wl fc now c)" "keeps p (pendingReference tx wl now c)"
    "keeps p (settled_events tx wl b dir a now c)" "keeps p (settleLoss inp tx wl now c)" "keeps p (retryLater tx now)"
  unfolding reject_def pendingReference_def settled_events_def settleLoss_def retryLater_def
  using assms by (auto intro!: tx_step keeps_intros tx_update)

lemma settle_keeps [keeps_intros]: "t_id tx \<notin> final \<Longrightarrow> keeps p (settle tx wl v b dir a now c)"
  unfolding settle_def by (intro keeps_intros)

lemma moves [keeps_intros]:
  "t_id tx \<notin> final \<Longrightarrow> keeps p (debitAndSettle tx wl a fc now c)"
  "t_id tx \<notin> final \<Longrightarrow> keeps p (creditAndSettle tx wl a now c)"
  unfolding debitAndSettle_def creditAndSettle_def by (intro keeps_intros; assumption)+

lemma applyKind_keeps [keeps_intros]: "t_id tx \<notin> final \<Longrightarrow> keeps p (applyKind inp kind tx wl ref now c)"
  unfolding applyKind_def by (intro keeps_intros; assumption)

lemma withReference_keeps [keeps_intros]: "t_id tx \<notin> final \<Longrightarrow> keeps p (withReference inp kind tx wl ref now c)"
  unfolding withReference_def by (intro keeps_if keeps_cases keeps_bind [OF keeps_if] tx_step) (intro keeps_intros; simp)+

lemma resolveAndApply_keeps [keeps_intros]: "t_id tx \<notin> final \<Longrightarrow> keeps p (resolveAndApply inp kind tx wl now c)"
  unfolding resolveAndApply_def by (intro keeps_intros; assumption)

lemma attempt_keeps [keeps_intros]: "keeps p (attempt inp kind hash)"
proof -
  have r: "keeps p (resolveExisting inp hash)" unfolding resolveExisting_def by (intro keeps_intros)
  have c: "keeps p (bindM (TxCreate tx) (\<lambda>_. resolveAndApply inp kind tx w now (t_id tx)))" for tx w now
    by (intro tx_create keeps_intros)
  show ?thesis unfolding attempt_def by (intro r c keeps_intros)
qed

lemma open_keeps [keeps_intros]: "keeps p (open_in_tx inp wl now)"
  unfolding open_in_tx_def opening_events_def
  by (intro keeps_if keeps_bind [of p "WalletCreate wl"] keeps_bind [of p NewID] keeps_lift tx_create keeps_intros)

lemma resumeWith_keeps [keeps_intros]: "t_id tx \<notin> final \<Longrightarrow> keeps p (resumeWith tx wl ref now)"
  unfolding resumeWith_def resumeKind_def Let_def
  by (intro keeps_if keeps_cases keeps_bind [OF keeps_if] tx_step) (intro keeps_intros; simp)+

lemma resume_keeps [keeps_intros]: "keeps p (resume_in_tx i)"
  unfolding resume_in_tx_def by (rule tx_for_update) (intro keeps_intros; simp)

lemma expire_keeps [keeps_intros]: "keeps p (expire_in_tx i)"
  unfolding expire_in_tx_def
  by (rule tx_for_update) (intro keeps_if keeps_bind [of p timeNow] tx_step keeps_bind [OF tx_update] keeps_intros; simp)

lemma ExecuteWithin_keeps [keeps_intros]: "keeps p (ExecuteWithin uc inp)"
  unfolding ExecuteWithin_def recordOutcome_def countIf_def Let_def by (intro keeps_intros)

lemma executeLoop_keeps: "keeps_out p (executeLoop uc n inp kind hash)"
  by (induction n) (simp_all only: executeLoop.simps countIf_def recordOutcome_def UowExecute_def,
    (intro out_intros keeps_intros | assumption)+)

lemma use_cases [out_intros]:
  "keeps_out p (Execute uc inp)"
  "keeps_out p (OpenWalletExecute oi)"
  "keeps_out p (ResumePendingReference i)"
  "keeps_out p (ExpirePendingReference i)"
  "keeps_out p (ReconcileWalletExecute b i)"
  unfolding Execute_def OpenWalletExecute_def ResumePendingReference_def ExpirePendingReference_def
    ReconcileWalletExecute_def reconcile_read_def WalletFindByID_def LedgerCountByWallet_def LedgerSumByWallet_def
    Let_def UowExecute_def
  by (intro out_intros keeps_intros executeLoop_keeps)+

end

section \<open>Three such properties\<close>

text \<open>The ledger starts with these entries.\<close>

lemma insert_tx_rows: "insert_tx r d = Inr (u, d') \<Longrightarrow> d' = d\<lparr>txs := txs d @ [r]\<rparr> \<and> \<not> list_ex (tx_clash r) (txs d)"
  by (auto simp: insert_tx_def bindE_Inr_iff insert_row_Inr_iff)

interpretation ledgerPrefix: write_stable "\<lambda>d. prefix es (entries d)" "{}" for es
  by unfold_locales (auto simp: prefix_def dest: insert_tx_rows)

text \<open>The inbox has these messages.\<close>

definition inbox_keys :: "db \<Rightarrow> (string \<times> string) set" where
  "inbox_keys d = (\<lambda>r. (ir_consumer r, ir_message r)) ` set (inbox d)"

lemma inbox_keys_simps:
  "inbox_keys (d\<lparr>wallets := ws\<rparr>) = inbox_keys d" "inbox_keys (d\<lparr>txs := ts\<rparr>) = inbox_keys d"
  "inbox_keys (d\<lparr>outbox := obs\<rparr>) = inbox_keys d" "inbox_keys (d\<lparr>entries := es\<rparr>) = inbox_keys d"
  "inbox_keys (d\<lparr>inbox := inbox d @ [b]\<rparr>) = insert (ir_consumer b, ir_message b) (inbox_keys d)"
  by (simp_all add: inbox_keys_def)

lemma inbox_keys_completed:
  "inbox_keys (d\<lparr>inbox := map (\<lambda>b. if sel b then b\<lparr>ir_completed := t\<rparr> else b) (inbox d)\<rparr>) = inbox_keys d"
proof -
  have "(ir_consumer (if sel b then b\<lparr>ir_completed := t\<rparr> else b), ir_message (if sel b then b\<lparr>ir_completed := t\<rparr> else b)) =
      (ir_consumer b, ir_message b)" for b by simp
  moreover have "inbox (d\<lparr>inbox := bs\<rparr>) = bs" for bs by simp
  ultimately show ?thesis unfolding inbox_keys_def by (simp only: set_map image_image)
qed

interpretation inboxKeys: write_stable "\<lambda>d. K \<subseteq> inbox_keys d" "{}" for K
  by unfold_locales (auto simp: inbox_keys_simps inbox_keys_completed dest!: insert_tx_rows)

text \<open>A transaction that does not wait is there, alone with its id and its idempotency key.\<close>

definition final_row :: "tx_row \<Rightarrow> db \<Rightarrow> bool" where
  "final_row r d \<longleftrightarrow> r \<in> set (txs d) \<and> xr_status r \<noteq> StatusPendingReference \<and>
     (\<forall>r'\<in>set (txs d). xr_id r' = xr_id r \<or> same_key (xr_key r') (xr_key r) \<longrightarrow> r' = r)"

lemma final_row_map:
  assumes p: "final_row r d" and g: "g r = r" "\<And>x. xr_id (g x) = xr_id x" "\<And>x. xr_key (g x) = xr_key x"
  shows "final_row r (d\<lparr>txs := map g (txs d)\<rparr>)"
proof -
  have r: "r \<in> set (txs d)" "xr_status r \<noteq> StatusPendingReference"
    "\<And>x. x \<in> set (txs d) \<Longrightarrow> xr_id x = xr_id r \<or> same_key (xr_key x) (xr_key r) \<Longrightarrow> x = r"
    using p unfolding final_row_def by blast+
  have "g r \<in> g ` set (txs d)" using r(1) by (rule imageI)
  then have "r \<in> g ` set (txs d)" by (simp only: g(1))
  moreover have "\<forall>x\<in>g ` set (txs d). xr_id x = xr_id r \<or> same_key (xr_key x) (xr_key r) \<longrightarrow> x = r"
    using r(3) g by (metis (no_types, lifting) imageE)
  ultimately show ?thesis using r(2) by (simp add: final_row_def)
qed

interpretation finalRow: write_stable "final_row r" "{xr_id r}" for r
proof
  fix d and t :: WagerTransaction
  assume p: "final_row r d" and t: "t_id t \<notin> {xr_id r}"
  show "final_row r (d\<lparr>txs := map (\<lambda>x. if xr_id x = t_id t then tx_update_row t x else x) (txs d)\<rparr>)"
    by (rule final_row_map [OF p]) (use t in \<open>auto simp: tx_update_row_def\<close>)
next
  fix x d u d'
  assume p: "final_row r d" and i: "insert_tx x d = Inr (u, d')"
  have "\<not> tx_clash x r" using insert_tx_rows [OF i] p by (auto simp: final_row_def list_ex_iff)
  then show "final_row r d' \<and> xr_id x \<notin> {xr_id r}"
    using insert_tx_rows [OF i] p by (auto simp: final_row_def tx_clash_def)
qed (auto simp: final_row_def)

end
