(* ===== verification/Pending.thy ===== *)
theory Pending
  imports Replay
begin

text \<open>
  What becomes of a transaction that waits for its reference: expiring it, statement by statement.
\<close>

definition expired :: "WagerTransaction \<Rightarrow> Time \<Rightarrow> WagerTransaction" where
  "expired t now = t\<lparr>t_status := StatusFailed, t_failureCode := ''REFERENCE_EXPIRED'',
     t_updatedAt := now\<rparr>"

text \<open>The database after an expiry of \<open>t\<close>: its row rewritten, one event added.\<close>

definition expiry_of :: "db \<Rightarrow> WagerTransaction \<Rightarrow> db \<Rightarrow> bool" where
  "expiry_of c t d \<longleftrightarrow> (\<exists>now ev. or_type ev = ''WagerTransactionExpired'' \<and> or_aggregate ev = t_walletID t \<and>
     d = c\<lparr>txs := map (\<lambda>r. if xr_id r = t_id t then tx_update_row (expired t now) r else r) (txs c),
       outbox := outbox c @ [ev]\<rparr>)"

lemma viewing_then':
  assumes "triple e P m (\<lambda>_. viewing c p) anyhow" "\<And>a. triple e (viewing c p) (k a) Q anyhow"
  shows "triple e P (bindM m k) Q anyhow"
  using assms by (rule triple_bind)

lemma quiet_expire:
  assumes q: "quiet e"
  shows "triple e (viewing c (\<lambda>d. d = c)) (expire_in_tx i) (\<lambda>_. viewing c (\<lambda>d.
    \<exists>t. scanWagerTx (find (\<lambda>r. xr_id r = i) (txs c)) = Inr t \<and>
      (if t_status t = StatusPendingReference then expiry_of c t d else d = c))) anyhow"
    (is "triple e _ _ (\<lambda>_. viewing c ?Q) _")
  unfolding expire_in_tx_def
proof (rule triple_bind)
  let ?row = "\<lambda>d. find (\<lambda>r. xr_id r = i) (txs d)"
  show "triple e (viewing c (\<lambda>d. d = c)) (TxFindByIDForUpdate i)
      (\<lambda>t. viewing c (\<lambda>d. d = c \<and> scanWagerTx (?row c) = Inr t)) anyhow"
    unfolding TxFindByIDForUpdate_def
    by (rule triple_weaken [OF quiet_find [OF q, of "\<lambda>d. d = c" _ _ "\<lambda>t d. scanWagerTx (?row c) = Inr t"]]) auto
  fix t
  show "triple e (viewing c (\<lambda>d. d = c \<and> scanWagerTx (?row c) = Inr t)) (if t_status t \<noteq> StatusPendingReference then ret ()
     else bindM timeNow (\<lambda>now.
     bindM (lift (orReturn (MarkFailed t failureCodeReferenceExpired now))) (\<lambda>tx.
     bindM (TxUpdate tx) (\<lambda>_.
     bindM NewID (\<lambda>eid.
     OutboxCreate (NewWagerTransactionExpired eid (t_walletID tx) (t_id tx) now
       \<lparr>xd_transactionID = t_id tx, xd_walletID = t_walletID tx, xd_providerID = t_providerID tx,
        xd_externalID = t_externalID tx, xd_referenceExternalID = t_referenceExternalID tx,
        xd_failureCode = failureCodeReferenceExpired\<rparr>)))))) (\<lambda>_. viewing c ?Q) anyhow"
  proof (intro triple_if triple_ret viewing_then [OF viewing_timeNow] viewing_lift)
    fix w assume "t_status t \<noteq> StatusPendingReference" "viewing c (\<lambda>d. d = c \<and> scanWagerTx (?row c) = Inr t) w"
    then show "viewing c ?Q w" by (auto elim!: viewing_weaken)
  next
    fix now t'
    assume st: "\<not> t_status t \<noteq> StatusPendingReference" and "orReturn (MarkFailed t failureCodeReferenceExpired now) = Inr t'"
    then have t': "t' = expired t now" by (simp add: expired_def failureCodeReferenceExpired_def)
    let ?c1 = "c\<lparr>txs := map (\<lambda>r. if xr_id r = t_id t then tx_update_row (expired t now) r else r) (txs c)\<rparr>"
    let ?p = "\<lambda>d. d = ?c1 \<and> scanWagerTx (?row c) = Inr t"
    let ?ev = "\<lambda>eid. NewWagerTransactionExpired eid (t_walletID t') (t_id t') now
       \<lparr>xd_transactionID = t_id t', xd_walletID = t_walletID t', xd_providerID = t_providerID t',
        xd_externalID = t_externalID t', xd_referenceExternalID = t_referenceExternalID t',
        xd_failureCode = failureCodeReferenceExpired\<rparr>"
    have "triple e (viewing c (\<lambda>d. d = c \<and> scanWagerTx (?row c) = Inr t)) (TxUpdate t') (\<lambda>_. viewing c ?p) anyhow"
      unfolding TxUpdate_def
      by (rule viewing_then', rule quiet_stmt [OF q, of _ _ "\<lambda>_. ?p"])
        (auto simp: update_tx_def bindE_Inr_iff update_row_Inr_iff t' expired_def intro!: triple_rules)
    moreover have "triple e (viewing c ?p) (OutboxCreate (?ev eid)) (\<lambda>_. viewing c ?Q) anyhow" for eid
      unfolding OutboxCreate_def
    proof (rule viewing_lift, rule viewing_unique, rule quiet_stmt [OF q])
      fix j tm d a d'
      assume d: "?p d" and ins: "insert_outbox (event_to_row tm (?ev eid) j) d = Inr (a, d')"
      then have "d' = ?c1\<lparr>outbox := outbox c @ [event_to_row tm (?ev eid) j]\<rparr>"
        by (auto simp: insert_outbox_def bindE_Inr_iff insert_row_Inr_iff)
      then have "expiry_of c t d'"
        unfolding expiry_of_def
        by (intro exI [of _ now] exI [of _ "event_to_row tm (?ev eid) j"])
          (simp add: event_to_row_def NewWagerTransactionExpired_def t' expired_def)
      then show "?Q d'" using d st by auto
    qed
    ultimately show "triple e (viewing c (\<lambda>d. d = c \<and> scanWagerTx (?row c) = Inr t)) (bindM (TxUpdate t') (\<lambda>_.
        bindM NewID (\<lambda>eid. OutboxCreate (?ev eid)))) (\<lambda>_. viewing c ?Q) anyhow"
      by (intro triple_bind [OF _ viewing_then [OF viewing_NewID]])
  qed
qed

section \<open>Properties\<close>

text \<open>C10: An expiry that succeeds has looked at the stored transaction: unless it still waits for its
  reference nothing changes; if it does, its row becomes \<open>FAILED\<close> with \<open>REFERENCE_EXPIRED\<close> and one
  \<open>WagerTransactionExpired\<close> event of its wallet is queued in the same commit. Wallets, ledger and
  inbox are never touched, so an expired wager moves no money.\<close>

theorem Expire_exact:
  assumes "quiet e" "session w = None" "\<not> snapshot w" "ExpirePendingReference i e w = (Inr u, w')"
  shows "\<exists>t. scanWagerTx (find (\<lambda>r. xr_id r = i) (txs (committed w))) = Inr t \<and>
    (if t_status t = StatusPendingReference
     then \<exists>now ev. or_type ev = ''WagerTransactionExpired'' \<and> or_aggregate ev = t_walletID t \<and>
       committed w' = committed w\<lparr>txs := map (\<lambda>r. if xr_id r = i then tx_update_row (t\<lparr>t_status := StatusFailed,
           t_failureCode := ''REFERENCE_EXPIRED'', t_updatedAt := now\<rparr>) r else r) (txs (committed w)),
         outbox := outbox (committed w) @ [ev]\<rparr>
     else committed w' = committed w)"
proof -
  from quiet_WithinTx [OF assms(1-3) quiet_expire [OF assms(1)]] assms(4)
  obtain t where t: "scanWagerTx (find (\<lambda>r. xr_id r = i) (txs (committed w))) = Inr t"
    "if t_status t = StatusPendingReference then expiry_of (committed w) t (committed w') else committed w' = committed w"
    unfolding ExpirePendingReference_def UowExecute_def by fastforce
  then obtain r where r: "find (\<lambda>r. xr_id r = i) (txs (committed w)) = Some r" by (auto simp: scanWagerTx_def split: option.splits)
  then have "xr_id r = i" by (auto simp: find_Some_iff)
  moreover have "scanWagerTx (Some r) = Inr t" using t(1) unfolding r .
  ultimately have "t_id t = i" using scanWagerTx_fields by blast
  then show ?thesis using t unfolding expiry_of_def expired_def by blast
qed

definition waiting_row :: tx_row where
  "waiting_row = sample_opening_row\<lparr>xr_id := ''t1'', xr_kind := KindRefund, xr_status := StatusPendingReference,
     xr_provider := Some ''prov'', xr_external := Some ''x1'', xr_key := Some ''k1'', xr_hash := Some ''d'',
     xr_round := Some ''r1'', xr_game := Some ''g1'', xr_ref_external := Some ''x0''\<rparr>"

definition waiting_db :: db where
  "waiting_db = sample_db\<lparr>txs := [sample_opening_row, waiting_row]\<rparr>"

theorem Expire_exact_witness:
  "map xr_status (txs (committed (snd (ExpirePendingReference ''t1'' sample_env (world_of waiting_db))))) =
     [StatusProcessed, StatusFailed]"
proof -
  let ?res = "ExpirePendingReference ''t1'' sample_env (world_of waiting_db)"
  have "case fst ?res of Inr _ \<Rightarrow> True | Inl _ \<Rightarrow> False" by code_simp
  then obtain u where r: "?res = (Inr u, snd ?res)" by (cases ?res) (auto split: sum.splits)
  show ?thesis using Expire_exact [OF sample_quiet _ _ r]
    by (auto simp: world_of_def waiting_db_def waiting_row_def sample_rows scanWagerTx_def bindE_Inr_iff
        RehydrateTx_def tx_update_row_def split: if_splits)
qed

end
