(* ===== verification/Use_Cases.thy ===== *)
theory Use_Cases
  imports Retry_Loop Reconcile
begin

text \<open>
  The use cases behind one contract: each keeps the books, whatever statements fail and whatever
  promise-keeping sessions do meanwhile. A snapshot transaction keeps them because it only reads.
\<close>

section \<open>Use cases keep the books\<close>

lemma rely_outside_snapshot:
  assumes rely: "rely e" and w: "outside g w"
    and fn: "\<And>e v. rely e \<Longrightarrow> snapshot v \<Longrightarrow> session v \<noteq> None \<Longrightarrow> committed_ok g v \<Longrightarrow>
      snapshot (snd (m e v)) \<and> session (snd (m e v)) \<noteq> None \<and> committed_ok g (snd (m e v))"
  shows "outside g (snd (ReadSnapshot m e w))"
proof -
  let ?w1 = "interfere e w"
  have w1: "outside g ?w1" by (rule interfere_outside [OF rely w])
  let ?w2 = "?w1\<lparr>session := Some (committed ?w1), snapshot := True, tx_start := db_clock e (ticks w)\<rparr>"
  obtain q w3 where f: "m e ?w2 = (q, w3)" by fastforce
  have ok: "committed_ok g ?w2" using w1 by (simp add: outside_def committed_ok_def)
  have w3: "snapshot w3" "session w3 \<noteq> None" "committed_ok g w3" using fn [OF rely _ _ ok] f by simp_all
  have w4: "committed_ok g (interfere e w3)"
    by (rule committed_ok_interf [OF rely w3(3)]) (simp add: interfere_def)
  show ?thesis
    using w1 f w3 w4 by (cases q)
      (auto simp: ReadSnapshot_def in_tx_def bindM_apply begin_tx_def Let_def commit_tx_def end_tx_def publish_def
        outside_def committed_ok_def interfere_def ret_def split: fault.split)
qed

text \<open>Code that only queries.\<close>

definition queries_only :: "'a io \<Rightarrow> bool" where
  "queries_only m \<longleftrightarrow> (\<forall>e v g. rely e \<longrightarrow> snapshot v \<longrightarrow> session v \<noteq> None \<longrightarrow> committed_ok g v \<longrightarrow>
      snapshot (snd (m e v)) \<and> session (snd (m e v)) \<noteq> None \<and> committed_ok g (snd (m e v)))"

lemma queries_onlyD:
  "queries_only m \<Longrightarrow> rely e \<Longrightarrow> snapshot v \<Longrightarrow> session v \<noteq> None \<Longrightarrow> committed_ok g v \<Longrightarrow>
    snapshot (snd (m e v)) \<and> session (snd (m e v)) \<noteq> None \<and> committed_ok g (snd (m e v))"
  unfolding queries_only_def by blast

named_theorems query_intros

lemma queries_query [query_intros]: "queries_only (query q)"
  unfolding queries_only_def
proof (intro allI impI)
  fix e v g
  assume v: "rely e" "snapshot v" "session v \<noteq> None" "committed_ok g v"
  then obtain d where d: "session v = Some d" by auto
  have "committed_ok g (interfere e v)" by (rule committed_ok_interf [OF v(1,4)]) (simp add: interfere_def)
  then show "snapshot (snd (query q e v)) \<and> session (snd (query q e v)) \<noteq> None \<and> committed_ok g (snd (query q e v))"
    using v d by (auto simp: query_def stmt_def Let_def put_view_def view_def interfere_def committed_ok_def split: fault.split)
qed

lemma queries_pure [query_intros]: "queries_only (ret x)" "queries_only (throw y)" "queries_only (lift r)"
  by (simp_all add: queries_only_def)

lemma queries_bind [query_intros]:
  assumes "queries_only m" "\<And>a. queries_only (k a)"
  shows "queries_only (bindM m k)"
  unfolding queries_only_def
proof (intro allI impI)
  fix e v g
  assume v: "rely e" "snapshot v" "session v \<noteq> None" "committed_ok g v"
  obtain r v1 where r: "m e v = (r, v1)" by fastforce
  have "snapshot v1 \<and> session v1 \<noteq> None \<and> committed_ok g v1"
    using queries_onlyD [OF assms(1) v] r by simp
  then show "snapshot (snd (bindM m k e v)) \<and> session (snd (bindM m k e v)) \<noteq> None \<and> committed_ok g (snd (bindM m k e v))"
    using queries_onlyD [OF assms(2) v(1), of v1 g] r by (cases r) (simp_all add: bindM_apply)
qed

lemma queries_if [query_intros]: "queries_only m \<Longrightarrow> queries_only n \<Longrightarrow> queries_only (if b then m else n)"
  by simp

lemma queries_prod [query_intros]: "(\<And>x y. queries_only (k x y)) \<Longrightarrow> queries_only (case p of (x, y) \<Rightarrow> k x y)"
  by (cases p) simp

lemma queries_reconcile: "queries_only (reconcile_read i)"
  unfolding reconcile_read_def WalletFindByID_def LedgerCountByWallet_def LedgerSumByWallet_def
  by (intro query_intros)

interpretation executeCall: book_keeper "Execute uc inp" for uc inp
  by unfold_locales (rule triple_Execute)

interpretation openCall: book_keeper "OpenWalletExecute inp" for inp
  by unfold_locales (rule triple_OpenWallet)

interpretation resumeCall: book_keeper "ResumePendingReference i" for i
  by unfold_locales (rule triple_ResumePendingReference)

interpretation expireCall: book_keeper "ExpirePendingReference i" for i
  by unfold_locales (rule triple_ExpirePendingReference)

interpretation reconcileCall: book_keeper "ReconcileWalletExecute b i" for b i
proof
  fix e g assume rely: "rely e"
  have "triple e (outside g) (ReadSnapshot (reconcile_read i)) (\<lambda>_. outside g) (\<lambda>_. outside g)"
    unfolding triple_def
  proof (intro allI impI)
    fix w assume "outside g w"
    from rely_outside_snapshot [OF rely this, of "reconcile_read i"] queries_reconcile [of i]
    have "outside g (snd (ReadSnapshot (reconcile_read i) e w))" unfolding queries_only_def by blast
    then show "case ReadSnapshot (reconcile_read i) e w of (Inr a, w') \<Rightarrow> outside g w' | (Inl x, w') \<Rightarrow> outside g w'"
      by (cases "ReadSnapshot (reconcile_read i) e w"; cases "fst (ReadSnapshot (reconcile_read i) e w)") auto
  qed
  then show "triple e (outside g) (ReconcileWalletExecute b i) (\<lambda>_. outside g) (\<lambda>_. outside g)"
    unfolding ReconcileWalletExecute_def
    by (rule triple_bind) (auto intro!: triple_bind [where Q' = "\<lambda>_. outside g"] triple_lift triple_if triple_ret triple_count_out split: prod.split)
qed

lemmas use_case_keepers [keeper_intros] =
  executeCall.book_keeper_axioms openCall.book_keeper_axioms resumeCall.book_keeper_axioms
  expireCall.book_keeper_axioms reconcileCall.book_keeper_axioms

end
