(* ===== verification/Worker.thy ===== *)
theory Worker
  imports Append_Only Pending Use_Cases
begin

text \<open>
  \<open>internal/application/usecase/reference_retry_worker.go\<close>: the loop that resumes transactions whose
  reference may have arrived and expires those that have waited too long. The goroutines of a
  batch are run one after another: each is a transaction of its own, and what the others do
  meanwhile is work of other sessions. Log lines are left out.
\<close>

primrec resumeAll :: "string list \<Rightarrow> bool io" where
  "resumeAll [] = ret True"
| "resumeAll (i # is) =
     bindM ctxDone (\<lambda>stop. if stop then ret False
       else bindM (attempting (ResumePendingReference i)) (\<lambda>_. resumeAll is))"

primrec expireAll :: "string list \<Rightarrow> unit io" where
  "expireAll [] = ret ()"
| "expireAll (i # is) =
     bindM ctxDone (\<lambda>stop. if stop then ret ()
       else bindM (attempting (ExpirePendingReference i)) (\<lambda>_. expireAll is))"

text \<open>\<open>ttl\<close> is a \<open>time.Duration\<close>, nanoseconds in an \<open>int64\<close>; the worker's \<open>now\<close> is the clock.\<close>

definition expireStale :: "int64 \<Rightarrow> unit io" where
  "expireStale ttl =
     (if ttl \<le>s 0 then ret ()
      else bindM timeNow (\<lambda>now.
        bindM (attempting (TxListStalePendingReferenceIDs (now + sint (- ttl)) 32)) (\<lambda>r. case r of
          Inl _ \<Rightarrow> ret ()
        | Inr is \<Rightarrow> expireAll is)))"

definition processPending :: "int64 \<Rightarrow> unit io" where
  "processPending ttl =
     bindM (attempting (TxListPendingReferenceIDs 32)) (\<lambda>r. case r of
       Inl _ \<Rightarrow> ret ()
     | Inr is \<Rightarrow> bindM (resumeAll is) (\<lambda>finished. if finished then expireStale ttl else ret ()))"

text \<open>\<open>run\<close> for at most \<open>n\<close> ticks of its timer.\<close>

primrec workerRun :: "nat \<Rightarrow> int64 \<Rightarrow> unit io" where
  "workerRun 0 ttl = ret ()"
| "workerRun (Suc n) ttl =
     bindM (processPending ttl) (\<lambda>_.
     bindM ctxDone (\<lambda>stop. if stop then ret () else workerRun n ttl))"

section \<open>The books\<close>

lemma keeper_lists [keeper_intros]:
  "book_keeper (TxListPendingReferenceIDs n)" "book_keeper (TxListStalePendingReferenceIDs t n)"
  unfolding TxListPendingReferenceIDs_def TxListStalePendingReferenceIDs_def by (intro keeper_intros)+

lemma keeper_batches [keeper_intros]: "book_keeper (resumeAll is)" "book_keeper (expireAll is)"
  by (induction "is") (simp_all only: resumeAll.simps expireAll.simps, (intro keeper_intros | assumption)+)

lemma keeper_expireStale [keeper_intros]: "book_keeper (expireStale ttl)"
  unfolding expireStale_def by (intro keeper_intros)

lemma keeper_processPending [keeper_intros]: "book_keeper (processPending ttl)"
  unfolding processPending_def by (intro keeper_intros)

lemma keeper_workerRun: "book_keeper (workerRun n ttl)"
  by (induction n) (simp_all only: workerRun.simps, (intro keeper_intros | assumption)+)

section \<open>What expires\<close>

text \<open>A transaction that waits since before \<open>cutoff\<close>, and what an expiry may make of a row.\<close>

definition stale :: "Time \<Rightarrow> tx_row \<Rightarrow> bool" where
  "stale cutoff r \<longleftrightarrow> xr_status r = StatusPendingReference \<and> xr_created r < pg_ts cutoff"

definition expiry_step :: "Time \<Rightarrow> tx_row \<Rightarrow> tx_row \<Rightarrow> bool" where
  "expiry_step cutoff r0 r \<longleftrightarrow> r = r0 \<or>
     stale cutoff r0 \<and> xr_status r = StatusFailed \<and> xr_failure r = Some ''REFERENCE_EXPIRED'' \<and>
     (xr_id r, xr_wallet r, xr_amount r, xr_created r) = (xr_id r0, xr_wallet r0, xr_amount r0, xr_created r0)"

definition expires_only :: "Time \<Rightarrow> db \<Rightarrow> db \<Rightarrow> bool" where
  "expires_only cutoff d0 d \<longleftrightarrow> wallets d = wallets d0 \<and> entries d = entries d0 \<and>
     list_all2 (expiry_step cutoff) (txs d0) (txs d)"

lemma expires_only_refl: "expires_only cutoff d d"
  by (simp add: expires_only_def expiry_step_def list_all2_refl)

lemma expires_only_outbox: "expires_only cutoff d0 d \<Longrightarrow> expires_only cutoff d0 (d\<lparr>outbox := os\<rparr>)"
  by (simp add: expires_only_def)

lemma expires_only_row:
  assumes d: "expires_only cutoff d0 d" and u: "db_inv d0" and r0: "r0 \<in> set (txs d0)" "xr_id r0 = i" "stale cutoff r0"
    and t: "t_status t = StatusFailed" "t_failureCode t = ''REFERENCE_EXPIRED''"
  shows "expires_only cutoff d0 (d\<lparr>txs := map (\<lambda>r. if xr_id r = i then tx_update_row t r else r) (txs d)\<rparr>)"
proof -
  let ?g = "\<lambda>r. if xr_id r = i then tx_update_row t r else r"
  have l: "list_all2 (expiry_step cutoff) (txs d0) (txs d)" using d by (simp add: expires_only_def)
  have "list_all2 (\<lambda>a b. expiry_step cutoff a (?g b)) (txs d0) (txs d)"
  proof (rule list.rel_mono_strong [OF l])
    fix a b assume a: "a \<in> set (txs d0)" and ab: "expiry_step cutoff a b"
    show "expiry_step cutoff a (?g b)"
    proof (cases "xr_id b = i")
      case True
      then have "xr_id a = xr_id r0" using ab r0(2) by (auto simp: expiry_step_def)
      then have "a = r0" using xt.key_unique [OF db_inv_tables(2) [OF u] a r0(1)] by simp
      then show ?thesis using True r0(3) t ab by (auto simp: expiry_step_def tx_update_row_def nullableString_def)
    qed (use ab in simp)
  qed
  then show ?thesis using d by (simp add: expires_only_def list_all2_map2)
qed

lemma expires_one:
  assumes e: "\<And>n d. interf e n d = d" and u: "db_inv d0" and r0: "r0 \<in> set (txs d0)" "xr_id r0 = i" "stale cutoff r0"
  shows "triple e (at_rest (expires_only cutoff d0)) (attempting (ExpirePendingReference i))
    (\<lambda>_. at_rest (expires_only cutoff d0)) (\<lambda>_ _. False)"
proof -
  let ?p = "expires_only cutoff d0" and ?H = "holding (\<lambda>d _. expires_only cutoff d0 d) (expires_only cutoff d0)"
  have o: "others_keep e p" "others_keep2 e q" for p q by (simp_all add: others_keep_def others_keep2_def e)
  note pure = keepsD [OF _ o, of ?p _ "\<lambda>d _. expires_only cutoff d0 d"]
  have find: "triple e ?H (TxFindByIDForUpdate i) (\<lambda>t w. ?H w \<and> t_id t = i) (\<lambda>_. ?H)"
    unfolding triple_def
  proof (intro allI impI)
    fix w assume w: "?H w"
    have k: "keeps ?p (TxFindByIDForUpdate i)" unfolding TxFindByIDForUpdate_def by (intro keeps_intros)
    have "t_id t = i" if "fst (TxFindByIDForUpdate i e w) = Inr t" for t
    proof -
      have d: "scanWagerTx (find (\<lambda>r. xr_id r = i) (txs (view (interfere e w)))) = Inr t"
        using that unfolding TxFindByIDForUpdate_def
        by (cases "fault_at e (ticks w)") (simp_all add: bindM_apply query_def stmt_def Let_def)
      then obtain r where r: "find (\<lambda>r. xr_id r = i) (txs (view (interfere e w))) = Some r"
        by (cases "find (\<lambda>r. xr_id r = i) (txs (view (interfere e w)))") (simp_all add: scanWagerTx_def)
      then have "xr_id r = i" by (auto simp: find_Some_iff)
      moreover have "scanWagerTx (Some r) = Inr t" using d unfolding r .
      ultimately show ?thesis using scanWagerTx_fields by blast
    qed
    moreover have "case TxFindByIDForUpdate i e w of (Inr a, w') \<Rightarrow> ?H w' | (Inl x, w') \<Rightarrow> ?H w'"
      using pure [OF k] w by (simp add: triple_def)
    ultimately show "case TxFindByIDForUpdate i e w of (Inr t, w') \<Rightarrow> ?H w' \<and> t_id t = i | (Inl x, w') \<Rightarrow> ?H w'"
      by (cases "TxFindByIDForUpdate i e w"; cases "fst (TxFindByIDForUpdate i e w)") auto
  qed
  have upd: "keeps ?p (TxUpdate t)" if t: "t_id t = i" "t_status t = StatusFailed" "t_failureCode t = ''REFERENCE_EXPIRED''" for t
    unfolding TxUpdate_def
  proof (intro keeps_intros keeps_stmt)
    fix now d a d' assume d: "?p d" and "update_tx (\<lambda>r. xr_id r = t_id t) (tx_update_row t) d = Inr (a, d')"
    then have "d' = d\<lparr>txs := map (\<lambda>r. if xr_id r = i then tx_update_row t r else r) (txs d)\<rparr>"
      using t(1) by (auto simp: update_tx_def bindE_Inr_iff update_row_Inr_iff)
    then show "?p d'" using expires_only_row [OF d u r0 t(2,3)] by simp
  qed
  have out: "keeps ?p (OutboxCreate ev)" for ev
    unfolding OutboxCreate_def
    by (intro keeps_intros keeps_stmt)
      (auto simp: insert_outbox_def bindE_Inr_iff insert_row_Inr_iff intro: expires_only_outbox)
  have "triple e ?H (expire_in_tx i) (\<lambda>_. ?H) (\<lambda>_. ?H)"
    unfolding expire_in_tx_def
  proof (rule triple_bind [OF find])
    fix t
    let ?body = "bindM timeNow (\<lambda>now.
     bindM (lift (orReturn (MarkFailed t failureCodeReferenceExpired now))) (\<lambda>tx.
     bindM (TxUpdate tx) (\<lambda>_.
     bindM NewID (\<lambda>eid.
     OutboxCreate (NewWagerTransactionExpired eid (t_walletID tx) (t_id tx) now
       \<lparr>xd_transactionID = t_id tx, xd_walletID = t_walletID tx, xd_providerID = t_providerID tx,
        xd_externalID = t_externalID tx, xd_referenceExternalID = t_referenceExternalID tx,
        xd_failureCode = failureCodeReferenceExpired\<rparr>)))))"
    let ?rest = "if t_status t \<noteq> StatusPendingReference then ret () else ?body"
    have k: "keeps ?p ?rest" if i: "t_id t = i"
    proof (rule keeps_if)
      assume "\<not> t_status t \<noteq> StatusPendingReference"
      then have mf: "orReturn (MarkFailed t failureCodeReferenceExpired now) = Inr (expired t now)" for now
        by (simp add: expired_def failureCodeReferenceExpired_def IsTerminal_iff terminal_status_def)
      have bl: "bindM (lift (Inr x)) k = k x" for x :: WagerTransaction and k :: "WagerTransaction \<Rightarrow> unit io"
        by (simp add: bindM_def lift_def)
      have tu: "keeps ?p (TxUpdate (expired t now))" for now using i by (intro upd) (simp_all add: expired_def)
      show "keeps ?p ?body"
        unfolding mf bl by (rule keeps_bind keeps_pure tu out)+
    qed (rule keeps_pure)
    show "triple e (\<lambda>w. ?H w \<and> t_id t = i) ?rest (\<lambda>_. ?H) (\<lambda>_. ?H)"
    proof (cases "t_id t = i")
      case True
      show ?thesis by (rule triple_weaken [OF pure [OF k [OF True]]]) simp_all
    qed (simp add: triple_def)
  qed
  from uow_leaves [OF o(1) o(1) o(2) _ _ this]
  have "triple e (at_rest ?p) (ExpirePendingReference i) (\<lambda>_. at_rest ?p) (\<lambda>_. at_rest ?p)"
    unfolding ExpirePendingReference_def UowExecute_def by (rule triple_weaken) (auto simp: resting_def)
  then show ?thesis by (intro triple_attempting)
qed

lemma expires_all:
  assumes e: "\<And>n d. interf e n d = d" and u: "db_inv d0" and "is": "list_all (\<lambda>i. \<exists>r\<in>set (txs d0). xr_id r = i \<and> stale cutoff r) is"
  shows "triple e (at_rest (expires_only cutoff d0)) (expireAll is) (\<lambda>_. at_rest (expires_only cutoff d0)) (\<lambda>_ _. False)"
  using "is"
proof (induction "is")
  case Nil
  show ?case unfolding expireAll.simps by (simp add: triple_def)
next
  case (Cons i "is")
  obtain r where r: "r \<in> set (txs d0)" "xr_id r = i" "stale cutoff r" using Cons.prems by auto
  have rest: "triple e (at_rest (expires_only cutoff d0)) (expireAll is) (\<lambda>_. at_rest (expires_only cutoff d0)) (\<lambda>_ _. False)"
    using Cons by simp
  have "triple e (at_rest (expires_only cutoff d0)) (bindM (attempting (ExpirePendingReference i)) (\<lambda>_. expireAll is))
      (\<lambda>_. at_rest (expires_only cutoff d0)) (\<lambda>_ _. False)"
    by (rule triple_bind [OF expires_one [OF e u r] rest])
  then show ?case by (simp add: triple_def ctxDone_def bindM_apply)
qed

lemma expires_none: "at_rest (\<lambda>d. d = d0) w \<Longrightarrow> at_rest (expires_only cutoff d0) w"
  by (auto simp: resting_def expires_only_refl)

lemma oldest_first_set: "i \<in> set (oldest_first n rs) \<Longrightarrow> \<exists>r\<in>set rs. xr_id r = i"
  by (force simp: oldest_first_def dest!: in_set_takeD)

lemma stale_listed:
  assumes e: "\<And>n d. interf e n d = d"
  shows "triple e (at_rest (\<lambda>d. d = d0)) (attempting (TxListStalePendingReferenceIDs cutoff n))
    (\<lambda>r w. at_rest (\<lambda>d. d = d0) w \<and> (\<forall>is. r = Inr is \<longrightarrow>
       list_all (\<lambda>i. \<exists>x\<in>set (txs d0). xr_id x = i \<and> stale cutoff x) is)) (\<lambda>_ _. False)"
  unfolding triple_def
proof (intro allI impI)
  fix w assume w: "at_rest (\<lambda>d. d = d0) w"
  then have w1: "at_rest (\<lambda>d. d = d0) (interfere e w)" "view (interfere e w) = d0"
    by (simp_all add: resting_def interfere_def view_def e)
  then have "put_view d0 (interfere e w) = interfere e w" by (simp add: put_view_def resting_def)
  then show "case attempting (TxListStalePendingReferenceIDs cutoff n) e w of
      (Inr r, w') \<Rightarrow> at_rest (\<lambda>d. d = d0) w' \<and> (\<forall>is. r = Inr is \<longrightarrow>
        list_all (\<lambda>i. \<exists>x\<in>set (txs d0). xr_id x = i \<and> stale cutoff x) is)
    | (Inl x, w') \<Rightarrow> False"
    using w1 by (cases "fault_at e (ticks w)")
      (auto simp: attempting_def TxListStalePendingReferenceIDs_def query_def stmt_def Let_def list_all_iff stale_def
        dest!: oldest_first_set)
qed

section \<open>Properties\<close>

text \<open>C31: Whatever fails and whenever the service is shut down, a turn of the worker's expiry returns, and
  while nobody else writes it changes only transactions that wait for a reference since before the
  worker's clock less the time to live: those may become \<open>FAILED\<close> with \<open>REFERENCE_EXPIRED\<close>. Wallets,
  ledger and every other row stay as they are; with a time to live of zero or less nothing happens.\<close>

theorem expireStale_only_stale:
  assumes "\<And>n d. interf e n d = d" "db_inv (committed w)" "session w = None" "\<not> snapshot w"
  shows "\<exists>w'. expireStale ttl e w = (Inr (), w') \<and>
    (if ttl \<le>s 0 then w' = w
     else expires_only (clock e (clocks w) + sint (- ttl)) (committed w) (committed w'))"
proof (cases "ttl \<le>s 0")
  case True
  then show ?thesis by (simp add: expireStale_def)
next
  case False
  let ?c = "clock e (clocks w) + sint (- ttl)" and ?w = "w\<lparr>clocks := Suc (clocks w)\<rparr>"
  let ?m = "bindM (attempting (TxListStalePendingReferenceIDs ?c 32)) (\<lambda>r. case r of Inl _ \<Rightarrow> ret () | Inr is \<Rightarrow> expireAll is)"
  have s: "expireStale ttl e w = ?m e ?w" using False by (simp add: expireStale_def bindM_apply timeNow_def)
  have "triple e (at_rest (\<lambda>d. d = committed w)) ?m (\<lambda>_. at_rest (expires_only ?c (committed w))) (\<lambda>_ _. False)"
  proof (rule triple_bind [OF stale_listed [OF assms(1)]])
    fix r :: "string list result"
    show "triple e (\<lambda>w'. at_rest (\<lambda>d. d = committed w) w' \<and> (\<forall>is. r = Inr is \<longrightarrow>
        list_all (\<lambda>i. \<exists>x\<in>set (txs (committed w)). xr_id x = i \<and> stale ?c x) is))
      (case r of Inl _ \<Rightarrow> ret () | Inr is \<Rightarrow> expireAll is) (\<lambda>_. at_rest (expires_only ?c (committed w))) (\<lambda>_ _. False)"
    proof (cases r)
      case (Inl x)
      then show ?thesis by (simp add: triple_def expires_none)
    next
      case (Inr "is")
      show ?thesis
      proof (cases "list_all (\<lambda>i. \<exists>x\<in>set (txs (committed w)). xr_id x = i \<and> stale ?c x) is")
        case True
        show ?thesis unfolding Inr sum.case
          by (rule triple_weaken [OF expires_all [OF assms(1,2) True]]) (auto intro: expires_none)
      qed (simp add: triple_def Inr)
    qed
  qed
  from tripleD [OF this, of ?w] assms(3,4) have "case ?m e ?w of (Inr a, w') \<Rightarrow> at_rest (expires_only ?c (committed w)) w' | (Inl x, w') \<Rightarrow> False"
    by (simp add: resting_def)
  then obtain w' where "?m e ?w = (Inr (), w')" "at_rest (expires_only ?c (committed w)) w'"
    by (cases "?m e ?w"; cases "fst (?m e ?w)") auto
  then show ?thesis using s False by (auto simp: resting_def)
qed

definition late_env :: env where
  "late_env = sample_env\<lparr>clock := \<lambda>_. 5000000000\<rparr>"

lemma waiting_db_inv: "db_inv waiting_db"
  by (simp add: waiting_db_def waiting_row_def db_inv_def schema_ok_def sample_rows table_ok_def wallet_check_def tx_check_def
      ledger_check_def tx_amount_by_kind_def tx_kind_fields_def tx_reference_by_kind_def in_int32_def
      tx_fk_def ledger_fk_def entry_currency_ok_def currency_format_def isAllLetters_def tx_clash_def same_key_def processed_reversal_def)

theorem expireStale_only_stale_witness:
  "map xr_status (txs (committed (snd (expireStale 1000000000 late_env (world_of waiting_db))))) = [StatusProcessed, StatusFailed] \<and>
   expires_only 4000000000 waiting_db (committed (snd (expireStale 1000000000 late_env (world_of waiting_db))))"
proof -
  have "map xr_status (txs (committed (snd (expireStale 1000000000 late_env (world_of waiting_db))))) = [StatusProcessed, StatusFailed]"
    by code_simp
  moreover have "clock late_env n + sint (- 1000000000 :: int64) = 4000000000" for n by (simp add: late_env_def)
  ultimately show ?thesis
    using expireStale_only_stale [of late_env "world_of waiting_db" 1000000000] waiting_db_inv
    by (auto simp: late_env_def sample_env_def world_of_def word_sle_eq)
qed

end
