(* ===== verification/Json_Reader.thy ===== *)
theory Json_Reader
  imports Json
begin

text \<open>
  Reading JSON as \<open>encoding/json\<close> does: the values of a text (strict grammar, numbers kept as
  they are written), \<open>Unmarshal\<close> and \<open>Decoder.Decode\<close>, and how an object fills a struct: members by
  exact or folded name, the others ignored, a member of the wrong type refused once everything
  is read.
\<close>

datatype jval = JvNull | JvBool bool | JvNum string | JvStr string | JvArr "jval list" | JvObj "(string \<times> jval) list"

section \<open>Values\<close>

definition json_space :: "char \<Rightarrow> bool" where
  "json_space c \<longleftrightarrow> c = CHR '' '' \<or> c = CHR 0x09 \<or> c = CHR 0x0A \<or> c = CHR 0x0D"

definition skip :: "string \<Rightarrow> string" where
  "skip = dropWhile json_space"

text \<open>One or more digits.\<close>

definition scanDigits :: "string \<Rightarrow> (string \<times> string) option" where
  "scanDigits s = (if takeWhile is_digit s = [] then None else Some (takeWhile is_digit s, dropWhile is_digit s))"

definition scanFraction :: "string \<Rightarrow> (string \<times> string) option" where
  "scanFraction s =
     (case s of
        c # r \<Rightarrow> if c = CHR ''.'' then map_option (\<lambda>(d, r'). (c # d, r')) (scanDigits r) else Some ([], s)
      | [] \<Rightarrow> Some ([], s))"

definition scanExponent :: "string \<Rightarrow> (string \<times> string) option" where
  "scanExponent s =
     (case s of
        c # r \<Rightarrow>
          if c = CHR ''e'' \<or> c = CHR ''E'' then
            (let sgn = (case r of x # _ \<Rightarrow> if x = CHR ''+'' \<or> x = CHR ''-'' then [x] else [] | [] \<Rightarrow> []) in
             map_option (\<lambda>(d, r'). (c # sgn @ d, r')) (scanDigits (drop (length sgn) r)))
          else Some ([], s)
      | [] \<Rightarrow> Some ([], s))"

definition scanInteger :: "string \<Rightarrow> (string \<times> string) option" where
  "scanInteger s =
     (case s of c # r \<Rightarrow> if c = CHR ''0'' then Some ([c], r) else scanDigits s | [] \<Rightarrow> None)"

definition scanNumber :: "string \<Rightarrow> (string \<times> string) option" where
  "scanNumber s =
     (let sgn = (case s of c # _ \<Rightarrow> if c = CHR ''-'' then [c] else [] | [] \<Rightarrow> []) in
      Option.bind (scanInteger (drop (length sgn) s)) (\<lambda>(i, r1).
      Option.bind (scanFraction r1) (\<lambda>(f, r2).
      Option.bind (scanExponent r2) (\<lambda>(x, r3). Some (sgn @ i @ f @ x, r3)))))"

definition after :: "string \<Rightarrow> string \<Rightarrow> string option" where
  "after p s = (if take (length p) s = p then Some (drop (length p) s) else None)"

lemma skip_length: "length (skip s) \<le> length s"
  by (simp add: skip_def length_dropWhile_le)

lemma skip_Cons: "skip s = c # r \<Longrightarrow> length r < length s"
  using skip_length [of s] by simp

lemma unquote_length: "unquote s = Some (t, r) \<Longrightarrow> length r < length s"
proof (induction s arbitrary: t r rule: length_induct)
  case (1 s)
  show ?case
  proof (cases s)
    case (Cons c cs)
    have IH: "length r < Suc (length cs)" if "length x \<le> length cs" "unquote x = Some (t, r)" for x t r
      using "1.IH" that Cons by (metis length_Cons less_Suc_eq_le less_trans order.strict_trans1 not_le)
    show ?thesis
      using "1.prems" Cons
      apply (auto simp: unquote.simps(2) Let_def split: if_splits list.splits option.splits prod.splits)
      subgoal for ds u rest a
        using IH [of "snd (takeEscape u rest)" a r] takeEscape_length [of u rest] getu4_length [of ds u rest] by simp
      subgoal for e ds x a using IH [of ds a r] by simp
      subgoal for a using IH [of cs a r] by simp
      subgoal for a using IH [of "drop (utf8_width (c # cs) - Suc 0) cs" a r] by simp
      done
  qed (use "1.prems" in simp)
qed

text \<open>
  A value at the start of the text (after blanks), the members of an object up to its closing
  brace and the elements of an array, each with the rest of the text. What is left is always
  shorter, so the tests on lengths always succeed.
\<close>

function parseValue :: "string \<Rightarrow> (jval \<times> string) option"
  and parseMembers :: "string \<Rightarrow> ((string \<times> jval) list \<times> string) option"
  and parseElements :: "string \<Rightarrow> (jval list \<times> string) option" where
  "parseValue s =
     (case skip s of [] \<Rightarrow> None
      | c # r \<Rightarrow>
          if c = CHR 0x22 then map_option (\<lambda>(t, r'). (JvStr t, r')) (unquote r)
          else if c = CHR ''{'' then
            (case skip r of
               [] \<Rightarrow> None
             | d # r' \<Rightarrow> if d = CHR ''}'' then Some (JvObj [], r')
                 else map_option (\<lambda>(ms, q). (JvObj ms, q)) (parseMembers (d # r')))
          else if c = CHR ''['' then
            (case skip r of
               [] \<Rightarrow> None
             | d # r' \<Rightarrow> if d = CHR '']'' then Some (JvArr [], r')
                 else map_option (\<lambda>(es, q). (JvArr es, q)) (parseElements (d # r')))
          else if c = CHR ''t'' then map_option (\<lambda>q. (JvBool True, q)) (after ''true'' (c # r))
          else if c = CHR ''f'' then map_option (\<lambda>q. (JvBool False, q)) (after ''false'' (c # r))
          else if c = CHR ''n'' then map_option (\<lambda>q. (JvNull, q)) (after ''null'' (c # r))
          else map_option (\<lambda>(n, q). (JvNum n, q)) (scanNumber (c # r)))"
| "parseMembers s =
     (case s of
        [] \<Rightarrow> None
      | c # r \<Rightarrow>
          if c \<noteq> CHR 0x22 then None
          else (case unquote r of None \<Rightarrow> None
            | Some (k, r1) \<Rightarrow> (case skip r1 of [] \<Rightarrow> None
                | d # r2 \<Rightarrow>
                    if d \<noteq> CHR '':'' then None
                    else (case parseValue r2 of None \<Rightarrow> None
                      | Some (v, r3) \<Rightarrow>
                          if \<not> length r3 < length r2 then None
                          else (case skip r3 of [] \<Rightarrow> None
                            | f # r4 \<Rightarrow>
                                if f = CHR ''}'' then Some ([(k, v)], r4)
                                else if f = CHR '','' then
                                  map_option (\<lambda>(ms, q). ((k, v) # ms, q)) (parseMembers (skip r4))
                                else None)))))"
| "parseElements s =
     (case parseValue s of None \<Rightarrow> None
      | Some (v, r) \<Rightarrow>
          if \<not> length r < length s then None
          else (case skip r of [] \<Rightarrow> None
            | f # q \<Rightarrow>
                if f = CHR '']'' then Some ([v], q)
                else if f = CHR '','' then map_option (\<lambda>(es, z). (v # es, z)) (parseElements (skip q))
                else None))"
  by pat_completeness auto
termination
proof (relation "measure (\<lambda>x. case x of Inl s \<Rightarrow> 2 * length s | Inr (Inl s) \<Rightarrow> 2 * length s + 1 | Inr (Inr s) \<Rightarrow> 2 * length s + 1)")
qed (auto dest!: skip_Cons unquote_length intro: le_less_trans [OF skip_length] le_less_trans [OF mult_le_mono2 [OF skip_length]])

end
