(* ===== verification/Json_Decode.thy ===== *)
theory Json_Decode
  imports Json_Reader
begin

text \<open>
  \<open>json.Unmarshal\<close> and \<open>Decoder.Decode\<close> into structs of strings, \<open>money.Money\<close> and nested structs,
  and the proof that the reader undoes \<open>json.Marshal\<close>.
\<close>

section \<open>Texts\<close>

text \<open>The scanner refuses texts nested deeper than 10000.\<close>

fun depth :: "jval \<Rightarrow> nat" where
  "depth (JvArr vs) = Suc (foldr max (map depth vs) 0)"
| "depth (JvObj ms) = Suc (foldr max (map (\<lambda>m. depth (snd m)) ms) 0)"
| "depth _ = 0"

definition maxNestingDepth :: nat where
  "maxNestingDepth = 10000"

text \<open>\<open>Unmarshal\<close> reads a whole text, \<open>Decode\<close> the first value of a stream and leaves the rest.\<close>

definition readText :: "string \<Rightarrow> jval option" where
  "readText s = (case parseValue s of None \<Rightarrow> None
     | Some (v, r) \<Rightarrow> if skip r = [] \<and> depth v \<le> maxNestingDepth then Some v else None)"

definition readFirst :: "string \<Rightarrow> jval option" where
  "readFirst s = (case parseValue s of None \<Rightarrow> None
     | Some (v, _) \<Rightarrow> if depth v \<le> maxNestingDepth then Some v else None)"

section \<open>Structs\<close>

text \<open>
  \<open>foldName\<close>: names are equal up to case, where U+017F folds with S and U+212A (the Kelvin sign)
  with K. No other character outside ASCII folds into the names of a struct.
\<close>

fun foldName :: "string \<Rightarrow> string" where
  "foldName [] = []"
| "foldName (c # cs) =
     (if take 2 (c # cs) = [CHR 0xC5, CHR 0xBF] then CHR ''S'' # foldName (drop 1 cs)
      else if take 3 (c # cs) = [CHR 0xE2, CHR 0x84, CHR 0xAA] then CHR ''K'' # foldName (drop 2 cs)
      else (if 97 \<le> (of_char c :: nat) \<and> of_char c \<le> (122 :: nat) then char_of (of_char c - 32 :: nat) else c) # foldName cs)"

definition fieldOf :: "string list \<Rightarrow> string \<Rightarrow> string option" where
  "fieldOf names key = (if key \<in> set names then Some key else find (\<lambda>n. foldName n = foldName key) names)"

text \<open>
  Storing a member: the struct it leaves and whether its type was wrong, which is only reported at
  the end; an error of a custom \<open>UnmarshalJSON\<close> ends the decoding at once.
\<close>

type_synonym 's store = "string \<Rightarrow> jval \<Rightarrow> 's \<Rightarrow> ('s \<times> bool) result"

primrec storeMembers :: "string list \<Rightarrow> 's store \<Rightarrow> (string \<times> jval) list \<Rightarrow> 's \<times> bool \<Rightarrow> ('s \<times> bool) result" where
  "storeMembers names st [] acc = Inr acc"
| "storeMembers names st (m # ms) acc =
     (case fieldOf names (fst m) of
        None \<Rightarrow> storeMembers names st ms acc
      | Some f \<Rightarrow> bindE (st f (snd m) (fst acc)) (\<lambda>(s', bad). storeMembers names st ms (s', snd acc \<or> bad)))"

definition storeStruct :: "string list \<Rightarrow> 's store \<Rightarrow> jval \<Rightarrow> 's \<Rightarrow> ('s \<times> bool) result" where
  "storeStruct names st v s =
     (case v of
        JvNull \<Rightarrow> Inr (s, False)
      | JvObj ms \<Rightarrow> storeMembers names st ms (s, False)
      | _ \<Rightarrow> Inr (s, True))"

definition fillStruct :: "string list \<Rightarrow> 's store \<Rightarrow> 's \<Rightarrow> jval option \<Rightarrow> 's result" where
  "fillStruct names st zero v =
     (case v of
        None \<Rightarrow> Inl (InfraErr InfraBadData)
      | Some v \<Rightarrow> bindE (storeStruct names st v zero) (\<lambda>(s, bad). if bad then Inl (InfraErr InfraBadData) else Inr s))"

definition storeString :: "((string \<Rightarrow> string) \<Rightarrow> 's \<Rightarrow> 's) \<Rightarrow> jval \<Rightarrow> 's \<Rightarrow> ('s \<times> bool) result" where
  "storeString upd v s =
     (case v of JvStr t \<Rightarrow> Inr (upd (\<lambda>_. t) s, False) | JvNull \<Rightarrow> Inr (s, False) | _ \<Rightarrow> Inr (s, True))"

definition storeMoneyJSON :: "moneyJSON store" where
  "storeMoneyJSON f v s =
     (if f = ''amount'' then storeString js_amount_update v s else storeString js_currency_update v s)"

text \<open>\<open>Money.UnmarshalJSON\<close> on the bytes of a value; it is also called for \<open>null\<close>.\<close>

definition readMoney :: "jval \<Rightarrow> Money result" where
  "readMoney v = UnmarshalJSON
     (case fillStruct [''amount'', ''currency''] storeMoneyJSON \<lparr>js_amount = [], js_currency = []\<rparr> (Some v) of
        Inl _ \<Rightarrow> None | Inr raw \<Rightarrow> Some raw)"

definition storeMoney :: "((Money \<Rightarrow> Money) \<Rightarrow> 's \<Rightarrow> 's) \<Rightarrow> jval \<Rightarrow> 's \<Rightarrow> ('s \<times> bool) result" where
  "storeMoney upd v s = bindE (readMoney v) (\<lambda>m. Inr (upd (\<lambda>_. m) s, False))"

section \<open>Reading what was written\<close>

text \<open>A tree of the writer as the reader gives it back.\<close>

fun jval_of :: "json \<Rightarrow> jval" where
  "jval_of (JString s) = JvStr s"
| "jval_of (JInt i) = JvNum (render (JInt i))"
| "jval_of (JBool b) = JvBool b"
| "jval_of (JObject kvs) = JvObj (map (\<lambda>(k, v). (k, jval_of v)) kvs)"

fun texts_ok :: "json \<Rightarrow> bool" where
  "texts_ok (JString s) = valid_utf8 s"
| "texts_ok (JObject kvs) = list_all (\<lambda>(k, v). valid_utf8 k \<and> texts_ok v) kvs"
| "texts_ok _ = True"

definition ends_number :: "string \<Rightarrow> bool" where
  "ends_number r = (case r of [] \<Rightarrow> True | c # _ \<Rightarrow> \<not> is_digit c \<and> c \<notin> {CHR ''.'', CHR ''e'', CHR ''E''})"

declare parseValue.simps [simp del] parseMembers.simps [simp del] parseElements.simps [simp del]

lemma skip_id: "\<not> json_space c \<Longrightarrow> skip (c # s) = c # s"
  by (simp add: skip_def)

lemma show_nat_head: "0 < n \<Longrightarrow> hd (show_nat n) \<noteq> CHR ''0''"
proof (induction n rule: show_nat.induct)
  case (1 n)
  have "digit_char m \<noteq> CHR ''0''" if "0 < m" "m < 10" for m
    using of_char_digit_char [of m] that by (auto dest: arg_cong [where f = "of_char :: char \<Rightarrow> nat"])
  then show ?case using 1 by (subst show_nat.simps) (simp add: hd_append)
qed

lemma show_nat_0: "show_nat 0 = ''0''"
  by (subst show_nat.simps) (simp add: digit_char_def char_of_eq_iff take_bit_eq_mod)

lemma scanDigits_show: "ends_number r \<Longrightarrow> scanDigits (show_nat n @ r) = Some (show_nat n, r)"
proof -
  assume r: "ends_number r"
  have "\<forall>c\<in>set (show_nat n). is_digit c" using list_all_digit_show_nat [of n] by (simp add: list_all_iff)
  moreover have "takeWhile is_digit r = []" "dropWhile is_digit r = r"
    using r by (auto simp: ends_number_def split: list.splits)
  ultimately have "takeWhile is_digit (show_nat n @ r) = show_nat n" "dropWhile is_digit (show_nat n @ r) = r"
    by (simp_all add: takeWhile_append2 dropWhile_append2)
  then show ?thesis by (simp add: scanDigits_def)
qed

lemma scanInteger_show:
  assumes "ends_number r"
  shows "scanInteger (show_nat n @ r) = Some (show_nat n, r)"
proof (cases "n = 0")
  case False
  obtain c cs where "show_nat n = c # cs" by (cases "show_nat n") auto
  then show ?thesis using show_nat_head [of n] scanDigits_show [OF assms, of n] False by (simp add: scanInteger_def)
qed (simp add: show_nat_0 scanInteger_def)

lemma scanNumber_show:
  assumes r: "ends_number r"
  shows "scanNumber (render (JInt i) @ r) = Some (render (JInt i), r)"
proof -
  have t: "scanFraction r = Some ([], r)" "scanExponent r = Some ([], r)"
    using r by (auto simp: scanFraction_def scanExponent_def ends_number_def split: list.splits)
  obtain c cs where c: "show_nat (nat \<bar>i\<bar>) = c # cs" by (cases "show_nat (nat \<bar>i\<bar>)") auto
  then have "is_digit c" using list_all_digit_show_nat [of "nat \<bar>i\<bar>"] by simp
  then have "c \<noteq> CHR ''-''" by (auto simp: is_digit_def)
  then show ?thesis using scanInteger_show [OF r, of "nat \<bar>i\<bar>"] t c by (simp add: scanNumber_def Let_def)
qed

lemma render_head:
  "\<exists>c cs. render j = c # cs \<and> \<not> json_space c \<and> (is_digit c \<or> c \<in> {CHR 0x22, CHR ''-'', CHR ''t'', CHR ''f'', CHR ''{''})"
proof (cases j)
  case (JInt i)
  obtain c cs where c: "show_nat (nat \<bar>i\<bar>) = c # cs" by (cases "show_nat (nat \<bar>i\<bar>)") auto
  then have "is_digit c" using list_all_digit_show_nat [of "nat \<bar>i\<bar>"] by simp
  moreover from this have "\<not> json_space c" by (auto simp: json_space_def is_digit_def)
  ultimately show ?thesis using JInt c by (simp add: json_space_def)
qed (auto simp: quote_def json_space_def)

lemma parse_string: "valid_utf8 s \<Longrightarrow> parseValue (quote s @ r) = Some (JvStr s, r)"
  by (subst parseValue.simps) (simp add: quote_def skip_id json_space_def unquote_esc)

lemma parse_int:
  assumes "ends_number r" shows "parseValue (render (JInt i) @ r) = Some (JvNum (render (JInt i)), r)"
proof -
  obtain c cs where c: "render (JInt i) = c # cs" "\<not> json_space c" and d: "is_digit c \<or> c = CHR ''-''"
    using list_all_digit_show_nat [of "nat \<bar>i\<bar>"] render_head [of "JInt i"]
    by (cases "show_nat (nat \<bar>i\<bar>)") (auto split: if_splits)
  have "c \<noteq> CHR 0x22" "c \<noteq> CHR ''{''" "c \<noteq> CHR ''[''" "c \<noteq> CHR ''t''" "c \<noteq> CHR ''f''" "c \<noteq> CHR ''n''"
    using d by (auto simp: is_digit_def)
  then show ?thesis using scanNumber_show [OF assms, of i] c
    by (subst parseValue.simps) (simp add: skip_id del: render.simps)
qed

lemma parse_members_last:
  assumes "valid_utf8 k" "parseValue (t @ CHR ''}'' # r) = Some (v, CHR ''}'' # r)" "t \<noteq> []"
  shows "parseMembers (quote k @ CHR '':'' # t @ CHR ''}'' # r) = Some ([(k, v)], r)"
  using assms by (subst parseMembers.simps) (simp add: quote_def unquote_esc skip_id json_space_def)

lemma parse_members_more:
  assumes "valid_utf8 k" "parseValue (t @ CHR '','' # u) = Some (v, CHR '','' # u)" "t \<noteq> []" "skip u = u"
    "parseMembers u = Some (ms, r)"
  shows "parseMembers (quote k @ CHR '':'' # t @ CHR '','' # u) = Some ((k, v) # ms, r)"
  using assms by (subst parseMembers.simps) (simp add: quote_def unquote_esc skip_id json_space_def)

lemma render_nonempty: "render j \<noteq> []"
  using render_head [of j] by auto

lemma render_fields_head: "kvs \<noteq> [] \<Longrightarrow> \<exists>cs. render_fields kvs = CHR 0x22 # cs"
  by (cases kvs; cases "tl kvs") (auto simp: quote_def)

lemma parse_render:
  "texts_ok j \<Longrightarrow> ends_number r \<Longrightarrow> parseValue (render j @ r) = Some (jval_of j, r)"
  "kvs \<noteq> [] \<Longrightarrow> list_all (\<lambda>(k, v). valid_utf8 k \<and> texts_ok v) kvs \<Longrightarrow>
     parseMembers (render_fields kvs @ CHR ''}'' # r) = Some (map (\<lambda>(k, v). (k, jval_of v)) kvs, r)"
proof (induction j and kvs arbitrary: r and r rule: render_render_fields.induct)
  case (1 s)
  then show ?case by (simp add: parse_string)
next
  case (2 i)
  then show ?case by (simp add: parse_int del: render.simps)
next
  case (3 b)
  then show ?case by (subst parseValue.simps) (simp add: skip_id json_space_def after_def)
next
  case (4 kvs)
  show ?case
  proof (cases "kvs = []")
    case True
    then show ?thesis by (subst parseValue.simps) (simp add: skip_id json_space_def)
  next
    case False
    then obtain cs where "render_fields kvs = CHR 0x22 # cs" using render_fields_head by blast
    then show ?thesis using 4 False
      by (subst parseValue.simps) (simp add: skip_id json_space_def)
  qed
next
  case 5
  then show ?case by simp
next
  case (6 k v)
  have "ends_number (CHR ''}'' # r)" by (simp add: ends_number_def is_digit_def)
  then show ?case using 6 parse_members_last [of k "render v" r] render_nonempty [of v] by simp
next
  case (7 k v kv kvs)
  let ?u = "render_fields (kv # kvs) @ CHR ''}'' # r"
  have e: "ends_number (CHR '','' # ?u)" by (simp add: ends_number_def is_digit_def)
  obtain cs where "render_fields (kv # kvs) = CHR 0x22 # cs" using render_fields_head [of "kv # kvs"] by blast
  then have "skip ?u = ?u" by (simp add: skip_id json_space_def)
  then show ?case using 7 e parse_members_more [of k "render v" ?u _ _ r] render_nonempty [of v] by simp
qed

lemma readText_render:
  assumes "texts_ok j" "depth (jval_of j) \<le> maxNestingDepth"
  shows "readText (render j) = Some (jval_of j)"
proof -
  have "ends_number []" by (simp add: ends_number_def)
  from parse_render(1) [OF assms(1) this] assms(2) show ?thesis by (simp add: readText_def skip_def)
qed

text \<open>An amount, as its JSON object is read back.\<close>

lemma readMoney_json:
  assumes "money_json m = Inr j"
  shows "readMoney (jval_of j) = FromDecimalString (DecimalString m) (currency m)"
proof -
  have "j = JObject [(''amount'', JString (DecimalString m)), (''currency'', JString (currency m))]"
    using assms by (auto simp: money_json_def MarshalJSON_def bindE_def split: if_splits)
  then show ?thesis
    by (simp add: readMoney_def fillStruct_def storeStruct_def fieldOf_def storeMoneyJSON_def storeString_def
        UnmarshalJSON_def bindE_def)
qed

lemma iso_utf8: "list_all valid_utf8 iso4217Currencies"
  by code_simp

lemma DecimalString_utf8: "valid_utf8 (DecimalString m)"
proof (rule ascii_utf8)
  show "list_all (\<lambda>c. of_char c < (128 :: nat)) (DecimalString m)"
    using decimal_form_plain [OF DecimalString_form [of m]] by (auto simp: list_all_iff plain_char_def is_digit_def)
qed

lemma money_json_ok:
  assumes "money_ok m"
  obtains j where "money_json m = Inr j" "texts_ok j" "depth (jval_of j) = 1"
proof -
  have c: "valid_utf8 (currency m)" using assms iso_utf8 by (auto simp: money_ok_def list_all_iff)
  have "list_all valid_utf8 [''amount'', ''currency'']" by code_simp
  then have "valid_utf8 ''amount''" "valid_utf8 ''currency''" by simp_all
  moreover have "money_json m = Inr (JObject [(''amount'', JString (DecimalString m)), (''currency'', JString (currency m))])"
    using money_ok_nonempty [OF assms] by (simp add: money_json_def MarshalJSON_def)
  ultimately show ?thesis using that c DecimalString_utf8 [of m] by simp
qed

end
