(* ===== verification/Consumer.thy ===== *)
theory Consumer
  imports Append_Only Json_Decode Replay
begin

text \<open>
  \<open>internal/infra/sqs/consumer.go\<close>: the loop that receives commands from the queue and applies
  each once, an inbox row and the command in one transaction. The SQS client is a call to the
  queue of the world; log lines, the histogram of processing times and the sleep after a failed
  receive are left out.
\<close>

definition consumerName :: string where
  "consumerName = ''wager-transactions''"

section \<open>The envelope\<close>

text \<open>\<open>Data\<close> has the fields of \<open>ProcessWagerTransactionInput\<close>, which \<open>handle\<close> copies one by one.\<close>

record consumerEnvelope =
  ce_MessageID :: string
  ce_Type :: string
  ce_Data :: ProcessInput

definition noInput :: ProcessInput where
  "noInput = \<lparr>in_ProviderID = [], in_ExternalTransactionID = [], in_IdempotencyKey = [], in_PlayerID = [],
     in_WalletID = [], in_RoundID = [], in_GameID = [], in_Kind = [],
     in_Money = \<lparr>minorUnits = 0, currency = []\<rparr>, in_ReferenceExternalTransactionID = []\<rparr>"

definition inputNames :: "string list" where
  "inputNames = [''providerId'', ''externalTransactionId'', ''idempotencyKey'', ''playerId'', ''walletId'',
     ''roundId'', ''gameId'', ''kind'', ''money'', ''referenceExternalTransactionId'']"

definition storeInput :: "ProcessInput store" where
  "storeInput f v s =
     (if f = ''providerId'' then storeString in_ProviderID_update v s
      else if f = ''externalTransactionId'' then storeString in_ExternalTransactionID_update v s
      else if f = ''idempotencyKey'' then storeString in_IdempotencyKey_update v s
      else if f = ''playerId'' then storeString in_PlayerID_update v s
      else if f = ''walletId'' then storeString in_WalletID_update v s
      else if f = ''roundId'' then storeString in_RoundID_update v s
      else if f = ''gameId'' then storeString in_GameID_update v s
      else if f = ''kind'' then storeString in_Kind_update v s
      else if f = ''money'' then storeMoney in_Money_update v s
      else storeString in_ReferenceExternalTransactionID_update v s)"

definition storeEnvelope :: "consumerEnvelope store" where
  "storeEnvelope f v s =
     (if f = ''messageId'' then storeString ce_MessageID_update v s
      else if f = ''type'' then storeString ce_Type_update v s
      else bindE (storeStruct inputNames storeInput v (ce_Data s)) (\<lambda>(d, bad). Inr (s\<lparr>ce_Data := d\<rparr>, bad)))"

definition decodeEnvelope :: "(string \<Rightarrow> string) \<Rightarrow> string option \<Rightarrow> (consumerEnvelope \<times> string) result" where
  "decodeEnvelope sha256 body =
     (case body of
        None \<Rightarrow> Inl (InfraErr InfraBadData)
      | Some b \<Rightarrow>
          bindE (fillStruct [''messageId'', ''type'', ''data''] storeEnvelope
            \<lparr>ce_MessageID = [], ce_Type = [], ce_Data = noInput\<rparr> (readText b)) (\<lambda>e.
          if ce_Type e \<noteq> ''WagerTransactionRequested'' \<or> ce_MessageID e = [] then Inl (InfraErr InfraBadData)
          else Inr (e, hexEncode (sha256 b))))"

section \<open>One message\<close>

text \<open>
  The function given to the unit of work. Its flag \<open>duplicate\<close> serves only to count, and no
  rollback undoes a count, so it is counted where it is set.
\<close>

definition handle_tx :: "UseCase \<Rightarrow> bool \<Rightarrow> string \<Rightarrow> string \<Rightarrow> ProcessInput \<Rightarrow> unit io" where
  "handle_tx uc withMetrics i hash inp =
     bindM (attempting (InboxCreate consumerName i hash)) (\<lambda>r. case r of
       Inl err \<Rightarrow>
         if err = PortsErr Ports_ErrAlreadyExists
         then (if withMetrics then count (\<lambda>m. m\<lparr>InboxDuplicatesTotal := InboxDuplicatesTotal m + 1\<rparr>) else ret ())
         else throw err
     | Inr _ \<Rightarrow>
         bindM (ExecuteWithin uc inp) (\<lambda>_. InboxMarkCompleted consumerName i))"

definition message_id :: "consumerEnvelope \<Rightarrow> string option \<Rightarrow> string" where
  "message_id e sqsID = (case sqsID of
     Some i \<Rightarrow> if ce_MessageID e = [] then i else ce_MessageID e
   | None \<Rightarrow> ce_MessageID e)"

definition handle :: "UseCase \<Rightarrow> bool \<Rightarrow> string option \<Rightarrow> string option \<Rightarrow> unit io" where
  "handle uc withMetrics body sqsID =
     bindM (lift (decodeEnvelope (uc_sha256 uc) body)) (\<lambda>(e, hash).
     bindM (attempting (UowExecute (handle_tx uc withMetrics (message_id e sqsID) hash (ce_Data e)))) (\<lambda>r.
     bindM (case r of
         Inl _ \<Rightarrow> if withMetrics
           then count (\<lambda>m. m\<lparr>MessageDeliveryFailuresTotal := MessageDeliveryFailuresTotal m + 1\<rparr>) else ret ()
       | Inr _ \<Rightarrow> ret ()) (\<lambda>_. lift r)))"

section \<open>The loop\<close>

definition ReceiveMessage :: "inMessage list io" where
  "ReceiveMessage = (\<lambda>e w.
     (case inbound e (calls w) of Inl x \<Rightarrow> Inl (InfraErr x) | Inr ms \<Rightarrow> Inr ms, w\<lparr>calls := Suc (calls w)\<rparr>))"

definition DeleteMessage :: "string \<Rightarrow> unit io" where
  "DeleteMessage receipt = queue_call (\<lambda>q. q\<lparr>deleted := deleted q @ [receipt]\<rparr>)"

definition ChangeVisibility :: "string \<Rightarrow> unit io" where
  "ChangeVisibility receipt = queue_call (\<lambda>q. q\<lparr>released := released q @ [receipt]\<rparr>)"

primrec releaseVisibility :: "inMessage list \<Rightarrow> unit io" where
  "releaseVisibility [] = ret ()"
| "releaseVisibility (m # ms) =
     bindM (attempting (ChangeVisibility (im_Receipt m))) (\<lambda>_. releaseVisibility ms)"

primrec consumeBatch :: "UseCase \<Rightarrow> bool \<Rightarrow> inMessage list \<Rightarrow> unit io" where
  "consumeBatch uc withMetrics [] = ret ()"
| "consumeBatch uc withMetrics (m # ms) =
     bindM ctxDone (\<lambda>stop. if stop then releaseVisibility (m # ms)
       else bindM (attempting (handle uc withMetrics (im_Body m) (im_MessageId m))) (\<lambda>r. case r of
           Inl err \<Rightarrow>
             bindM (if err = InfraErr InfraContextCanceled then releaseVisibility [m] else ret ()) (\<lambda>_.
             consumeBatch uc withMetrics ms)
         | Inr _ \<Rightarrow>
             bindM (attempting (DeleteMessage (im_Receipt m))) (\<lambda>_. consumeBatch uc withMetrics ms)))"

text \<open>\<open>run\<close> for at most \<open>n\<close> turns of its loop.\<close>

primrec consumerRun :: "nat \<Rightarrow> UseCase \<Rightarrow> bool \<Rightarrow> unit io" where
  "consumerRun 0 uc withMetrics = ret ()"
| "consumerRun (Suc n) uc withMetrics =
     bindM ctxDone (\<lambda>stop. if stop then ret ()
       else bindM (attempting ReceiveMessage) (\<lambda>r. case r of
           Inl _ \<Rightarrow> consumerRun n uc withMetrics
         | Inr ms \<Rightarrow> bindM (consumeBatch uc withMetrics ms) (\<lambda>_. consumerRun n uc withMetrics)))"

section \<open>The books\<close>

text \<open>\<open>ExecuteWithin\<close> runs the attempt of \<open>Execute\<close> in a transaction of its caller.\<close>

lemma triple_count_inside: "triple e (inside g p) (count f) (\<lambda>_. inside g p) R"
  by (simp add: triple_def count_def inside_def committed_ok_def)

lemma triple_ExecuteWithin:
  assumes rely: "rely e"
  shows "triple e (inside g (settled g)) (ExecuteWithin uc inp) (\<lambda>_. inside g (settled g)) (\<lambda>_. failed g)"
proof (cases "supportedKind (Kind_of (in_Kind inp))")
  case True
  obtain h where h: "inputHash uc inp = Inr h" using inputHash_Inr by blast
  have c: "triple e (inside g (settled g)) (recordOutcome uc k out) (\<lambda>_. inside g (settled g)) (\<lambda>_. failed g)" for k out
    unfolding recordOutcome_def countIf_def by (auto intro: triple_if triple_count_inside triple_ret)
  have "triple e (inside g (settled g)) (bindM (lift (Inr h)) (\<lambda>hash.
      bindM (attempt inp (Kind_of (in_Kind inp)) hash) (\<lambda>out. bindM (recordOutcome uc (Kind_of (in_Kind inp)) out) (\<lambda>_. ret out))))
      (\<lambda>_. inside g (settled g)) (\<lambda>_. failed g)"
    by (rule triple_bind [where Q' = "\<lambda>_. inside g (settled g)"], simp add: triple_def,
        rule triple_bind [OF triple_attempt [OF rely]], rule triple_bind [OF c], rule triple_ret)
  then show ?thesis using True h by (simp add: ExecuteWithin_def Let_def)
next
  case False
  then show ?thesis by (auto simp: ExecuteWithin_def Let_def intro: triple_throw inside_failed)
qed

text \<open>
  An insert into the inbox that finds the message there is an answer, not a failure of the
  transaction, so the handler may go on and commit.
\<close>

lemma InboxCreate_cases:
  "\<exists>now. let w1 = interfere e w; row = \<lparr>ir_consumer = c, ir_message = m, ir_hash = h, ir_received = now, ir_completed = None\<rparr> in
     InboxCreate c m h e w \<in> {(Inr (), put_view ((view w1)\<lparr>inbox := inbox (view w1) @ [row]\<rparr>) w1)} \<and> (c, m) \<notin> inbox_keys (view w1) \<or>
     InboxCreate c m h e w = (Inl (PortsErr Ports_ErrAlreadyExists), w1) \<and> (c, m) \<in> inbox_keys (view w1) \<or>
     (\<exists>x. InboxCreate c m h e w = (Inl (InfraErr x), w1)) \<or>
     (\<exists>x. InboxCreate c m h e w = (Inl (InfraErr x), put_view ((view w1)\<lparr>inbox := inbox (view w1) @ [row]\<rparr>) w1)) \<and>
       (c, m) \<notin> inbox_keys (view w1)"
proof -
  let ?w1 = "interfere e w" and ?row = "\<lambda>now. \<lparr>ir_consumer = c, ir_message = m, ir_hash = h, ir_received = now, ir_completed = None\<rparr>"
  have same: "put_view (view ?w1) ?w1 = ?w1" by (cases "session ?w1") (simp_all add: put_view_def view_def)
  have clash: "list_ex (inbox_clash (?row now)) (inbox (view ?w1)) \<longleftrightarrow> (c, m) \<in> inbox_keys (view ?w1)" for now
    by (auto simp: list_ex_iff inbox_clash_def inbox_keys_def)
  show ?thesis
    by (rule exI [of _ "sql_now e w"])
      (auto simp: InboxCreate_def bindM_apply stmt_def Let_def insert_inbox_def insert_row_def clash same split: fault.split)
qed

lemma triple_InboxCreate:
  assumes rely: "rely e" "stable e p" "money_pred p"
  shows "triple e (inside g p) (InboxCreate c m h) (\<lambda>_. inside g p)
    (\<lambda>x. if x = PortsErr Ports_ErrAlreadyExists then inside g p else failed g)"
  unfolding triple_def
proof (intro allI impI)
  fix w assume w: "inside g p w"
  have n: "case InboxCreate c m h e w of (Inr a, w') \<Rightarrow> inside g p w' | (Inl x, w') \<Rightarrow> failed g w'"
    using inboxCreate.neutral [OF assms] w by (simp add: triple_def)
  have "inside g p (interfere e w)" by (rule interfere_inside [OF rely(1,2) w])
  then show "case InboxCreate c m h e w of (Inr a, w') \<Rightarrow> inside g p w'
      | (Inl x, w') \<Rightarrow> (if x = PortsErr Ports_ErrAlreadyExists then inside g p else failed g) w'"
    using n InboxCreate_cases [of e w c m h] by (auto simp: Let_def)
qed

interpretation handleTx: book_keeper "UowExecute (handle_tx uc b i h inp)" for uc b i h inp
proof
  fix e g assume rely: "rely e"
  let ?s = "inside g (settled g)"
  have count: "triple e ?s (if b then count f else ret ()) (\<lambda>_. ?s) (\<lambda>_. failed g)" for f
    by (auto intro: triple_if triple_count_inside triple_ret)
  have mark: "triple e ?s (InboxMarkCompleted consumerName i) (\<lambda>_. ?s) (\<lambda>_. failed g)"
    using rely by (intro inboxMark.neutral) auto
  have "triple e ?s (handle_tx uc b i h inp) (\<lambda>_. ?s) (\<lambda>_. failed g)"
    unfolding handle_tx_def
  proof (rule triple_bind)
    show "triple e ?s (attempting (InboxCreate consumerName i h))
        (\<lambda>r. case r of Inr _ \<Rightarrow> ?s | Inl x \<Rightarrow> if x = PortsErr Ports_ErrAlreadyExists then ?s else failed g) (\<lambda>_. failed g)"
      using rely by (intro triple_attempting) (simp, intro triple_InboxCreate, auto)
    show "triple e (case r of Inr _ \<Rightarrow> ?s | Inl x \<Rightarrow> if x = PortsErr Ports_ErrAlreadyExists then ?s else failed g)
        (case r of Inl err \<Rightarrow> if err = PortsErr Ports_ErrAlreadyExists
             then (if b then count (\<lambda>m. m\<lparr>InboxDuplicatesTotal := InboxDuplicatesTotal m + 1\<rparr>) else ret ()) else throw err
           | Inr _ \<Rightarrow> bindM (ExecuteWithin uc inp) (\<lambda>_. InboxMarkCompleted consumerName i)) (\<lambda>_. ?s) (\<lambda>_. failed g)" for r
      using count triple_bind [OF triple_ExecuteWithin [OF rely, of g uc inp] mark]
      by (cases r) (auto intro: triple_throw)
  qed
  then show "triple e (outside g) (UowExecute (handle_tx uc b i h inp)) (\<lambda>_. outside g) (\<lambda>_. outside g)"
    unfolding UowExecute_def by (rule triple_WithinTx [OF rely])
qed

lemma keeper_handle [keeper_intros]: "book_keeper (handle uc b body sqsID)"
  unfolding handle_def split_beta by (intro keeper_intros handleTx.book_keeper_axioms)

lemma keeper_release [keeper_intros]: "book_keeper (releaseVisibility ms)"
  by (induction ms) (simp_all only: releaseVisibility.simps ChangeVisibility_def, (intro keeper_intros | assumption)+)

lemma keeper_consumeBatch [keeper_intros]: "book_keeper (consumeBatch uc b ms)"
  by (induction ms) (simp_all only: consumeBatch.simps DeleteMessage_def, (intro keeper_intros | assumption)+)

lemma keeper_Receive [keeper_intros]: "book_keeper ReceiveMessage"
  by (auto simp: book_keeper_def triple_def ReceiveMessage_def outside_def committed_ok_def split: sum.split)

lemma keeper_consumerRun: "book_keeper (consumerRun n uc b)"
  by (induction n) (simp_all only: consumerRun.simps, (intro keeper_intros | assumption)+)

section \<open>A message has its effect once\<close>

lemma decode_id: "decodeEnvelope sha body = Inr (e, h) \<Longrightarrow> message_id e sqsID = ce_MessageID e"
  by (auto simp: decodeEnvelope_def message_id_def bindE_Inr_iff split: option.splits if_splits)

text \<open>The inbox has the messages \<open>K\<close>, and this one.\<close>

abbreviation has :: "(string \<times> string) set \<Rightarrow> db \<Rightarrow> bool" where
  "has K \<equiv> \<lambda>d. K \<subseteq> inbox_keys d"

abbreviation logged :: "(string \<times> string) set \<Rightarrow> string \<Rightarrow> db \<Rightarrow> bool" where
  "logged K i \<equiv> has (insert (consumerName, i) K)"

lemma logged_InboxCreate:
  assumes q: "others_keep2 e q" and r: "others_keep e (logged K i)" "others_keep e (has K)"
  shows "triple e (holding q (has K)) (attempting (InboxCreate consumerName i h))
    (\<lambda>r. case r of Inr _ \<Rightarrow> holding q (logged K i)
       | Inl x \<Rightarrow> if x = PortsErr Ports_ErrAlreadyExists then holding q (logged K i) else holding q (has K)) (\<lambda>_ _. False)"
  unfolding triple_def
proof (intro allI impI)
  fix w assume w: "holding q (has K) w"
  have "holding q (has K) (interfere e w)"
    by (rule interfere_holding [OF r(2) q w])
  then show "case attempting (InboxCreate consumerName i h) e w of
      (Inr r, w') \<Rightarrow> (case r of Inr _ \<Rightarrow> holding q (logged K i)
        | Inl x \<Rightarrow> if x = PortsErr Ports_ErrAlreadyExists then holding q (logged K i) else holding q (has K)) w'
    | (Inl x, w') \<Rightarrow> False"
    using InboxCreate_cases [of e w consumerName i h]
    by (auto simp: Let_def attempting_apply holding_def view_def put_view_def inbox_keys_simps del: subsetI) blast+
qed

lemma logged_handle_tx:
  assumes q: "others_keep2 e q" and r: "others_keep e (logged K i)" "others_keep e (has K)"
  shows "triple e (holding q (has K)) (handle_tx uc b i h inp) (\<lambda>_. holding q (logged K i)) (\<lambda>_. holding q (has K))"
  unfolding handle_tx_def
proof (rule triple_bind)
  show "triple e (holding q (has K)) (attempting (InboxCreate consumerName i h))
    (\<lambda>r. case r of Inr _ \<Rightarrow> holding q (logged K i)
       | Inl x \<Rightarrow> if x = PortsErr Ports_ErrAlreadyExists then holding q (logged K i) else holding q (has K))
    (\<lambda>_. holding q (has K))"
    by (rule triple_weaken [OF logged_InboxCreate [OF q r]]) auto
  have weak: "holding q (logged K i) w \<Longrightarrow> holding q (has K) w" for w by (auto simp: holding_def)
  have k: "triple e (holding q (logged K i)) m (\<lambda>_. holding q (logged K i)) (\<lambda>_. holding q (has K))"
    if "keeps (logged K i) m" for m :: "unit io"
    by (rule triple_weaken [OF keepsD [OF that r(1) q]]) (auto intro: weak)
  have ex: "keeps (logged K i) (bindM (ExecuteWithin uc inp) (\<lambda>_. InboxMarkCompleted consumerName i))"
    by (intro keeps_intros inboxKeys.ExecuteWithin_keeps inboxKeys.repositories)
  have cn: "keeps (logged K i) (if b then count f else ret ())" for f by (intro keeps_intros)
  show "triple e (case x of Inr _ \<Rightarrow> holding q (logged K i)
      | Inl x \<Rightarrow> if x = PortsErr Ports_ErrAlreadyExists then holding q (logged K i) else holding q (has K))
    (case x of Inl err \<Rightarrow> if err = PortsErr Ports_ErrAlreadyExists
         then (if b then count (\<lambda>m. m\<lparr>InboxDuplicatesTotal := InboxDuplicatesTotal m + 1\<rparr>) else ret ()) else throw err
       | Inr _ \<Rightarrow> bindM (ExecuteWithin uc inp) (\<lambda>_. InboxMarkCompleted consumerName i))
    (\<lambda>_. holding q (logged K i)) (\<lambda>_. holding q (has K))" for x
    using k [OF ex] k [OF cn] by (cases x) (auto intro: triple_throw)
qed

text \<open>The transaction of a message: if it commits, the message is logged.\<close>

lemma logged_uow:
  assumes q: "others_keep2 e q" and r: "others_keep e (logged K i)" "others_keep e (has K)"
    and rq: "\<And>c d m. logged K i d \<Longrightarrow> q c m \<Longrightarrow> q d m" and pq: "\<And>d m. q d m \<Longrightarrow> has K d"
  shows "triple e (resting q) (UowExecute (handle_tx uc b i h inp)) (\<lambda>_. resting (\<lambda>d m. logged K i d \<and> q d m)) (\<lambda>_. resting q)"
  unfolding UowExecute_def
  by (rule uow_leaves [OF r(2,1) q rq pq logged_handle_tx [OF q r]])

text \<open>When the message is logged already the transaction changes nothing.\<close>

lemma logged_noop:
  assumes e: "\<And>n d. interf e n d = d" and c: "logged K i c"
  shows "triple e (resting (\<lambda>d m. d = c)) (UowExecute (handle_tx uc b i h inp)) (\<lambda>_. resting (\<lambda>d m. d = c)) (\<lambda>_. resting (\<lambda>d m. d = c))"
proof -
  let ?q = "\<lambda>d m :: queue. d = c" and ?p = "\<lambda>d. d = c"
  have o: "others_keep e p" "others_keep2 e q" for p q by (simp_all add: others_keep_def others_keep2_def e)
  have "triple e (holding ?q ?p) (handle_tx uc b i h inp) (\<lambda>_. holding ?q ?p) (\<lambda>_. holding ?q ?p)"
    unfolding handle_tx_def
  proof (rule triple_bind)
    show "triple e (holding ?q ?p) (attempting (InboxCreate consumerName i h))
        (\<lambda>r. if (\<exists>u. r = Inr u) then (\<lambda>_. False) else holding ?q ?p) (\<lambda>_. holding ?q ?p)"
      unfolding triple_def
    proof (intro allI impI)
      fix w assume "holding ?q ?p w"
      from interfere_holding [OF o this] have w1: "holding ?q ?p (interfere e w)" .
      then have "(consumerName, i) \<in> inbox_keys (view (interfere e w))" using c by (auto simp: holding_def view_def)
      then show "case attempting (InboxCreate consumerName i h) e w of
          (Inr r, w') \<Rightarrow> (if (\<exists>u. r = Inr u) then (\<lambda>_. False) else holding ?q ?p) w' | (Inl x, w') \<Rightarrow> holding ?q ?p w'"
        using InboxCreate_cases [of e w consumerName i h] w1 by (auto simp: Let_def attempting_apply)
    qed
    have cn: "triple e (holding ?q ?p) (if b then count f else ret ()) (\<lambda>_. holding ?q ?p) (\<lambda>_. holding ?q ?p)" for f
      by (rule keepsD [OF _ o]) (intro keeps_intros)
    show "triple e (if \<exists>u. x = Inr u then (\<lambda>_. False) else holding ?q ?p)
      (case x of Inl err \<Rightarrow> if err = PortsErr Ports_ErrAlreadyExists
           then (if b then count (\<lambda>m. m\<lparr>InboxDuplicatesTotal := InboxDuplicatesTotal m + 1\<rparr>) else ret ()) else throw err
         | Inr _ \<Rightarrow> bindM (ExecuteWithin uc inp) (\<lambda>_. InboxMarkCompleted consumerName i))
      (\<lambda>_. holding ?q ?p) (\<lambda>_. holding ?q ?p)" for x
      using cn by (cases x) (auto intro: triple_throw simp: triple_def [of e "\<lambda>_. False"])
  qed
  from uow_leaves [OF o(1) o(1) o(2) _ _ this]
  show ?thesis unfolding UowExecute_def by (rule triple_weaken) (auto simp: resting_def)
qed

lemma handle_undecoded:
  "decodeEnvelope (uc_sha256 uc) body = Inl x \<Longrightarrow> handle uc b body sqsID e w = (Inl x, w)"
  by (simp add: handle_def bindM_apply)

lemma handle_decoded:
  assumes "decodeEnvelope (uc_sha256 uc) body = Inr (env, h)"
    and "UowExecute (handle_tx uc b (ce_MessageID env) h (ce_Data env)) e w = (r, w1)"
  shows "\<exists>w2. handle uc b body sqsID e w = (r, w2) \<and> committed w2 = committed w1 \<and> mail w2 = mail w1 \<and>
    session w2 = session w1 \<and> snapshot w2 = snapshot w1"
  using assms by (cases r) (simp_all add: handle_def bindM_apply attempting_apply decode_id count_def)

text \<open>C17: A message takes effect at most once. If its handling succeeds, or fails but has changed the
  database all the same (the answer of its commit was lost), then handling a message with the same
  body again, at any later time at which the inbox still has its rows, changes nothing, whatever
  statements fail meanwhile.\<close>

theorem Message_applied_once:
  assumes "\<forall>n d. interf e n d = d" "session w = None" "\<not> snapshot w"
    and "handle uc b body sqsID e w = (r1, w1)" "r1 = Inr () \<or> committed w1 \<noteq> committed w"
    and "session w' = None" "\<not> snapshot w'" "inbox_keys (committed w1) \<subseteq> inbox_keys (committed w')"
    and "handle uc b' body sqsID' e w' = (r2, w2)"
  shows "committed w2 = committed w'"
proof (cases "decodeEnvelope (uc_sha256 uc) body")
  case (Inl x)
  then show ?thesis using assms(9) by (simp add: handle_undecoded)
next
  case (Inr eh)
  obtain env h where d: "decodeEnvelope (uc_sha256 uc) body = Inr (env, h)" using Inr by (cases eh) simp
  let ?i = "ce_MessageID env" and ?q = "\<lambda>d m :: queue. d = committed w \<or> logged {} (ce_MessageID env) d"
  have o: "others_keep2 e q" "others_keep e p" for p q using assms(1) by (simp_all add: others_keep_def others_keep2_def)
  obtain r u where u: "UowExecute (handle_tx uc b ?i h (ce_Data env)) e w = (r, u)" by fastforce
  with handle_decoded [OF d u, of sqsID] assms(4) have r: "r = r1" "committed u = committed w1" by auto
  have "resting ?q w" using assms(2,3) by (simp add: resting_def)
  then have "case (r, u) of (Inr a, w') \<Rightarrow> resting (\<lambda>d m. logged {} ?i d \<and> ?q d m) w' | (Inl x, w') \<Rightarrow> resting ?q w'"
    using tripleD [OF logged_uow [where q = ?q and K = "{}" and i = ?i and uc = uc and b = b and h = h
        and inp = "ce_Data env" and e = e], of w] o u by auto
  then have "logged {} ?i (committed w1)" using assms(5) r by (cases r1) (auto simp: resting_def)
  then have l: "logged {} ?i (committed w')" using assms(8) by blast
  obtain r' u' where u': "UowExecute (handle_tx uc b' ?i h (ce_Data env)) e w' = (r', u')" by fastforce
  have "resting (\<lambda>d m. d = committed w') w'" using assms(6,7) by (simp add: resting_def)
  then have "committed u' = committed w'"
    using tripleD [OF logged_noop [OF _ l, where e = e and uc = uc and b = b' and h = h and inp = "ce_Data env"], of w'] assms(1) u'
    by (cases r') (auto simp: resting_def)
  then show ?thesis using handle_decoded [OF d u', of sqsID'] assms(9) by auto
qed

section \<open>No message is lost\<close>

text \<open>\<open>K\<close> has the messages of all receipts deleted since those of \<open>D\<close>.\<close>

definition accounted :: "UseCase \<Rightarrow> env \<Rightarrow> string set \<Rightarrow> (string \<times> string) set \<Rightarrow> queue \<Rightarrow> bool" where
  "accounted uc e D K q \<longleftrightarrow> (\<forall>rc\<in>set (deleted q). rc \<in> D \<or>
     (\<exists>k ms m env h. inbound e k = Inr ms \<and> m \<in> set ms \<and> im_Receipt m = rc \<and>
        decodeEnvelope (uc_sha256 uc) (im_Body m) = Inr (env, h) \<and> (consumerName, ce_MessageID env) \<in> K))"

lemma accounted_more: "accounted uc e D K q \<Longrightarrow> K \<subseteq> K' \<Longrightarrow> accounted uc e D K' q"
  unfolding accounted_def by blast

definition safe :: "UseCase \<Rightarrow> env \<Rightarrow> string set \<Rightarrow> world \<Rightarrow> bool" where
  "safe uc e D w \<longleftrightarrow> (\<exists>K. accounted uc e D K (mail w) \<and> at_rest (has K) w)"

definition inbox_kept :: "env \<Rightarrow> bool" where
  "inbox_kept e \<longleftrightarrow> (\<forall>n d. inbox_keys d \<subseteq> inbox_keys (interf e n d))"

lemma inbox_kept_has: "inbox_kept e \<Longrightarrow> others_keep e (has K)"
  unfolding inbox_kept_def others_keep_def by blast

lemma safe_handle:
  assumes e: "inbox_kept e" and K: "accounted uc e D K (mail w)" "at_rest (has K) w"
    and h: "handle uc b body sqsID e w = (r, w')"
  shows "mail w' = mail w \<and> at_rest (has K) w' \<and>
    (r = Inr () \<longrightarrow> (\<exists>env hs. decodeEnvelope (uc_sha256 uc) body = Inr (env, hs) \<and> at_rest (logged K (ce_MessageID env)) w'))"
proof (cases "decodeEnvelope (uc_sha256 uc) body")
  case (Inl x)
  then show ?thesis using h K(2) by (auto simp: handle_undecoded)
next
  case (Inr eh)
  obtain env hs where d: "decodeEnvelope (uc_sha256 uc) body = Inr (env, hs)" using Inr by (cases eh) simp
  let ?q = "\<lambda>d m. m = mail w \<and> has K d"
  have o: "others_keep2 e ?q" using inbox_kept_has [OF e] by (auto simp: others_keep2_def others_keep_def)
  obtain r' u where u: "UowExecute (handle_tx uc b (ce_MessageID env) hs (ce_Data env)) e w = (r', u)" by fastforce
  have "resting ?q w" using K(2) by (simp add: resting_def)
  then have "case (r', u) of (Inr a, w') \<Rightarrow> resting (\<lambda>d m. logged K (ce_MessageID env) d \<and> ?q d m) w' | (Inl x, w') \<Rightarrow> resting ?q w'"
    using tripleD [OF logged_uow [where K = K and i = "ce_MessageID env" and uc = uc and e = e
        and b = b and h = hs and inp = "ce_Data env" and q = ?q, OF o inbox_kept_has [OF e] inbox_kept_has [OF e]], of w] u by auto
  then show ?thesis using handle_decoded [OF d u, of sqsID] h d by (cases r') (auto simp: resting_def)
qed

lemma safe_keep:
  "safe uc e D w \<Longrightarrow> safe uc e D (snd (ctxDone e w))"
  "safe uc e D w \<Longrightarrow> safe uc e D (snd (ReceiveMessage e w))"
  "safe uc e D w \<Longrightarrow> safe uc e D (snd (releaseVisibility ms e w))"
proof -
  have v: "safe uc e D w \<Longrightarrow> safe uc e D (snd (ChangeVisibility rc e w))" for w rc
    by (auto simp: safe_def resting_def ChangeVisibility_def queue_call_def accounted_def split: fault.split)
  have r: "fst (releaseVisibility ms e w) = Inr ()" for ms and w :: world
    by (induction ms arbitrary: w) (simp_all add: bindM_apply attempting_apply split_beta)
  show "safe uc e D w \<Longrightarrow> safe uc e D (snd (releaseVisibility ms e w))"
    using v by (induction ms arbitrary: w) (simp_all add: bindM_apply attempting_apply split_beta)
qed (auto simp: safe_def resting_def ctxDone_def ReceiveMessage_def)

lemma releaseVisibility_ok: "fst (releaseVisibility ms e w) = Inr ()"
  by (induction ms arbitrary: w) (simp_all add: bindM_apply attempting_apply split_beta)

lemma safe_consumeBatch:
  assumes e: "inbox_kept e" and ms: "inbound e k = Inr ms'" "set ms \<subseteq> set ms'"
  shows "safe uc e D w \<Longrightarrow> fst (consumeBatch uc b ms e w) = Inr () \<and> safe uc e D (snd (consumeBatch uc b ms e w))"
  using ms(2)
proof (induction ms arbitrary: w)
  case (Cons m ms)
  let ?w1 = "snd (ctxDone e w)"
  obtain K where K: "accounted uc e D K (mail w)" "at_rest (has K) w" using Cons.prems(1) by (auto simp: safe_def)
  obtain r w2 where h: "handle uc b (im_Body m) (im_MessageId m) e w = (r, w2)" by fastforce
  note hd = safe_handle [OF e K h]
  show ?case
  proof (cases "cancelled e (ticks w)")
    case True
    then show ?thesis using safe_keep(3) [OF Cons.prems(1), of "m # ms"] releaseVisibility_ok [of "m # ms" e w]
      by (simp add: bindM_apply ctxDone_def del: releaseVisibility.simps)
  next
    case go: False
    show ?thesis
    proof (cases r)
      case (Inl x)
      have s2: "safe uc e D w2" using hd K by (auto simp: safe_def)
      let ?w3 = "if x = InfraErr InfraContextCanceled then snd (releaseVisibility [m] e w2) else w2"
      have "safe uc e D ?w3" using safe_keep(3) [OF s2, of "[m]"] s2 by (simp del: releaseVisibility.simps)
      then have "fst (consumeBatch uc b ms e ?w3) = Inr () \<and> safe uc e D (snd (consumeBatch uc b ms e ?w3))"
        using Cons by simp
      then show ?thesis using go h Inl releaseVisibility_ok [of "[m]" e w2]
        by (auto simp: bindM_apply ctxDone_def attempting_apply split_beta simp del: releaseVisibility.simps
            split: sum.split if_splits)
    next
      case (Inr v)
      obtain env hs where d: "decodeEnvelope (uc_sha256 uc) (im_Body m) = Inr (env, hs)" "at_rest (logged K (ce_MessageID env)) w2"
        using hd Inr by auto
      let ?K = "insert (consumerName, ce_MessageID env) K" and ?w3 = "snd (DeleteMessage (im_Receipt m) e w2)"
      have a: "accounted uc e D ?K (mail w2)" using accounted_more [OF K(1), of ?K] hd by auto
      have "accounted uc e D ?K (mail ?w3)"
        using a d(1) ms(1) Cons.prems(2)
        by (auto simp: DeleteMessage_def queue_call_def accounted_def split: fault.split) blast+
      moreover have "at_rest (has ?K) ?w3"
        using d(2) by (auto simp: DeleteMessage_def queue_call_def resting_def split: fault.split)
      ultimately have "safe uc e D ?w3" unfolding safe_def by blast
      then have "fst (consumeBatch uc b ms e ?w3) = Inr () \<and> safe uc e D (snd (consumeBatch uc b ms e ?w3))"
        using Cons by simp
      then show ?thesis using go h Inr by (simp add: bindM_apply ctxDone_def attempting_apply split_beta)
    qed
  qed
qed simp

lemma safe_consumerRun:
  assumes e: "inbox_kept e"
  shows "safe uc e D w \<Longrightarrow> fst (consumerRun n uc b e w) = Inr () \<and> safe uc e D (snd (consumerRun n uc b e w))"
proof (induction n arbitrary: w)
  case (Suc n)
  let ?w1 = "snd (ReceiveMessage e w)"
  have w1: "safe uc e D ?w1" by (rule safe_keep(2) [OF Suc.prems])
  show ?case
  proof (cases "cancelled e (ticks w)")
    case False
    show ?thesis
    proof (cases "inbound e (calls w)")
      case (Inl x)
      then show ?thesis using False Suc.IH [OF w1]
        by (simp add: bindM_apply ctxDone_def attempting_apply ReceiveMessage_def)
    next
      case (Inr ms)
      have c: "fst (consumeBatch uc b ms e ?w1) = Inr () \<and> safe uc e D (snd (consumeBatch uc b ms e ?w1))"
        using safe_consumeBatch [OF e Inr order.refl w1] .
      from Suc.IH [of "snd (consumeBatch uc b ms e ?w1)"] c Inr False show ?thesis
        by (cases "consumeBatch uc b ms e ?w1") (auto simp: bindM_apply ctxDone_def attempting_apply ReceiveMessage_def)
    qed
  qed (use Suc.prems in \<open>simp add: bindM_apply ctxDone_def\<close>)
qed simp

text \<open>C18: No message is lost: whatever fails and whatever other sessions commit, as long as they leave the
  inbox its rows, the consumer's loop never raises an error, and a receipt is deleted from the queue
  only for a message that was received and whose id is in the committed inbox, so whose command
  was committed with it.\<close>

theorem Consumer_loses_nothing:
  assumes "inbox_kept e" "session w = None" "\<not> snapshot w" "consumerRun n uc b e w = (r, w')"
  shows "r = Inr () \<and> (\<forall>rc\<in>set (deleted (mail w')). rc \<in> set (deleted (mail w)) \<or>
     (\<exists>k ms m env h. inbound e k = Inr ms \<and> m \<in> set ms \<and> im_Receipt m = rc \<and>
        decodeEnvelope (uc_sha256 uc) (im_Body m) = Inr (env, h) \<and>
        (consumerName, ce_MessageID env) \<in> inbox_keys (committed w')))"
proof -
  have "safe uc e (set (deleted (mail w))) w"
    unfolding safe_def by (intro exI [of _ "{}"]) (use assms(2,3) in \<open>simp add: accounted_def resting_def\<close>)
  from safe_consumerRun [OF assms(1) this, of n b] assms(4)
  have "r = Inr ()" "safe uc e (set (deleted (mail w))) w'" by simp_all
  then show ?thesis unfolding safe_def accounted_def resting_def by blast
qed

section \<open>A command as a client writes it\<close>

text \<open>\<open>json.Marshal\<close> of an envelope: the struct's tags name the members, none is left out.\<close>

definition command_json :: "consumerEnvelope \<Rightarrow> json result" where
  "command_json e =
     (let d = ce_Data e in
      bindE (money_json (in_Money d)) (\<lambda>j.
      Inr (JObject (str_field ''messageId'' (ce_MessageID e) @ str_field ''type'' (ce_Type e) @
        [(''data'', JObject (str_field ''providerId'' (in_ProviderID d) @
          str_field ''externalTransactionId'' (in_ExternalTransactionID d) @
          str_field ''idempotencyKey'' (in_IdempotencyKey d) @ str_field ''playerId'' (in_PlayerID d) @
          str_field ''walletId'' (in_WalletID d) @ str_field ''roundId'' (in_RoundID d) @
          str_field ''gameId'' (in_GameID d) @ str_field ''kind'' (in_Kind d) @ [(''money'', j)] @
          str_field ''referenceExternalTransactionId'' (in_ReferenceExternalTransactionID d)))]))))"

definition command_utf8 :: "consumerEnvelope \<Rightarrow> bool" where
  "command_utf8 e \<longleftrightarrow> list_all valid_utf8 [ce_MessageID e, ce_Type e, in_ProviderID (ce_Data e),
     in_ExternalTransactionID (ce_Data e), in_IdempotencyKey (ce_Data e), in_PlayerID (ce_Data e),
     in_WalletID (ce_Data e), in_RoundID (ce_Data e), in_GameID (ce_Data e), in_Kind (ce_Data e),
     in_ReferenceExternalTransactionID (ce_Data e)]"

lemma names_utf8:
  "list_all valid_utf8 ([''messageId'', ''type'', ''data'', ''amount'', ''currency''] @ inputNames)"
  by code_simp

lemma command_data:
  assumes "money_json (in_Money d) = Inr j" "FromDecimalString (DecimalString (in_Money d)) (currency (in_Money d)) = Inr (in_Money d)"
  shows "storeStruct inputNames storeInput (jval_of (JObject (str_field ''providerId'' (in_ProviderID d) @
          str_field ''externalTransactionId'' (in_ExternalTransactionID d) @
          str_field ''idempotencyKey'' (in_IdempotencyKey d) @ str_field ''playerId'' (in_PlayerID d) @
          str_field ''walletId'' (in_WalletID d) @ str_field ''roundId'' (in_RoundID d) @
          str_field ''gameId'' (in_GameID d) @ str_field ''kind'' (in_Kind d) @ [(''money'', j)] @
          str_field ''referenceExternalTransactionId'' (in_ReferenceExternalTransactionID d)))) noInput = Inr (d, False)"
  using readMoney_json [OF assms(1)] assms(2)
  by (cases d) (simp add: str_field_def storeStruct_def fieldOf_def inputNames_def storeInput_def storeString_def storeMoney_def
      noInput_def bindE_def)

text \<open>C23: A command a client marshals is the command the consumer decodes: for every envelope of the
  expected type with an id, UTF-8 strings and a well-formed amount that is not negative, the
  consumer recovers exactly the envelope from the text of its JSON, with the digest of that text.\<close>

theorem decodeEnvelope_roundtrip:
  assumes "command_utf8 e" "money_ok (in_Money (ce_Data e))" "0 \<le> amt (in_Money (ce_Data e))"
    and "ce_Type e = ''WagerTransactionRequested''" "ce_MessageID e \<noteq> []"
  shows "\<exists>j. command_json e = Inr j \<and> decodeEnvelope sha256 (Some (render j)) = Inr (e, hexEncode (sha256 (render j)))"
proof -
  let ?d = "ce_Data e"
  obtain j where j: "money_json (in_Money ?d) = Inr j" "texts_ok j" "depth (jval_of j) = 1"
    using money_json_ok [OF assms(2)] .
  have m: "FromDecimalString (DecimalString (in_Money ?d)) (currency (in_Money ?d)) = Inr (in_Money ?d)"
    using FromDecimalString_print [OF assms(2)] assms(3) by simp
  obtain c where c: "command_json e = Inr c" using j(1) by (simp add: command_json_def Let_def)
  then have c_def: "c = JObject (str_field ''messageId'' (ce_MessageID e) @ str_field ''type'' (ce_Type e) @
        [(''data'', JObject (str_field ''providerId'' (in_ProviderID ?d) @
          str_field ''externalTransactionId'' (in_ExternalTransactionID ?d) @
          str_field ''idempotencyKey'' (in_IdempotencyKey ?d) @ str_field ''playerId'' (in_PlayerID ?d) @
          str_field ''walletId'' (in_WalletID ?d) @ str_field ''roundId'' (in_RoundID ?d) @
          str_field ''gameId'' (in_GameID ?d) @ str_field ''kind'' (in_Kind ?d) @ [(''money'', j)] @
          str_field ''referenceExternalTransactionId'' (in_ReferenceExternalTransactionID ?d)))])"
    using j(1) by (simp add: command_json_def Let_def)
  have "texts_ok c" using assms(1) j(2) names_utf8 by (simp add: c_def str_field_def command_utf8_def inputNames_def)
  moreover have "depth (jval_of c) \<le> maxNestingDepth" using j(3) by (simp add: c_def str_field_def maxNestingDepth_def)
  ultimately have r: "readText (render c) = Some (jval_of c)" by (rule readText_render)
  have "fillStruct [''messageId'', ''type'', ''data''] storeEnvelope \<lparr>ce_MessageID = [], ce_Type = [], ce_Data = noInput\<rparr>
      (Some (jval_of c)) = Inr e"
    using command_data [OF j(1) m]
    by (cases e) (simp add: c_def str_field_def fillStruct_def storeStruct_def [of "[''messageId'', ''type'', ''data'']"]
        fieldOf_def storeEnvelope_def storeString_def)
  then show ?thesis using c r assms(4,5) by (simp add: decodeEnvelope_def)
qed

theorem decodeEnvelope_roundtrip_witness:
  "\<exists>j. command_json \<lparr>ce_MessageID = ''m1'', ce_Type = ''WagerTransactionRequested'', ce_Data = sample_bet ''k1'' 8000\<rparr> = Inr j \<and>
     decodeEnvelope (\<lambda>_. ''d'') (Some (render j)) =
       Inr (\<lparr>ce_MessageID = ''m1'', ce_Type = ''WagerTransactionRequested'', ce_Data = sample_bet ''k1'' 8000\<rparr>, ''64'')"
proof -
  let ?e = "\<lparr>ce_MessageID = ''m1'', ce_Type = ''WagerTransactionRequested'', ce_Data = sample_bet ''k1'' 8000\<rparr>"
  have "command_utf8 ?e" "hexEncode ''d'' = ''64''" by code_simp+
  then show ?thesis using decodeEnvelope_roundtrip [of ?e "\<lambda>_. ''d''"] by (simp add: sample_bet_def money_ok_def iso4217Currencies_def)
qed

section \<open>A command on the sample wallet\<close>

definition sample_command :: json where
  "sample_command = JObject [(''messageId'', JString ''m1''), (''type'', JString ''WagerTransactionRequested''),
     (''data'', JObject [(''providerId'', JString ''prov''), (''externalTransactionId'', JString ''k1''),
       (''idempotencyKey'', JString ''k1''), (''playerId'', JString ''p1''), (''walletId'', JString ''w1''),
       (''roundId'', JString ''r1''), (''gameId'', JString ''g1''), (''kind'', JString ''BET''),
       (''money'', JObject [(''amount'', JString ''80.00''), (''currency'', JString ''BRL'')])])]"

lemma sample_command_decoded:
  "decodeEnvelope sha (Some (render sample_command)) =
     Inr (\<lparr>ce_MessageID = ''m1'', ce_Type = ''WagerTransactionRequested'', ce_Data = sample_bet ''k1'' 8000\<rparr>,
       hexEncode (sha (render sample_command)))"
proof -
  have "texts_ok sample_command" by code_simp
  from parse_render(1) [OF this, of "[]"] have "parseValue (render sample_command) = Some (jval_of sample_command, [])"
    by (simp add: ends_number_def)
  moreover have "depth (jval_of sample_command) \<le> maxNestingDepth"
    by (simp add: sample_command_def maxNestingDepth_def)
  ultimately have r: "readText (render sample_command) = Some (jval_of sample_command)"
    by (simp add: readText_def skip_def)
  have f: "fillStruct [''messageId'', ''type'', ''data''] storeEnvelope
      \<lparr>ce_MessageID = [], ce_Type = [], ce_Data = noInput\<rparr> (Some (jval_of sample_command)) =
    Inr \<lparr>ce_MessageID = ''m1'', ce_Type = ''WagerTransactionRequested'', ce_Data = sample_bet ''k1'' 8000\<rparr>"
    by code_simp
  show ?thesis by (simp add: decodeEnvelope_def r f)
qed

lemma sample_within:
  "ExecuteWithin digest_uc (sample_bet ''k1'' 8000) =
     bindM (attempt (sample_bet ''k1'' 8000) KindBet ''61'') (\<lambda>out. bindM (recordOutcome digest_uc KindBet out) (\<lambda>_. ret out))"
  by (simp add: ExecuteWithin_def sample_hashes Let_def bindM_def [of "lift _"])
    (simp add: sample_bet_def Kind_of_def supportedKind_def)

text \<open>The queue delivers the command once.\<close>

definition command_message :: inMessage where
  "command_message = \<lparr>im_Body = Some (render sample_command), im_MessageId = None, im_Receipt = ''rc''\<rparr>"

definition command_env :: env where
  "command_env = sample_env\<lparr>inbound := \<lambda>k. Inr (if k = 0 then [command_message] else [])\<rparr>"

lemma command_env_simps: "interf command_env n d = d" "inbox_kept command_env"
  by (simp_all add: command_env_def sample_env_def inbox_kept_def)

lemma sample_handled:
  "fst (WithinTx (bindM (attempting (InboxCreate consumerName ''m1'' h)) (\<lambda>r. case r of
       Inl err \<Rightarrow> if err = PortsErr Ports_ErrAlreadyExists then ret () else throw err
     | Inr _ \<Rightarrow> bindM (bindM (attempt (sample_bet ''k1'' 8000) KindBet ''61'') (\<lambda>out. bindM (recordOutcome digest_uc KindBet out) (\<lambda>_. ret out)))
        (\<lambda>_. InboxMarkCompleted consumerName ''m1''))) (command_env\<lparr>inbound := ib\<rparr>) ((world_of sample_db)\<lparr>calls := n\<rparr>)) = Inr ()"
  by code_simp

lemma sample_handle:
  assumes "e = command_env"
  shows "fst (handle digest_uc False (Some (render sample_command)) None e ((world_of sample_db)\<lparr>calls := n\<rparr>)) = Inr ()"
proof -
  have e: "e = command_env\<lparr>inbound := inbound command_env\<rparr>" using assms by simp
  have "handle_tx digest_uc False ''m1'' h (sample_bet ''k1'' 8000) =
      bindM (attempting (InboxCreate consumerName ''m1'' h)) (\<lambda>r. case r of
       Inl err \<Rightarrow> if err = PortsErr Ports_ErrAlreadyExists then ret () else throw err
     | Inr _ \<Rightarrow> bindM (bindM (attempt (sample_bet ''k1'' 8000) KindBet ''61'') (\<lambda>out. bindM (recordOutcome digest_uc KindBet out) (\<lambda>_. ret out)))
        (\<lambda>_. InboxMarkCompleted consumerName ''m1''))" for h
    unfolding handle_tx_def sample_within by simp
  then have u: "fst (UowExecute (handle_tx digest_uc False ''m1'' h (sample_bet ''k1'' 8000)) e ((world_of sample_db)\<lparr>calls := n\<rparr>)) = Inr ()" for h
    using sample_handled [of h "inbound command_env" n] e unfolding UowExecute_def by simp
  then show ?thesis
    by (simp add: handle_def bindM_apply sample_command_decoded message_id_def attempting_apply split_beta)
qed

abbreviation first_delivery :: "unit result \<times> world" where
  "first_delivery \<equiv> handle digest_uc False (Some (render sample_command)) None command_env (world_of sample_db)"

lemma first_delivery: "first_delivery = (Inr (), snd first_delivery)" "session (snd first_delivery) = None"
  "\<not> snapshot (snd first_delivery)"
proof -
  have "(world_of sample_db)\<lparr>calls := 0\<rparr> = world_of sample_db" by (simp add: world_of_def)
  then show f: "first_delivery = (Inr (), snd first_delivery)" using sample_handle [OF refl, of 0] by (simp add: prod_eq_iff)
  have "accounted digest_uc command_env {} {} (mail (world_of sample_db))" "at_rest (has {}) (world_of sample_db)"
    by (simp_all add: accounted_def resting_def world_of_def)
  from safe_handle [OF command_env_simps(2) this f]
  show "session (snd first_delivery) = None" "\<not> snapshot (snd first_delivery)" by (simp_all add: resting_def)
qed

theorem Message_applied_once_witness:
  "committed (snd (handle digest_uc False (Some (render sample_command)) None command_env (snd first_delivery))) =
     committed (snd first_delivery)"
proof -
  let ?second = "handle digest_uc False (Some (render sample_command)) None command_env (snd first_delivery)"
  have "\<forall>n d. interf command_env n d = d" "session (world_of sample_db) = None" "\<not> snapshot (world_of sample_db)"
    by (simp_all add: command_env_simps world_of_def)
  from Message_applied_once [OF this first_delivery(1) _ first_delivery(2,3) order.refl prod.collapse [symmetric]]
  show ?thesis by simp
qed

theorem Consumer_loses_nothing_witness:
  "\<exists>w'. consumerRun 1 digest_uc False command_env (world_of sample_db) = (Inr (), w') \<and> deleted (mail w') = [''rc''] \<and>
     (consumerName, ''m1'') \<in> inbox_keys (committed w')"
proof -
  let ?run = "consumerRun 1 digest_uc False command_env (world_of sample_db)"
  let ?w1 = "(world_of sample_db)\<lparr>calls := 1\<rparr>"
  obtain w2 where h: "handle digest_uc False (Some (render sample_command)) None command_env ?w1 = (Inr (), w2)"
    using sample_handle [OF refl, of 1] by (metis prod.collapse)
  have "accounted digest_uc command_env {} {} (mail ?w1)" "at_rest (has {}) ?w1"
    by (simp_all add: accounted_def resting_def world_of_def)
  from safe_handle [OF command_env_simps(2) this h] have "mail w2 = mail ?w1" by simp
  moreover have "queue_fault command_env k = NoFault" "cancelled command_env k = False" for k
    by (simp_all add: command_env_def sample_env_def)
  moreover have "inbound command_env 0 = Inr [command_message]" by (simp add: command_env_def)
  moreover have "calls (world_of sample_db) = 0" "deleted (mail (world_of sample_db)) = []" by (simp_all add: world_of_def)
  ultimately obtain w' where w': "?run = (Inr (), w')" "deleted (mail w') = [''rc'']"
    using h by (simp add: bindM_apply ctxDone_def attempting_apply ReceiveMessage_def command_message_def DeleteMessage_def
        queue_call_def)
  have "session (world_of sample_db) = None" "\<not> snapshot (world_of sample_db)" by (simp_all add: world_of_def)
  from Consumer_loses_nothing [OF command_env_simps(2) this w'(1)] w'(2)
  obtain k ms m env hs where "inbound command_env k = Inr ms" "m \<in> set ms"
      "decodeEnvelope (uc_sha256 digest_uc) (im_Body m) = Inr (env, hs)" "(consumerName, ce_MessageID env) \<in> inbox_keys (committed w')"
    by (auto simp: world_of_def)
  moreover from this(1-3) have "ce_MessageID env = ''m1''"
    by (auto simp: command_env_def command_message_def sample_command_decoded split: if_splits)
  ultimately show ?thesis using w' by simp
qed

end
