(* ===== verification/Outbox_Repository.thy ===== *)
theory Outbox_Repository
  imports Event_Repositories
begin

text \<open>
  The publisher's side of \<open>internal/infra/postgres/outbox_repository.go\<close>: claiming a batch of
  unpublished events under a lock with a lifetime, and marking them. \<open>ORDER BY\<close> orders only the
  choice of the batch: the order in which \<open>UPDATE .. RETURNING\<close> hands the rows out, and the choice
  between equal \<open>occurred_at\<close>, are the database's.
\<close>

record OutboxRecord =
  ob_ID :: string
  ob_AggregateID :: string
  ob_EventType :: string
  ob_Payload :: json
  ob_CorrelationID :: string
  ob_CausationID :: string
  ob_OccurredAt :: Time
  ob_Version :: int64
  ob_Attempts :: int64

definition outbox_record :: "outbox_row \<Rightarrow> OutboxRecord" where
  "outbox_record r = \<lparr>ob_ID = or_id r, ob_AggregateID = or_aggregate r, ob_EventType = or_type r,
     ob_Payload = or_payload r, ob_CorrelationID = deref (or_correlation r),
     ob_CausationID = deref (or_causation r), ob_OccurredAt = or_occurred r, ob_Version = or_version r,
     ob_Attempts = or_attempts r\<rparr>"

text \<open>The \<open>WHERE\<close> clause; instants and the lifetime are in nanoseconds.\<close>

definition claimable :: "Time \<Rightarrow> int \<Rightarrow> outbox_row \<Rightarrow> bool" where
  "claimable now lockTTL r \<longleftrightarrow> or_published r = None \<and> or_next_attempt r \<le> now \<and>
     (or_locked_by r = None \<or> (case or_locked_at r of None \<Rightarrow> False | Some t \<Rightarrow> t < now - lockTTL))"

definition claim_ids :: "(string \<Rightarrow> bool) \<Rightarrow> nat \<Rightarrow> int \<Rightarrow> Time \<Rightarrow> outbox_row list \<Rightarrow> string list" where
  "claim_ids locked limit lockTTL now rows =
     map or_id (take limit (filter (\<lambda>r. \<not> locked (or_id r)) (sort_key or_occurred (filter (claimable now lockTTL) rows))))"

definition claim_rows ::
    "(string \<Rightarrow> bool) \<Rightarrow> (outbox_row list \<Rightarrow> outbox_row list) \<Rightarrow> string \<Rightarrow> nat \<Rightarrow> int \<Rightarrow> Time \<Rightarrow> db \<Rightarrow>
     (outbox_row list \<times> db) result" where
  "claim_rows locked arranged workerID limit lockTTL now d =
     (let chosen = claim_ids locked limit lockTTL now (outbox d) in
      bindE (update_outbox (\<lambda>r. or_id r \<in> set chosen)
          (\<lambda>r. r\<lparr>or_locked_by := Some workerID, or_locked_at := Some now\<rparr>) d)
        (\<lambda>(_, d'). Inr (arranged (filter (\<lambda>r. or_id r \<in> set chosen) (outbox d')), d')))"

definition OutboxClaim :: "string \<Rightarrow> nat \<Rightarrow> int \<Rightarrow> OutboxRecord list io" where
  "OutboxClaim workerID limit lockTTL = (\<lambda>e w.
     bindM (stmt (claim_rows (row_locked e (ticks w)) (arrange e (ticks w)) workerID limit lockTTL))
       (\<lambda>rows. ret (map outbox_record rows)) e w)"

definition OutboxMarkPublished :: "string \<Rightarrow> unit io" where
  "OutboxMarkPublished i =
     bindM (stmt (\<lambda>now. update_outbox (\<lambda>r. or_id r = i)
         (\<lambda>r. r\<lparr>or_published := Some now, or_locked_by := None, or_locked_at := None\<rparr>)))
       (\<lambda>rowsAffected. if rowsAffected = 0 then throw (PgErr PgNoRows) else ret ())"

definition OutboxMarkFailed :: "string \<Rightarrow> Time \<Rightarrow> unit io" where
  "OutboxMarkFailed i nextAttemptAt =
     bindM (stmt (\<lambda>_. update_outbox (\<lambda>r. or_id r = i)
         (\<lambda>r. r\<lparr>or_attempts := or_attempts r + 1, or_next_attempt := pg_ts nextAttemptAt, or_locked_by := None,
           or_locked_at := None\<rparr>)))
       (\<lambda>rowsAffected. if rowsAffected = 0 then throw (PgErr PgNoRows) else ret ())"

section \<open>The promises\<close>

text \<open>An update of outbox rows that keeps their ids moves no money.\<close>

lemma update_outbox_inv:
  assumes "db_inv d" "update_outbox sel f d = Inr (n, d')" "\<And>r. or_id (f r) = or_id r"
  shows "db_inv d' \<and> wallets d' = wallets d \<and> (\<forall>i. gap d' i = gap d i)"
proof -
  let ?g = "\<lambda>r. if sel r then f r else r"
  have d': "d' = d\<lparr>outbox := map ?g (outbox d)\<rparr>" and chk: "\<And>r. r \<in> set (outbox d) \<Longrightarrow> sel r \<Longrightarrow> outbox_check (f r)"
    using assms(2) by (auto simp: update_outbox_def bindE_Inr_iff update_row_Inr_iff)
  have tab: "table_ok outbox_check outbox_clash (outbox d)" by (rule db_inv_tables(5) [OF assms(1)])
  have "outbox_clash (?g r) (?g r') = outbox_clash r r'" for r r' using assms(3) by (simp add: outbox_clash_def)
  then have "table_ok outbox_check outbox_clash (map ?g (outbox d))"
    using tab chk by (auto simp: table_ok_def list_all_iff sorted_wrt_map)
  then have "db_inv d'" by (intro db_inv_step [OF assms(1)]) (simp_all add: d' db_inv_tables [OF assms(1)])
  moreover have "gap d' i = gap d i" for i by (rule gap_fields) (simp_all add: d')
  ultimately show ?thesis by (simp add: d')
qed

interpretation outboxPublished: neutral_op "OutboxMarkPublished i" for i
  unfolding OutboxMarkPublished_def
  by (rule neutral_guarded, rule neutral_stmt, rule update_outbox_inv, assumption, assumption) auto

interpretation outboxFailed: neutral_op "OutboxMarkFailed i t" for i t
  unfolding OutboxMarkFailed_def
  by (rule neutral_guarded, rule neutral_stmt, rule update_outbox_inv, assumption, assumption) auto

lemma claim_rows_inv:
  assumes "db_inv d" "claim_rows locked arranged wid limit ttl now d = Inr (rs, d')"
  shows "db_inv d' \<and> wallets d' = wallets d \<and> (\<forall>i. gap d' i = gap d i)"
  using assms(2) update_outbox_inv [OF assms(1)]
  by (auto simp: claim_rows_def Let_def bindE_Inr_iff split: prod.splits)

lemma keeper_OutboxClaim [keeper_intros]: "book_keeper (OutboxClaim wid limit ttl)"
proof
  fix e g assume rely: "rely e"
  have k: "book_keeper (bindM (stmt (claim_rows lk ar wid limit ttl)) (\<lambda>rows. ret (map outbox_record rows)))" for lk ar
    by (intro keeper_intros keeper_stmt) (rule claim_rows_inv)
  show "triple e (outside g) (OutboxClaim wid limit ttl) (\<lambda>_. outside g) (\<lambda>_. outside g)"
    using book_keeper.books [OF k rely] by (simp add: triple_def OutboxClaim_def)
qed

lemma keeper_marks [keeper_intros]: "book_keeper (OutboxMarkPublished i)" "book_keeper (OutboxMarkFailed i t)"
  unfolding OutboxMarkPublished_def OutboxMarkFailed_def
  by (intro keeper_intros keeper_stmt, rule update_outbox_inv, assumption, assumption, simp)+

section \<open>What a claim takes\<close>

text \<open>What is known of the order in which rows come back: it is an order of the same rows.\<close>

definition arranges :: "('a list \<Rightarrow> 'a list) \<Rightarrow> bool" where
  "arranges f \<longleftrightarrow> (\<forall>xs. set (f xs) = set xs \<and> length (f xs) = length xs)"

lemma arranges_id: "arranges (\<lambda>xs. xs)"
  by (simp add: arranges_def)

lemma set_claim_ids:
  "i \<in> set (claim_ids locked limit ttl now rows) \<Longrightarrow> \<exists>r\<in>set rows. or_id r = i \<and> claimable now ttl r \<and> \<not> locked i"
  by (auto simp: claim_ids_def dest!: in_set_takeD)

lemma distinct_ids: "table_ok outbox_check outbox_clash rows \<Longrightarrow> distinct (map or_id rows)"
  by (induction rows) (auto simp: table_ok_def outbox_clash_def)

lemma length_claimed:
  assumes "table_ok outbox_check outbox_clash rows"
  shows "length (filter (\<lambda>r. or_id r \<in> set is) rows) \<le> length is"
proof -
  have "distinct (map or_id rows)" by (rule distinct_ids [OF assms])
  then have d: "distinct (map or_id (filter (\<lambda>r. or_id r \<in> set is) rows))" by (rule distinct_map_filter)
  have "length (map or_id (filter (\<lambda>r. or_id r \<in> set is) rows)) \<le> card (set is)"
    unfolding distinct_card [OF d, symmetric] by (rule card_mono) auto
  also have "\<dots> \<le> length is" by (rule card_length)
  finally show ?thesis by simp
qed

lemma claimed_rows:
  assumes d: "db_inv d" and c: "claim_rows locked arranged wid limit ttl now d = Inr (rs, d')"
    and arr: "arranges arranged"
  shows "length rs \<le> limit" and "set rs \<subseteq> set (outbox d')"
    and "r \<in> set rs \<Longrightarrow> or_published r = None \<and> or_locked_by r = Some wid \<and> or_locked_at r = Some now"
proof -
  let ?ids = "claim_ids locked limit ttl now (outbox d)"
  let ?g = "\<lambda>r. if or_id r \<in> set ?ids then r\<lparr>or_locked_by := Some wid, or_locked_at := Some now\<rparr> else r"
  have d': "d' = d\<lparr>outbox := map ?g (outbox d)\<rparr>" and rs: "rs = arranged (filter (\<lambda>r. or_id r \<in> set ?ids) (map ?g (outbox d)))"
    using c by (auto simp: claim_rows_def Let_def bindE_Inr_iff update_outbox_def update_row_Inr_iff)
  have set_rs: "set rs = set (filter (\<lambda>r. or_id r \<in> set ?ids) (map ?g (outbox d)))"
    unfolding rs using arr by (simp only: arranges_def)
  have "length rs = length (filter (\<lambda>r. or_id r \<in> set ?ids) (map ?g (outbox d)))"
    unfolding rs using arr by (simp only: arranges_def)
  also have "\<dots> = length (filter (\<lambda>r. or_id r \<in> set ?ids) (outbox d))"
    by (simp add: filter_map o_def if_distrib cong: if_cong)
  also have "\<dots> \<le> length ?ids" by (rule length_claimed [OF db_inv_tables(5) [OF d]])
  also have "\<dots> \<le> limit" by (simp add: claim_ids_def)
  finally show "length rs \<le> limit" .
  show "set rs \<subseteq> set (outbox d')" using set_rs by (auto simp: d')
  show "or_published r = None \<and> or_locked_by r = Some wid \<and> or_locked_at r = Some now" if r: "r \<in> set rs"
  proof -
    obtain x where x: "x \<in> set (outbox d)" "r = ?g x" "or_id r \<in> set ?ids" using r set_rs by auto
    then have "or_id x \<in> set ?ids" by (auto split: if_splits)
    then obtain y where y: "y \<in> set (outbox d)" "or_id y = or_id x" "claimable now ttl y" using set_claim_ids by blast
    then have "y = x" using ot.key_unique [OF db_inv_tables(5) [OF d] y(1) x(1)] by simp
    then show ?thesis using x y \<open>or_id x \<in> set ?ids\<close> by (simp add: claimable_def)
  qed
qed

section \<open>Properties\<close>

text \<open>C21: A claim takes at most \<open>limit\<close> unpublished events and locks each for its worker; until that
  lock has outlived its lifetime no claim of any worker takes one of them again, on any later
  database in which they still are as the claim left them. So two publishers never work on the
  same event at the same time.\<close>

theorem Claim_exclusive:
  assumes "db_inv d" "claim_rows locked arranged wid limit ttl now d = Inr (rs, d')"
    and "arranges arranged"
    and "db_inv d1" "set rs \<subseteq> set (outbox d1)" "now' \<le> now + ttl"
  shows "length rs \<le> limit \<and> (\<forall>r\<in>set rs. or_published r = None \<and> or_locked_by r = Some wid) \<and>
    or_id ` set rs \<inter> set (claim_ids locked' limit' ttl now' (outbox d1)) = {}"
proof -
  note claimed = claimed_rows [OF assms(1-3)]
  have "or_id r \<notin> set (claim_ids locked' limit' ttl now' (outbox d1))" if r: "r \<in> set rs" for r
  proof
    assume "or_id r \<in> set (claim_ids locked' limit' ttl now' (outbox d1))"
    then obtain y where y: "y \<in> set (outbox d1)" "or_id y = or_id r" "claimable now' ttl y" using set_claim_ids by blast
    have "y = r" using ot.key_unique [OF db_inv_tables(5) [OF assms(4)] y(1)] r assms(5) y(2) by blast
    then show False using claimed(3) [OF r] y(3) assms(6) by (simp add: claimable_def)
  qed
  then show ?thesis using claimed by blast
qed

definition waiting_event :: "string \<Rightarrow> Time \<Rightarrow> outbox_row" where
  "waiting_event i t = \<lparr>or_id = i, or_aggregate = ''w1'', or_type = ''WalletBalanceChanged'', or_payload = JObject [],
     or_correlation = None, or_causation = None, or_occurred = t, or_version = 1, or_attempts = 0,
     or_next_attempt = t, or_published = None, or_locked_by = None, or_locked_at = None\<rparr>"

definition events_db :: db where
  "events_db = empty_db\<lparr>outbox := [waiting_event ''o1'' 5, waiting_event ''o2'' 3]\<rparr>"

lemma events_db_inv: "db_inv events_db"
  by (simp add: events_db_def db_inv_def schema_ok_def empty_db_def table_ok_def outbox_check_def waiting_event_def
      outbox_clash_def in_int32_def)

theorem Claim_exclusive_witness:
  "\<exists>rs d'. claim_rows (\<lambda>_. False) (\<lambda>rs. rs) ''A'' 1 30 10 events_db = Inr (rs, d') \<and> map or_id rs = [''o2''] \<and>
     ''o2'' \<notin> set (claim_ids (\<lambda>_. False) 5 30 40 (outbox d'))"
proof -
  let ?r = "(waiting_event ''o2'' 3)\<lparr>or_locked_by := Some ''A'', or_locked_at := Some 10\<rparr>"
  let ?d = "events_db\<lparr>outbox := [waiting_event ''o1'' 5, ?r]\<rparr>"
  have c: "claim_rows (\<lambda>_. False) (\<lambda>rs. rs) ''A'' 1 30 10 events_db = Inr ([?r], ?d)"
    by (simp add: claim_rows_def claim_ids_def events_db_def waiting_event_def claimable_def update_outbox_def
        update_row_def outbox_check_def outbox_clash_def in_int32_def Let_def)
  have d1: "db_inv ?d" using claim_rows_inv [OF events_db_inv c] by blast
  have "or_id ` set [?r] \<inter> set (claim_ids (\<lambda>_. False) 5 30 40 (outbox ?d)) = {}"
    using Claim_exclusive [OF events_db_inv c arranges_id d1, of 40 "\<lambda>_. False" 5] by simp
  then show ?thesis using c by (simp add: waiting_event_def)
qed

end
