(* ===== verification/Time_Text.thy ===== *)
theory Time_Text
  imports Store
begin

text \<open>
  Instants as text, as the standard library's \<open>time\<close> package writes and reads them: the calendar
  date of a day, \<open>Format\<close> in UTC and \<open>Parse\<close> with the layout \<open>time.RFC3339Nano\<close>, and the proof that
  parsing undoes formatting. An instant is a number of nanoseconds since 1970.
\<close>

section \<open>Formatting\<close>

text \<open>
  The calendar date of a day counted from 1970-01-01 (\<open>time.Time.Date\<close>), and the text of an instant
  in UTC: \<open>time.RFC3339Nano\<close>, whose fraction has no trailing zeros, and the layout with exactly three
  fractional digits.
\<close>

definition year_start :: "int \<Rightarrow> int" where
  "year_start y = 365 * y + y div 4 - y div 100"

definition year_guess :: "int \<Rightarrow> int" where
  "year_guess n = n - n div 1460 + n div 36524 - n div 146096"

definition civil :: "int \<Rightarrow> int \<times> nat \<times> nat" where
  "civil day =
     (let z = day + 719468; era = z div 146097; doe = z mod 146097;
          yoe = year_guess doe div 365; doy = doe - year_start yoe;
          mp = (5 * doy + 2) div 153;
          dom = doy - (153 * mp + 2) div 5 + 1;
          month = (if mp < 10 then mp + 3 else mp - 9)
      in (yoe + era * 400 + (if month \<le> 2 then 1 else 0), nat month, nat dom))"

primrec digits :: "nat \<Rightarrow> nat \<Rightarrow> string" where
  "digits 0 n = []"
| "digits (Suc k) n = digits k (n div 10) @ [digit_char (n mod 10)]"

definition fraction :: "nat \<Rightarrow> string" where
  "fraction n = (if n = 0 then [] else CHR ''.'' # rev (dropWhile (\<lambda>c. c = CHR ''0'') (rev (digits 9 n))))"

definition date_time :: "Time \<Rightarrow> string" where
  "date_time t =
     (let s = t div 1000000000; (y, m, d) = civil (s div 86400); sec = nat (s mod 86400)
      in digits 4 (nat y) @ ''-'' @ digits 2 m @ ''-'' @ digits 2 d @ ''T'' @
         digits 2 (sec div 3600) @ '':'' @ digits 2 (sec div 60 mod 60) @ '':'' @ digits 2 (sec mod 60))"

definition rfc3339nano :: "Time \<Rightarrow> string" where
  "rfc3339nano t = date_time t @ fraction (nat (t mod 1000000000)) @ ''Z''"

definition rfc3339milli :: "Time \<Rightarrow> string" where
  "rfc3339milli t = date_time t @ ''.'' @ digits 3 (nat (t mod 1000000000) div 1000000) @ ''Z''"

section \<open>Parsing\<close>

text \<open>
  \<open>time.Parse(time.RFC3339Nano, s)\<close>. Two digits are read for a month, day, minute and second, one or
  two for an hour; the fraction may start with a comma, and its digits after the ninth are dropped;
  an offset may have up to 24 hours and 60 minutes.
\<close>

definition expect :: "char \<Rightarrow> string \<Rightarrow> string option" where
  "expect c s = (case s of x # r \<Rightarrow> if x = c then Some r else None | [] \<Rightarrow> None)"

fun getnum :: "bool \<Rightarrow> string \<Rightarrow> (nat \<times> string) option" where
  "getnum fixed (c # d # r) =
     (if \<not> is_digit c then None
      else if is_digit d then Some (10 * digit_val c + digit_val d, r)
      else if fixed then None else Some (digit_val c, d # r))"
| "getnum fixed [c] = (if is_digit c \<and> \<not> fixed then Some (digit_val c, []) else None)"
| "getnum fixed [] = None"

definition nanos :: "string \<Rightarrow> nat" where
  "nanos ds = digits_val (take 9 ds) * 10 ^ (9 - length (take 9 ds))"

definition getfraction :: "string \<Rightarrow> nat \<times> string" where
  "getfraction s = (case s of
       p # d # r \<Rightarrow> if (p = CHR ''.'' \<or> p = CHR '','') \<and> is_digit d
         then (nanos (takeWhile is_digit (d # r)), dropWhile is_digit (d # r)) else (0, s)
     | _ \<Rightarrow> (0, s))"

definition getzone :: "string \<Rightarrow> (int \<times> string) option" where
  "getzone s = (case s of
       CHR ''Z'' # r \<Rightarrow> Some (0, r)
     | sg # a # b # c # d # e # r \<Rightarrow>
         (if c \<noteq> CHR '':'' then None
          else Option.bind (getnum True [a, b]) (\<lambda>(hr, _).
            Option.bind (getnum True [d, e]) (\<lambda>(mm, _).
            if 24 < hr \<or> 60 < mm then None
            else if sg = CHR ''+'' then Some (int ((hr * 60 + mm) * 60), r)
            else if sg = CHR ''-'' then Some (- int ((hr * 60 + mm) * 60), r)
            else None)))
     | _ \<Rightarrow> None)"

definition leap :: "int \<Rightarrow> bool" where
  "leap y \<longleftrightarrow> y mod 4 = 0 \<and> (y mod 100 \<noteq> 0 \<or> y mod 400 = 0)"

definition daysIn :: "int \<Rightarrow> nat \<Rightarrow> nat" where
  "daysIn y m = (if m = 2 then (if leap y then 29 else 28)
     else if m = 4 \<or> m = 6 \<or> m = 9 \<or> m = 11 then 30 else 31)"

text \<open>\<open>time.Date\<close>: the day from 1970-01-01 of a date.\<close>

definition day_of :: "int \<Rightarrow> nat \<Rightarrow> nat \<Rightarrow> int" where
  "day_of y m d =
     (let y' = (if m \<le> 2 then y - 1 else y); era = y' div 400; yoe = y' mod 400;
          mp = (int m + 9) mod 12; doy = (153 * mp + 2) div 5 + int d - 1
      in era * 146097 + (yoe * 365 + yoe div 4 - yoe div 100 + doy) - 719468)"

definition getdate :: "string \<Rightarrow> (int \<times> string) option" where
  "getdate s = (if length s < 4 \<or> \<not> list_all is_digit (take 4 s) then None
     else let y = int (digits_val (take 4 s)) in
       Option.bind (expect (CHR ''-'') (drop 4 s)) (\<lambda>s.
       Option.bind (getnum True s) (\<lambda>(m, s). if m = 0 \<or> 12 < m then None else
       Option.bind (expect (CHR ''-'') s) (\<lambda>s.
       Option.bind (getnum True s) (\<lambda>(d, s). if d = 0 \<or> daysIn y m < d then None else Some (day_of y m d, s))))))"

definition getclock :: "string \<Rightarrow> (nat \<times> string) option" where
  "getclock s =
     Option.bind (getnum False s) (\<lambda>(h, s). if 24 \<le> h then None else
     Option.bind (expect (CHR '':'') s) (\<lambda>s.
     Option.bind (getnum True s) (\<lambda>(mi, s). if 60 \<le> mi then None else
     Option.bind (expect (CHR '':'') s) (\<lambda>s.
     Option.bind (getnum True s) (\<lambda>(se, s). if 60 \<le> se then None else Some (h * 3600 + mi * 60 + se, s))))))"

definition time_parse :: "string \<Rightarrow> Time option" where
  "time_parse s =
     Option.bind (getdate s) (\<lambda>(day, s).
     Option.bind (expect (CHR ''T'') s) (\<lambda>s.
     Option.bind (getclock s) (\<lambda>(sec, s). let (ns, s) = getfraction s in
     Option.bind (getzone s) (\<lambda>(off, s).
     if s \<noteq> [] then None else Some ((day * 86400 + int sec - off) * 1000000000 + int ns)))))"

section \<open>The calendar\<close>

lemma minus_div_mono: "(a :: int) \<le> b \<Longrightarrow> 0 < k \<Longrightarrow> a - a div k \<le> b - b div k"
proof -
  assume ab: "a \<le> b" and k: "0 < k"
  have "b div k = (a + (b - a)) div k" by simp
  also have "\<dots> \<le> (a + k * (b - a)) div k"
    using ab k mult_right_mono [of 1 k "b - a"] by (intro zdiv_mono1) simp_all
  also have "\<dots> = a div k + (b - a)" using k by simp
  finally show ?thesis by simp
qed

lemma year_guess_mono: "a \<le> b \<Longrightarrow> year_guess a \<le> year_guess b"
proof -
  assume ab: "a \<le> b"
  have d: "n div 146096 = (n div 36524) div 4" for n :: int by (simp flip: zdiv_zmult2_eq)
  have "a - a div 1460 \<le> b - b div 1460" using minus_div_mono [OF ab] by simp
  moreover have "a div 36524 \<le> b div 36524" using ab by (rule zdiv_mono1) simp
  then have "a div 36524 - a div 36524 div 4 \<le> b div 36524 - b div 36524 div 4" by (rule minus_div_mono) simp
  ultimately show ?thesis unfolding year_guess_def d by linarith
qed

lemma year_ends:
  "list_all (\<lambda>y. year_guess (year_start y) div 365 = y \<and> year_guess (year_start (y + 1) - 1) div 365 = y) [0..398] \<and>
   year_guess (year_start 399) div 365 = 399 \<and> year_guess 146096 div 365 = 399"
  by code_simp

lemma year_bounds:
  assumes "0 \<le> n" "n < 146097"
  defines "y \<equiv> year_guess n div 365"
  shows "0 \<le> y" "y \<le> 399" "year_start y \<le> n" "y < 399 \<Longrightarrow> n < year_start (y + 1)"
proof -
  note ends = year_ends [unfolded list_all_iff]
  have m: "year_guess a div 365 \<le> year_guess b div 365" if "a \<le> b" for a b
    using year_guess_mono [OF that] by (rule zdiv_mono1) simp
  have "year_guess 0 div 365 = 0" by (simp add: year_guess_def)
  then show y0: "0 \<le> y" using m [OF assms(1)] by (simp add: y_def)
  show y1: "y \<le> 399" using m [of n 146096] assms(2) ends by (simp add: y_def)
  show "year_start y \<le> n"
  proof (rule ccontr)
    assume "\<not> ?thesis"
    then have n: "n \<le> year_start y - 1" by simp
    have "y \<noteq> 0" using n assms(1) by (auto simp: year_start_def)
    then have "y - 1 \<in> set [0..398]" using y0 y1 by simp
    then have "year_guess (year_start y - 1) div 365 = y - 1" using ends by fastforce
    then show False using m [OF n] by (simp add: y_def)
  qed
  show "n < year_start (y + 1)" if "y < 399"
  proof (rule ccontr)
    assume "\<not> ?thesis"
    then have n: "year_start (y + 1) \<le> n" by simp
    have "year_guess (year_start (y + 1)) div 365 = y + 1"
    proof (cases "y = 398")
      case True
      then show ?thesis using ends by simp
    next
      case False
      then have "y + 1 \<in> set [0..398]" using y0 that by simp
      then show ?thesis using ends by blast
    qed
    then show False using m [OF n] by (simp add: y_def)
  qed
qed

text \<open>The months: \<open>mp\<close> counts them from March, and a year has its last day in February.\<close>

definition month_ok :: "int \<Rightarrow> bool" where
  "month_ok n \<longleftrightarrow> (let mp = (5 * n + 2) div 153; d = n - (153 * mp + 2) div 5 + 1; m = (if mp < 10 then mp + 3 else mp - 9) in
     0 \<le> mp \<and> mp \<le> 11 \<and> 1 \<le> d \<and> d \<le> 31 \<and> (if m = 2 then d \<le> 29 \<and> (d = 29 \<longleftrightarrow> n = 365)
       else d \<le> int (daysIn 0 (nat m))))"

lemma months: "list_all month_ok [0..365]"
  by code_simp

lemma leap_years:
  "list_all (\<lambda>y. year_start (y + 1) - year_start y \<le> (if leap (y + 1) then 366 else 365)) [0..398] \<and>
   146097 - year_start 399 \<le> 366"
  by code_simp

lemma leap_mod: "leap (y + e * 400) = leap y"
proof -
  have "(y + e * 400) mod 4 = y mod 4" using mod_mult_self1 [of y "e * 100" 4] by (simp add: mult.assoc)
  moreover have "(y + e * 400) mod 100 = y mod 100" using mod_mult_self1 [of y "e * 4" 100] by (simp add: mult.assoc)
  ultimately show ?thesis by (simp add: leap_def)
qed

text \<open>\<open>time.Date\<close> undoes \<open>Date\<close>, and a date is one its month has.\<close>

lemma civil_date:
  assumes "civil day = (y, m, d)"
  shows "day_of y m d = day" "1 \<le> m" "m \<le> 12" "1 \<le> d" "d \<le> daysIn y m"
proof -
  define doe where "doe = (day + 719468) mod 146097"
  define yoe where "yoe = year_guess doe div 365"
  define doy where "doy = doe - year_start yoe"
  define mp where "mp = (5 * doy + 2) div 153"
  define dd where "dd = doy - (153 * mp + 2) div 5 + 1"
  define mm where "mm = (if mp < 10 then mp + 3 else mp - 9)"
  define era where "era = (day + 719468) div 146097"
  have yb: "0 \<le> yoe" "yoe \<le> 399" "year_start yoe \<le> doe" "yoe < 399 \<Longrightarrow> doe < year_start (yoe + 1)"
    using year_bounds [of doe] by (simp_all add: doe_def yoe_def)
  have less: "doe < 146097" by (simp add: doe_def)
  have lp: "doy \<le> (if yoe = 399 \<or> leap (yoe + 1) then 365 else 364)"
  proof (cases "yoe = 399")
    case True
    then show ?thesis using leap_years less by (simp add: doy_def)
  next
    case False
    then have "yoe \<in> set [0..398]" using yb(1,2) by simp
    then have "year_start (yoe + 1) - year_start yoe \<le> (if leap (yoe + 1) then 366 else 365)"
      using leap_years unfolding list_all_iff by blast
    then show ?thesis using yb(2,4) False by (simp add: doy_def split: if_splits)
  qed
  have "doy \<in> set [0..365]" using yb(3) lp by (auto simp: doy_def split: if_splits)
  then have "month_ok doy" using months unfolding list_all_iff by blast
  then have mo': "0 \<le> mp \<and> mp \<le> 11 \<and> 1 \<le> dd \<and> dd \<le> 31 \<and>
      (if mm = 2 then dd \<le> 29 \<and> (dd = 29 \<longleftrightarrow> doy = 365) else dd \<le> int (daysIn 0 (nat mm)))"
    unfolding month_ok_def Let_def mp_def dd_def mm_def .
  note mo = mo' [THEN conjunct1] mo' [THEN conjunct2, THEN conjunct1]
    mo' [THEN conjunct2, THEN conjunct2, THEN conjunct1] mo' [THEN conjunct2, THEN conjunct2, THEN conjunct2, THEN conjunct1]
    mo' [THEN conjunct2, THEN conjunct2, THEN conjunct2, THEN conjunct2]
  have mm: "1 \<le> mm" "mm \<le> 12" "(mm + 9) mod 12 = mp" using mo(1,2) by (auto simp: mm_def)
  have "civil day = (yoe + era * 400 + (if mm \<le> 2 then 1 else 0), nat mm, nat dd)"
    unfolding civil_def Let_def mm_def dd_def mp_def doy_def yoe_def doe_def era_def by (rule refl)
  then have y: "y = yoe + era * 400 + (if mm \<le> 2 then 1 else 0)" and m: "m = nat mm" and d: "d = nat dd"
    using assms by simp_all
  have im: "int m = mm" "int d = dd" using mm mo(3) by (simp_all add: m d)
  then have c: "(if m \<le> 2 then y - 1 else y) = yoe + era * 400" using y by auto
  have q: "(yoe + era * 400) div 400 = era" "(yoe + era * 400) mod 400 = yoe"
    using yb(1,2) by simp_all
  have "era * 146097 + doe = day + 719468" by (simp add: era_def doe_def)
  then show "day_of y m d = day"
    unfolding day_of_def Let_def c q im mm(3) by (simp add: dd_def doy_def year_start_def)
  show "1 \<le> m" "m \<le> 12" "1 \<le> d" using mm mo by (simp_all add: m d)
  show "d \<le> daysIn y m"
  proof (cases "mm = 2")
    case True
    then have yy: "y = (yoe + 1) + era * 400" and "m = 2" by (simp_all add: y m)
    moreover have "leap (399 + 1)" by (simp add: leap_def)
    ultimately show ?thesis using mo(5) True lp unfolding yy leap_mod daysIn_def
      by (auto simp: d split: if_splits)
  next
    case False
    then have "nat mm \<noteq> 2" by linarith
    then have "daysIn y m = daysIn 0 (nat mm)" by (simp add: daysIn_def m)
    then show ?thesis using mo(5) False by (simp add: d)
  qed
qed

section \<open>Parsing undoes formatting\<close>

lemma digit_chars: "digits (Suc k) n = digits k (n div 10) @ [digit_char (n mod 10)]" "digits 0 n = []"
  by simp_all

lemma digits_all: "list_all is_digit (digits k n)" "length (digits k n) = k"
  by (induction k arbitrary: n) simp_all

lemma digits_val_digits: "digits_val (digits k n) = n mod 10 ^ k"
proof (induction k arbitrary: n)
  case (Suc k)
  have "n mod (10 * 10 ^ k) = 10 * (n div 10 mod 10 ^ k) + n mod 10"
    by (simp add: mod_mult2_eq)
  then show ?case using Suc by simp
qed simp

lemma getnum_digits: "n < 100 \<Longrightarrow> getnum b (digits 2 n @ r) = Some (n, r)"
  by (simp add: numeral_2_eq_2)

lemma expect_self [simp]: "expect c (c # r) = Some r"
  by (simp add: expect_def)

lemma getdate_digits:
  assumes "civil day = (y, m, d)" "0 \<le> y" "y \<le> 9999"
  shows "getdate (digits 4 (nat y) @ ''-'' @ digits 2 m @ ''-'' @ digits 2 d @ r) = Some (day, r)"
proof -
  note c = civil_date [OF assms(1)]
  have "d < 100" "m < 100" using c by (auto simp: daysIn_def split: if_splits)
  moreover have "int (nat y mod 10 ^ 4) = y" using assms(2,3) by simp
  ultimately show ?thesis using c
    by (simp add: getdate_def digits_all digits_val_digits getnum_digits Let_def)
qed

lemma getclock_digits:
  assumes "sec < 86400"
  shows "getclock (digits 2 (sec div 3600) @ '':'' @ digits 2 (sec div 60 mod 60) @ '':'' @ digits 2 (sec mod 60) @ r) = Some (sec, r)"
proof -
  have "sec div 3600 * 60 + sec div 60 mod 60 = sec div 60"
    using div_mult_mod_eq [of "sec div 60" 60] by (simp add: div_mult2_eq [symmetric])
  then have s: "sec div 3600 * 3600 + sec div 60 mod 60 * 60 + sec mod 60 = sec"
    using div_mult_mod_eq [of sec 60] by linarith
  have b: "sec div 3600 < 24" "\<not> 60 \<le> sec mod 60" "\<not> 60 \<le> sec div 60 mod 60" using assms by (simp_all add: not_le)
  then have d: "sec div 3600 < 100" "sec mod 60 < 100" "sec div 60 mod 60 < 100" by linarith+
  show ?thesis unfolding getclock_def using b
    by (simp add: getnum_digits [OF d(1)] getnum_digits [OF d(2)] getnum_digits [OF d(3)] s)
qed

lemma nanos_stripped:
  assumes "n < 1000000000" "n \<noteq> 0"
  obtains c ds where "fraction n = CHR ''.'' # c # ds" "list_all is_digit (c # ds)" "nanos (c # ds) = n"
proof -
  let ?z = "\<lambda>c. c = CHR ''0''" and ?u = "rev (digits 9 n)"
  define ds where "ds = rev (dropWhile ?z ?u)"
  have u: "digits 9 n = ds @ rev (takeWhile ?z ?u)"
    unfolding ds_def by (simp only: rev_append [symmetric] takeWhile_dropWhile_id rev_rev_ident)
  define k where "k = length (takeWhile ?z ?u)"
  have "takeWhile ?z ?u = replicate k CHR ''0''" 
    unfolding k_def by (rule replicate_length_same [symmetric]) (auto dest: set_takeWhileD)
  then have e: "digits 9 n = ds @ replicate k CHR ''0''" using u by simp
  have zeros: "digits_val (replicate j CHR ''0'') = 0" for j
  proof (induction j)
    case (Suc j)
    have "replicate (Suc j) CHR ''0'' = replicate j CHR ''0'' @ ''0''" by (simp add: replicate_append_same)
    then show ?case using Suc by (simp add: digit_val_def)
  qed simp
  have l: "length ds + k = 9" using digits_all(2) [of 9 n] unfolding e by simp
  have v: "digits_val ds * 10 ^ k = n"
    using digits_val_digits [of 9 n] assms(1) unfolding e by (simp add: digits_val_append zeros)
  have "list_all is_digit ds" using digits_all(1) [of 9 n] unfolding e by simp
  moreover have "nanos ds = n"
  proof -
    have "9 - length ds = k" "length ds \<le> 9" using l by simp_all
    then show ?thesis using v by (simp add: nanos_def)
  qed
  moreover have "ds \<noteq> []" using v assms(2) by auto
  moreover have "fraction n = CHR ''.'' # ds" using assms(2) by (simp add: fraction_def ds_def)
  ultimately show ?thesis using that by (cases ds) auto
qed

lemma getfraction_fraction:
  assumes "n < 1000000000"
  shows "getfraction (fraction n @ ''Z'') = (n, ''Z'')"
proof (cases "n = 0")
  case True
  then show ?thesis by (simp add: getfraction_def fraction_def)
next
  case False
  obtain c ds where f: "fraction n = CHR ''.'' # c # ds" "list_all is_digit (c # ds)" "nanos (c # ds) = n"
    using nanos_stripped [OF assms False] .
  have "\<not> is_digit CHR ''Z''" by (simp add: is_digit_def)
  then have "takeWhile is_digit (c # ds @ ''Z'') = c # ds" "dropWhile is_digit (c # ds @ ''Z'') = ''Z''"
    using f(2) by (simp_all add: takeWhile_append dropWhile_append list_all_iff)
  then show ?thesis using f by (simp add: getfraction_def)
qed

definition in_years :: "Time \<Rightarrow> bool" where
  "in_years t \<longleftrightarrow> (let y = fst (civil (t div 1000000000 div 86400)) in 0 \<le> y \<and> y \<le> 9999)"

lemma time_parse_format:
  assumes "in_years t"
  shows "time_parse (rfc3339nano t) = Some t"
proof -
  let ?s = "t div 1000000000"
  obtain y m d where c: "civil (?s div 86400) = (y, m, d)" by (metis prod_cases3)
  have y: "0 \<le> y" "y \<le> 9999" using assms c by (simp_all add: in_years_def Let_def)
  have n: "nat (t mod 1000000000) < 1000000000" by (simp add: nat_less_iff)
  have s: "nat (?s mod 86400) < 86400" by (simp add: nat_less_iff)
  have f: "rfc3339nano t = digits 4 (nat y) @ ''-'' @ digits 2 m @ ''-'' @ digits 2 d @ ''T'' @
     digits 2 (nat (?s mod 86400) div 3600) @ '':'' @ digits 2 (nat (?s mod 86400) div 60 mod 60) @ '':'' @
     digits 2 (nat (?s mod 86400) mod 60) @ fraction (nat (t mod 1000000000)) @ ''Z''"
    by (simp add: rfc3339nano_def date_time_def Let_def c)
  have z: "getzone ''Z'' = Some (0, [])" by (simp add: getzone_def)
  have "(?s div 86400 * 86400 + ?s mod 86400) * 1000000000 + t mod 1000000000 = t"
    by (simp only: div_mult_mod_eq)
  then show ?thesis
    using getdate_digits [OF c y] getclock_digits [OF s] getfraction_fraction [OF n] z
    unfolding f time_parse_def by (simp add: Let_def)
qed

end
