(* ===== verification/Publisher.thy ===== *)
theory Publisher
  imports Replay Outbox_Repository Time_Text
begin

text \<open>
  \<open>internal/infra/outbox/publisher.go\<close>: the loop that claims a batch of outbox events, sends each
  to the queue and marks it published, or failed with a backoff. The SQS client is a call to the
  queue of the world; the latency histogram and the log are left out.
\<close>

section \<open>The message\<close>

text \<open>
  \<open>json.Marshal\<close> of the envelope: an instant outside the years 0 to 9999 has no JSON form and is the
  only failure; \<open>Data\<close> is the payload as it was stored, up to the order JSONB gives its members.
\<close>

definition envelope_json :: "OutboxRecord \<Rightarrow> json result" where
  "envelope_json rec =
     (let y = fst (civil (ob_OccurredAt rec div 1000000000 div 86400)) in
      if y < 0 \<or> 9999 < y then Inl (InfraErr InfraBadData)
      else Inr (JObject (
        str_field ''eventId'' (ob_ID rec) @ str_field ''eventType'' (ob_EventType rec) @
        str_field ''aggregateId'' (ob_AggregateID rec) @
        opt_field ''correlationId'' (ob_CorrelationID rec) @ opt_field ''causationId'' (ob_CausationID rec) @
        str_field ''occurredAt'' (rfc3339nano (ob_OccurredAt rec)) @
        [(''version'', JInt (sint (ob_Version rec))), (''data'', ob_Payload rec)])))"

section \<open>The backoff\<close>

text \<open>
  \<open>time.Duration(math.Pow(2, float64(attempts)))\<close>: powers of two up to \<open>2^62\<close> convert exactly and a
  negative exponent gives a fraction that truncates to zero; what a float beyond the range of \<open>int64\<close>
  converts to is left to the processor and is the parameter \<open>big\<close>.
\<close>

definition pow2_duration :: "int64 \<Rightarrow> int64 \<Rightarrow> int64" where
  "pow2_duration big attempts =
     (if sint attempts < 0 then 0 else if sint attempts < 63 then push_bit (unat attempts) 1 else big)"

definition baseBackoff :: int64 where
  "baseBackoff = 1000000000"

definition maxBackoff :: int64 where
  "maxBackoff = 300 * 1000000000"

definition publishBackoff :: "int64 \<Rightarrow> int64 \<Rightarrow> int64" where
  "publishBackoff big attempts =
     (let d = pow2_duration big attempts * baseBackoff in
      if maxBackoff <s d \<or> d \<le>s 0 then maxBackoff else d)"

section \<open>Publishing\<close>

definition publisherMarkFailed :: "bool \<Rightarrow> int64 \<Rightarrow> OutboxRecord \<Rightarrow> unit io" where
  "publisherMarkFailed withMetrics big rec =
     bindM (if withMetrics then count (\<lambda>m. m\<lparr>OutboxPublishFailuresTotal := OutboxPublishFailuresTotal m + 1\<rparr>) else ret ()) (\<lambda>_.
     bindM timeNow (\<lambda>now.
     bindM (attempting (OutboxMarkFailed (ob_ID rec) (now + sint (publishBackoff big (ob_Attempts rec))))) (\<lambda>_. ret ())))"

definition SendMessage :: "string \<Rightarrow> string \<Rightarrow> json \<Rightarrow> unit io" where
  "SendMessage groupID dedupID body =
     queue_call (\<lambda>q. q\<lparr>sent := sent q @ [\<lparr>m_group = groupID, m_dedup = dedupID, m_body = body\<rparr>]\<rparr>)"

definition publishOne :: "bool \<Rightarrow> int64 \<Rightarrow> OutboxRecord \<Rightarrow> unit io" where
  "publishOne withMetrics big rec =
     (case envelope_json rec of
        Inl _ \<Rightarrow> publisherMarkFailed withMetrics big rec
      | Inr body \<Rightarrow>
          bindM (attempting (SendMessage (ob_AggregateID rec) (ob_ID rec) body)) (\<lambda>r. case r of
            Inl _ \<Rightarrow> publisherMarkFailed withMetrics big rec
          | Inr _ \<Rightarrow> bindM (attempting (OutboxMarkPublished (ob_ID rec))) (\<lambda>_. ret ())))"

primrec publishAll :: "bool \<Rightarrow> int64 \<Rightarrow> OutboxRecord list \<Rightarrow> unit io" where
  "publishAll withMetrics big [] = ret ()"
| "publishAll withMetrics big (rec # recs) =
     bindM ctxDone (\<lambda>stop. if stop then ret ()
       else bindM (publishOne withMetrics big rec) (\<lambda>_. publishAll withMetrics big recs))"

definition lockTTL :: int where
  "lockTTL = 30 * 1000000000"

definition claimBatchSize :: nat where
  "claimBatchSize = 20"

definition publishPending :: "bool \<Rightarrow> int64 \<Rightarrow> string \<Rightarrow> unit io" where
  "publishPending withMetrics big workerID =
     bindM (attempting (OutboxClaim workerID claimBatchSize lockTTL)) (\<lambda>r. case r of
       Inl _ \<Rightarrow> ret ()
     | Inr records \<Rightarrow> publishAll withMetrics big records)"

text \<open>The loop of \<open>run\<close> for at most \<open>n\<close> ticks of its timer; it ends earlier when its context does.\<close>

primrec publisherRun :: "nat \<Rightarrow> bool \<Rightarrow> int64 \<Rightarrow> string \<Rightarrow> unit io" where
  "publisherRun 0 withMetrics big workerID = ret ()"
| "publisherRun (Suc n) withMetrics big workerID =
     bindM (publishPending withMetrics big workerID) (\<lambda>_.
     bindM ctxDone (\<lambda>stop. if stop then ret () else publisherRun n withMetrics big workerID))"

section \<open>The books\<close>

lemma keeper_publishOne [keeper_intros]: "book_keeper (publishOne withMetrics big rec)"
  unfolding publishOne_def publisherMarkFailed_def SendMessage_def by (intro keeper_intros)

lemma keeper_publishAll [keeper_intros]: "book_keeper (publishAll withMetrics big recs)"
  by (induction recs) (simp_all only: publishAll.simps, (intro keeper_intros | assumption)+)

lemma keeper_publishPending [keeper_intros]: "book_keeper (publishPending withMetrics big workerID)"
  unfolding publishPending_def by (intro keeper_intros)

lemma keeper_publisherRun: "book_keeper (publisherRun n withMetrics big workerID)"
  by (induction n) (simp_all only: publisherRun.simps, (intro keeper_intros | assumption)+)

section \<open>Sent before marked\<close>

text \<open>An event is the part of an outbox row that never changes.\<close>

definition event_of :: "outbox_row \<Rightarrow> OutboxRecord" where
  "event_of r = (outbox_record r)\<lparr>ob_Attempts := 0\<rparr>"

definition events :: "db \<Rightarrow> OutboxRecord set" where
  "events d = event_of ` set (outbox d)"

definition delivered :: "queue \<Rightarrow> OutboxRecord \<Rightarrow> bool" where
  "delivered q ev \<longleftrightarrow> (\<exists>m\<in>set (sent q). m_group m = ob_AggregateID ev \<and> m_dedup m = ob_ID ev \<and>
     envelope_json ev = Inr (m_body m))"

text \<open>Whatever is marked published was sent by this publisher, or is in \<open>X\<close>, the events others took care of.\<close>

definition told :: "string set \<Rightarrow> db \<Rightarrow> queue \<Rightarrow> bool" where
  "told X d q \<longleftrightarrow> distinct (map or_id (outbox d)) \<and>
     (\<forall>r\<in>set (outbox d). or_published r \<noteq> None \<longrightarrow> or_id r \<in> X \<or> delivered q (event_of r))"

text \<open>Other sessions never drop or change an event, and publish only events of \<open>X\<close>.\<close>

definition fellows :: "env \<Rightarrow> string set \<Rightarrow> bool" where
  "fellows e X \<longleftrightarrow> (\<forall>n. arranges (arrange e n)) \<and>
     (\<forall>n d. distinct (map or_id (outbox d)) \<longrightarrow> distinct (map or_id (outbox (interf e n d))) \<and>
        events d \<subseteq> events (interf e n d) \<and>
        (\<forall>r\<in>set (outbox (interf e n d)). or_published r \<noteq> None \<longrightarrow> or_id r \<in> X \<or>
          (\<exists>r'\<in>set (outbox d). event_of r' = event_of r \<and> or_published r' \<noteq> None)))"

definition holds :: "string set \<Rightarrow> OutboxRecord set \<Rightarrow> OutboxRecord set \<Rightarrow> world \<Rightarrow> bool" where
  "holds X E S w \<longleftrightarrow> session w = None \<and> told X (committed w) (mail w) \<and> E \<subseteq> events (committed w) \<and>
     (\<forall>ev\<in>S. delivered (mail w) ev)"

abbreviation never :: "go_error \<Rightarrow> world \<Rightarrow> bool" where
  "never \<equiv> \<lambda>_ _. False"

lemma event_of_id: "event_of r = event_of r' \<Longrightarrow> or_id r = or_id r'"
  by (simp add: event_of_def outbox_record_def)

lemma envelope_attempts [simp]: "envelope_json (rec\<lparr>ob_Attempts := n\<rparr>) = envelope_json rec"
  by (simp add: envelope_json_def cong: if_cong)

lemma interfere_holds:
  assumes f: "fellows e X" and w: "holds X E S w"
  shows "holds X E S (interfere e w)"
proof -
  let ?d = "committed w" and ?d' = "interf e (ticks w) (committed w)"
  have t: "told X ?d (mail w)" "E \<subseteq> events ?d" using w by (simp_all add: holds_def)
  then have d': "distinct (map or_id (outbox ?d'))" "events ?d \<subseteq> events ?d'"
    "\<And>r. r \<in> set (outbox ?d') \<Longrightarrow> or_published r \<noteq> None \<Longrightarrow> or_id r \<in> X \<or>
      (\<exists>r'\<in>set (outbox ?d). event_of r' = event_of r \<and> or_published r' \<noteq> None)"
    using f by (auto simp: fellows_def told_def)
  have "or_id r \<in> X \<or> delivered (mail w) (event_of r)" if "r \<in> set (outbox ?d')" "or_published r \<noteq> None" for r
    using d'(3) [OF that] t(1) event_of_id unfolding told_def by metis
  then have "told X ?d' (mail w)" using d'(1) by (simp add: told_def)
  then show ?thesis using w t(2) d'(2) by (auto simp: holds_def interfere_def)
qed

lemma holds_stmt:
  assumes f: "fellows e X"
    and ok: "\<And>now d q a d'. told X d q \<Longrightarrow> E \<subseteq> events d \<Longrightarrow> \<forall>ev\<in>S. delivered q ev \<Longrightarrow> s now d = Inr (a, d') \<Longrightarrow>
      told X d' q \<and> E \<subseteq> events d'"
  shows "triple e (holds X E S) (stmt s) (\<lambda>_. holds X E S) (\<lambda>_. holds X E S)"
  unfolding triple_def
proof (intro allI impI)
  fix w assume "holds X E S w"
  from interfere_holds [OF f this] have w1: "holds X E S (interfere e w)" .
  have "holds X E S (put_view d (interfere e w))" if "s (sql_now e w) (view (interfere e w)) = Inr (a, d)" for a d
    using ok [OF _ _ _ that, of "mail (interfere e w)"] w1 by (simp add: holds_def view_def put_view_def)
  then show "case stmt s e w of (Inr a, w') \<Rightarrow> holds X E S w' | (Inl x, w') \<Rightarrow> holds X E S w'"
    using w1 by (auto simp: stmt_def Let_def split: fault.split sum.split)
qed

lemma told_update:
  assumes u: "update_outbox sel f d = Inr (n, d')" and ev: "\<And>r. event_of (f r) = event_of r" and t: "told X d q"
    and pub: "\<And>r. r \<in> set (outbox d) \<Longrightarrow> sel r \<Longrightarrow> or_published (f r) \<noteq> None \<Longrightarrow>
      or_published r \<noteq> None \<or> delivered q (event_of r)"
  shows "told X d' q" and "events d' = events d"
proof -
  let ?g = "\<lambda>r. if sel r then f r else r"
  have d': "outbox d' = map ?g (outbox d)" using u by (auto simp: update_outbox_def bindE_Inr_iff update_row_Inr_iff)
  have g: "event_of (?g r) = event_of r" "or_id (?g r) = or_id r" for r using ev event_of_id [OF ev] by auto
  have "map or_id (outbox d') = map or_id (outbox d)" by (simp add: d' g)
  then have dist: "distinct (map or_id (outbox d'))" using t by (simp add: told_def)
  have "or_id r' \<in> X \<or> delivered q (event_of r')" if r': "r' \<in> set (outbox d')" "or_published r' \<noteq> None" for r'
  proof -
    obtain r where r: "r \<in> set (outbox d)" "r' = ?g r" using r'(1) by (auto simp: d')
    have "or_published r \<noteq> None \<or> delivered q (event_of r)" using pub [OF r(1)] r'(2) r(2) by (auto split: if_splits)
    then show ?thesis using t r(1) unfolding r(2) g told_def by blast
  qed
  then show "told X d' q" using dist by (simp add: told_def)
  show "events d' = events d" unfolding events_def d' set_map image_image g ..
qed

lemma holds_marking:
  assumes f: "fellows e X" and m: "m = bindM (stmt (\<lambda>now. update_outbox (sel now) (f now))) k"
    and k: "\<And>n. (\<exists>x. k n = throw x) \<or> (\<exists>y. k n = ret y)"
    and ev: "\<And>now r. event_of (f now r) = event_of r"
    and pub: "\<And>now d q r. E \<subseteq> events d \<Longrightarrow> \<forall>ev\<in>S. delivered q ev \<Longrightarrow> distinct (map or_id (outbox d)) \<Longrightarrow>
      r \<in> set (outbox d) \<Longrightarrow> sel now r \<Longrightarrow> or_published (f now r) \<noteq> None \<Longrightarrow>
      or_published r \<noteq> None \<or> delivered q (event_of r)"
  shows "triple e (holds X E S) (attempting m) (\<lambda>_. holds X E S) never"
  unfolding m
proof (rule triple_attempting, rule triple_bind)
  show "triple e (holds X E S) (stmt (\<lambda>now. update_outbox (sel now) (f now))) (\<lambda>_. holds X E S) (\<lambda>_. holds X E S)"
  proof (rule holds_stmt [OF f])
    fix now d q a d'
    assume t: "told X d q" and E: "E \<subseteq> events d" and S: "\<forall>ev\<in>S. delivered q ev"
      and u: "update_outbox (sel now) (f now) d = Inr (a, d')"
    have "distinct (map or_id (outbox d))" using t by (simp add: told_def)
    from told_update [OF u ev t pub [OF E S this]] E show "told X d' q \<and> E \<subseteq> events d'" by simp
  qed
  show "triple e (holds X E S) (k n) (\<lambda>_. holds X E S) (\<lambda>_. holds X E S)" for n
    using k [of n] by (auto intro: triple_rules)
qed

lemma event_of_unique:
  "distinct (map or_id (outbox d)) \<Longrightarrow> r \<in> set (outbox d) \<Longrightarrow> ev \<in> events d \<Longrightarrow> ob_ID ev = or_id r \<Longrightarrow> event_of r = ev"
  by (auto simp: events_def event_of_def outbox_record_def distinct_map dest: inj_onD)

lemma holds_MarkPublished:
  assumes f: "fellows e X" and ev: "ev \<in> E" "ev \<in> S"
  shows "triple e (holds X E S) (attempting (OutboxMarkPublished (ob_ID ev))) (\<lambda>_. holds X E S) never"
proof (rule holds_marking [OF f OutboxMarkPublished_def])
  fix now d q r
  assume a: "E \<subseteq> events d" "\<forall>ev\<in>S. delivered q ev" "distinct (map or_id (outbox d))" "r \<in> set (outbox d)" "or_id r = ob_ID ev"
  have "event_of r = ev" using event_of_unique [OF a(3,4)] a(1,5) ev(1) by auto
  then show "or_published r \<noteq> None \<or> delivered q (event_of r)" using a(2) ev(2) by simp
qed (auto simp: event_of_def outbox_record_def)

lemma holds_MarkFailed:
  assumes f: "fellows e X"
  shows "triple e (holds X E S) (attempting (OutboxMarkFailed i t)) (\<lambda>_. holds X E S) never"
  by (rule holds_marking [OF f OutboxMarkFailed_def]) (auto simp: event_of_def outbox_record_def)

lemma delivered_mono: "delivered q ev \<Longrightarrow> set (sent q) \<subseteq> set (sent q') \<Longrightarrow> delivered q' ev"
  unfolding delivered_def by blast

lemma told_mono: "told X d q \<Longrightarrow> set (sent q) \<subseteq> set (sent q') \<Longrightarrow> told X d q'"
  unfolding told_def using delivered_mono by blast

lemma holds_send:
  assumes "envelope_json ev = Inr body"
  shows "triple e (holds X E S) (attempting (SendMessage (ob_AggregateID ev) (ob_ID ev) body))
    (\<lambda>r. case r of Inl _ \<Rightarrow> holds X E S | Inr _ \<Rightarrow> holds X E (insert ev S)) never"
proof -
  let ?send = "\<lambda>q. q\<lparr>sent := sent q @ [\<lparr>m_group = ob_AggregateID ev, m_dedup = ob_ID ev, m_body = body\<rparr>]\<rparr>"
  have t: "told X d q \<Longrightarrow> told X d (?send q)" and m: "delivered q x \<Longrightarrow> delivered (?send q) x" for d q x
    by (auto elim: told_mono delivered_mono)
  have d: "delivered (?send q) ev" for q using assms by (simp add: delivered_def)
  show ?thesis
    using t m d by (auto simp: triple_def attempting_apply SendMessage_def queue_call_def holds_def split: fault.split)
qed

lemma holds_keep:
  "triple e (holds X E S) (count f) (\<lambda>_. holds X E S) never"
  "triple e (holds X E S) timeNow (\<lambda>_. holds X E S) never"
  "triple e (holds X E S) ctxDone (\<lambda>_. holds X E S) never"
  "triple e (holds X E S) (ret x) (\<lambda>_. holds X E S) never"
  by (simp_all add: triple_def count_def timeNow_def ctxDone_def holds_def)

lemma holds_publisherMarkFailed:
  assumes "fellows e X"
  shows "triple e (holds X E S) (publisherMarkFailed wm big rec) (\<lambda>_. holds X E S) never"
  unfolding publisherMarkFailed_def
  by (rule triple_bind [where Q' = "\<lambda>_. holds X E S"], simp add: holds_keep,
      rule triple_bind [OF holds_keep(2)], rule triple_bind [OF holds_MarkFailed [OF assms]], rule holds_keep)

lemma holds_publishOne:
  assumes f: "fellows e X" and ev: "rec\<lparr>ob_Attempts := 0\<rparr> \<in> E"
  shows "triple e (holds X E S) (publishOne wm big rec) (\<lambda>_. holds X E S) never"
proof (cases "envelope_json rec")
  case (Inl x)
  then show ?thesis using holds_publisherMarkFailed [OF f] by (simp add: publishOne_def)
next
  case (Inr body)
  let ?ev = "rec\<lparr>ob_Attempts := 0\<rparr>"
  have send: "triple e (holds X E S) (attempting (SendMessage (ob_AggregateID rec) (ob_ID rec) body))
      (\<lambda>r. case r of Inl _ \<Rightarrow> holds X E S | Inr _ \<Rightarrow> holds X E (insert ?ev S)) never"
    using holds_send [of ?ev body e X E S] Inr by simp
  have weak: "holds X E (insert ?ev S) w \<Longrightarrow> holds X E S w" for w by (simp add: holds_def)
  have mark: "triple e (holds X E (insert ?ev S)) (bindM (attempting (OutboxMarkPublished (ob_ID rec))) (\<lambda>_. ret ()))
      (\<lambda>_. holds X E S) never"
    using holds_MarkPublished [OF f ev, of "insert ?ev S"]
    by (auto intro!: triple_bind [where Q' = "\<lambda>_. holds X E (insert ?ev S)"] triple_ret weak)
  show ?thesis
    unfolding publishOne_def Inr sum.case
  proof (rule triple_bind [OF send])
    show "triple e (case r of Inl _ \<Rightarrow> holds X E S | Inr _ \<Rightarrow> holds X E (insert ?ev S))
        (case r of Inl _ \<Rightarrow> publisherMarkFailed wm big rec
          | Inr _ \<Rightarrow> bindM (attempting (OutboxMarkPublished (ob_ID rec))) (\<lambda>_. ret ()))
        (\<lambda>_. holds X E S) never" for r
      by (cases r) (simp_all add: holds_publisherMarkFailed [OF f] mark)
  qed
qed

lemma holds_publishAll:
  assumes f: "fellows e X" and ev: "\<forall>rec\<in>set recs. rec\<lparr>ob_Attempts := 0\<rparr> \<in> E"
  shows "triple e (holds X E S) (publishAll wm big recs) (\<lambda>_. holds X E S) never"
  using ev
proof (induction recs)
  case (Cons rec recs)
  show ?case
    unfolding publishAll.simps
    by (rule triple_bind [OF holds_keep(3)], rule triple_if, rule holds_keep,
        rule triple_bind [OF holds_publishOne [OF f]]) (use Cons in auto)
qed (simp add: holds_keep)

lemma holds_claim:
  assumes f: "fellows e X" and w: "holds X E S w" and c: "OutboxClaim wid limit ttl e w = (r, w')"
  shows "holds X E S w' \<and> (\<forall>recs. r = Inr recs \<longrightarrow> (\<forall>rec\<in>set recs. rec\<lparr>ob_Attempts := 0\<rparr> \<in> events (committed w')))"
proof -
  let ?s = "claim_rows (row_locked e (ticks w)) (arrange e (ticks w)) wid limit ttl"
  have upd: "told X d' q \<and> events d' = events d \<and> (\<forall>r\<in>set rows. event_of r \<in> events d')"
    if cl: "?s now d = Inr (rows, d')" and t: "told X d q" for now d rows d' q
  proof -
    have rows: "set rows \<subseteq> set (outbox d')"
      using cl f by (auto simp: claim_rows_def Let_def bindE_Inr_iff fellows_def arranges_def split: prod.splits)
    from cl obtain n where u: "update_outbox (\<lambda>r. or_id r \<in> set (claim_ids (row_locked e (ticks w)) limit ttl now (outbox d)))
        (\<lambda>r. r\<lparr>or_locked_by := Some wid, or_locked_at := Some now\<rparr>) d = Inr (n, d')"
      by (auto simp: claim_rows_def Let_def bindE_Inr_iff split: prod.splits)
    have "told X d' q" "events d' = events d"
      by (rule told_update [OF u _ t]; simp add: event_of_def outbox_record_def)+
    moreover have "event_of r \<in> events d'" if "r \<in> set rows" for r using rows that unfolding events_def by blast
    ultimately show ?thesis by blast
  qed
  have "triple e (holds X E S) (stmt ?s) (\<lambda>_. holds X E S) (\<lambda>_. holds X E S)"
    by (rule holds_stmt [OF f]) (use upd in blast)
  then have st: "case stmt ?s e w of (Inr a, w') \<Rightarrow> holds X E S w' | (Inl x, w') \<Rightarrow> holds X E S w'"
    using w by (simp add: triple_def)
  obtain q w1 where q: "stmt ?s e w = (q, w1)" by fastforce
  show ?thesis
  proof (cases q)
    case (Inl x)
    then show ?thesis using c q st by (auto simp: OutboxClaim_def bindM_apply)
  next
    case (Inr rows)
    let ?w1 = "interfere e w"
    have w1: "holds X E S ?w1" by (rule interfere_holds [OF f w])
    from q Inr obtain d where d: "?s (sql_now e w) (view ?w1) = Inr (rows, d)" "w1 = put_view d ?w1"
      by (auto simp: stmt_def Let_def split: fault.splits sum.splits)
    have w1': "session ?w1 = None" "told X (committed ?w1) (mail ?w1)" using w1 by (simp_all add: holds_def)
    then have "told X (view ?w1) (mail ?w1)" "committed w1 = d" using d(2) by (simp_all add: view_def put_view_def)
    with upd [OF d(1)] have "\<forall>r\<in>set rows. event_of r \<in> events (committed w1)" by blast
    then show ?thesis using c q st Inr by (auto simp: OutboxClaim_def bindM_apply event_of_def)
  qed
qed

lemma holds_publishPending:
  assumes f: "fellows e X"
  shows "triple e (holds X E {}) (publishPending wm big wid) (\<lambda>_. holds X E {}) never"
  unfolding triple_def
proof (intro allI impI)
  fix w assume w: "holds X E {} w"
  obtain r w1 where c: "OutboxClaim wid claimBatchSize lockTTL e w = (r, w1)" by fastforce
  note claimed = holds_claim [OF f w c]
  show "case publishPending wm big wid e w of (Inr a, w') \<Rightarrow> holds X E {} w' | (Inl x, w') \<Rightarrow> False"
  proof (cases r)
    case (Inl x)
    then show ?thesis using c claimed by (simp add: publishPending_def bindM_apply attempting_apply)
  next
    case (Inr recs)
    let ?E = "events (committed w1)"
    have "holds X ?E {} w1" using claimed by (simp add: holds_def)
    moreover have "triple e (holds X ?E {}) (publishAll wm big recs) (\<lambda>_. holds X ?E {}) never"
      using claimed Inr by (intro holds_publishAll [OF f]) simp
    moreover have "E \<subseteq> ?E" using claimed by (simp add: holds_def)
    ultimately show ?thesis
      using c Inr unfolding triple_def by (fastforce simp: publishPending_def bindM_apply attempting_apply holds_def split: sum.splits)
  qed
qed

lemma holds_publisherRun:
  assumes f: "fellows e X"
  shows "triple e (holds X E {}) (publisherRun n wm big wid) (\<lambda>_. holds X E {}) never"
proof (induction n)
  case (Suc n)
  show ?case
    unfolding publisherRun.simps
    by (rule triple_bind [OF holds_publishPending [OF f]], rule triple_bind [OF holds_keep(3)], rule triple_if,
        rule holds_keep, rule Suc)
qed (simp only: publisherRun.simps holds_keep)

section \<open>The backoff in seconds\<close>

lemma backoff_table:
  "list_all (\<lambda>n. (let d = push_bit n 1 * baseBackoff in if maxBackoff <s d \<or> d \<le>s 0 then maxBackoff else d) =
     (if n \<le> 8 then word_of_int (2 ^ n * 1000000000) else 300000000000)) [0..<63]"
  by (simp add: upt_rec Let_def baseBackoff_def maxBackoff_def word_sless_alt word_sle_eq)

text \<open>C22: The delay before an event is tried again doubles from one second to 256 and is five minutes
  from the ninth failure on: the product that overflows 64 bits never slips through the cap, and
  neither does what the processor makes of a power beyond the range (the least \<open>int64\<close> on amd64, the
  greatest on arm64).\<close>

theorem publishBackoff_exact:
  assumes "sint big = - (2 ^ 63) \<or> sint big = 2 ^ 63 - 1"
  shows "sint (publishBackoff big attempts) =
    (if 0 \<le> sint attempts \<and> sint attempts \<le> 8 then 2 ^ nat (sint attempts) * 1000000000 else 300000000000)"
proof -
  have big: "big = word_of_int (- (2 ^ 63)) \<or> big = word_of_int (2 ^ 63 - 1)"
    using assms unfolding sint64_eq_iff sint_of_int64 by (simp add: wrap64_def)
  consider (neg) "sint attempts < 0" | (far) "63 \<le> sint attempts" | (near) "0 \<le> sint attempts" "sint attempts < 63"
    by linarith
  then show ?thesis
  proof cases
    case neg
    then show ?thesis by (simp add: publishBackoff_def pow2_duration_def maxBackoff_def)
  next
    case far
    have "word_of_int (- (2 ^ 63)) * baseBackoff = 0" "word_of_int (2 ^ 63 - 1) * baseBackoff = - 1000000000"
      and "(- 1000000000 :: int64) \<le>s 0"
      by (simp_all add: baseBackoff_def word_sle_eq)
    then have "publishBackoff big attempts = maxBackoff"
      using far big by (auto simp: publishBackoff_def pow2_duration_def maxBackoff_def)
    then show ?thesis using far by (simp add: maxBackoff_def)
  next
    case near
    have n: "unat attempts = nat (sint attempts)"
      using near by (simp add: nat_uint_eq [symmetric] uint_sint take_bit_eq_mod)
    then have "unat attempts < 63" using near by simp
    then have "publishBackoff big attempts =
        (if unat attempts \<le> 8 then word_of_int (2 ^ unat attempts * 1000000000) else 300000000000)"
      using backoff_table near by (simp add: publishBackoff_def pow2_duration_def list_all_iff)
    moreover have "sint (word_of_int (2 ^ k * 1000000000) :: int64) = 2 ^ k * 1000000000" if "k \<le> 8" for k :: nat
    proof -
      have "(2::int) ^ k \<le> 2 ^ 8" using that by (intro power_increasing) auto
      then have "2 ^ k * (1000000000::int) < 2 ^ 63" by simp
      moreover have "- (2 ^ 63) \<le> 2 ^ k * (1000000000::int)" by (rule order_trans [of _ 0]) simp_all
      ultimately show ?thesis unfolding sint_of_int64 by (intro wrap64_id) (simp only: in_int64_def)
    qed
    ultimately show ?thesis using near n by auto
  qed
qed

theorem publishBackoff_exact_witness:
  "sint (publishBackoff (word_of_int (- (2 ^ 63))) 3) = 8000000000 \<and> sint (publishBackoff (word_of_int (- (2 ^ 63))) 70) = 300000000000"
proof -
  have "sint (word_of_int (- (2 ^ 63)) :: int64) = - (2 ^ 63)" by simp
  then show ?thesis
    using publishBackoff_exact [of "word_of_int (- (2 ^ 63))" 3] publishBackoff_exact [of "word_of_int (- (2 ^ 63))" 70] by simp
qed

section \<open>What the publisher guarantees\<close>

text \<open>C19: Whatever fails, statements or calls to the queue, and while other sessions commit, the
  publisher's loop never raises an error, no event of the outbox is lost or altered, and an event
  that is marked published was sent before, in the message that carries it under its id and its
  aggregate's group, unless it was published already or another publisher answers for it.\<close>

theorem Publisher_sends_before_marking:
  assumes "fellows e X" "session w = None" "told X (committed w) (mail w)"
    and "publisherRun n withMetrics big workerID e w = (r, w')"
  shows "r = Inr () \<and> events (committed w) \<subseteq> events (committed w') \<and> told X (committed w') (mail w')"
proof -
  have "holds X (events (committed w)) {} w" using assms(2,3) by (simp add: holds_def)
  then have "case publisherRun n withMetrics big workerID e w of
      (Inr a, w') \<Rightarrow> holds X (events (committed w)) {} w' | (Inl x, w') \<Rightarrow> False"
    using holds_publisherRun [OF assms(1)] by (simp add: triple_def)
  then show ?thesis using assms(4) by (simp add: holds_def split: sum.splits)
qed

text \<open>
  Both events are due. The first call to the queue fails, the second is taken: one of the two
  events is sent and marked, the other is neither, and waits for its next attempt.
\<close>

definition flaky_queue :: env where
  "flaky_queue = sample_env\<lparr>db_clock := \<lambda>_. 10, queue_fault := \<lambda>n. if n = 0 then Fails InfraBadData else NoFault\<rparr>"

lemma flaky_fellows: "fellows flaky_queue {}"
  by (auto simp: fellows_def flaky_queue_def sample_env_def arranges_def)

theorem Publisher_sends_before_marking_witness:
  "\<exists>w. publisherRun 1 True 0 ''A'' flaky_queue (world_of events_db) = (Inr (), w) \<and>
     map m_dedup (sent (mail w)) = [''o2''] \<and>
     map (\<lambda>r. (or_id r, or_published r \<noteq> None)) (outbox (committed w)) = [(''o1'', False), (''o2'', True)] \<and>
     events events_db \<subseteq> events (committed w) \<and> told {} (committed w) (mail w)"
proof -
  let ?run = "publisherRun 1 True 0 ''A'' flaky_queue (world_of events_db)"
  have t: "told {} (committed (world_of events_db)) (mail (world_of events_db))"
    by (simp add: told_def world_of_def events_db_def waiting_event_def)
  have s: "session (world_of events_db) = None" by (simp add: world_of_def)
  have "map m_dedup (sent (mail (snd ?run))) = [''o2'']" by code_simp
  moreover have "map (\<lambda>r. (or_id r, or_published r \<noteq> None)) (outbox (committed (snd ?run))) = [(''o1'', False), (''o2'', True)]" by code_simp
  moreover have "fst ?run = Inr () \<and> events events_db \<subseteq> events (committed (snd ?run)) \<and> told {} (committed (snd ?run)) (mail (snd ?run))"
    using Publisher_sends_before_marking [OF flaky_fellows s t, of 1 True 0 "''A''" "fst ?run" "snd ?run"] by (simp add: world_of_def)
  ultimately show ?thesis by (intro exI [of _ "snd ?run"]) (simp add: prod_eq_iff)
qed

section \<open>Delivery\<close>

text \<open>An environment in which everything works: no other session, no failure, a queue that answers, a context that goes on.\<close>

definition smooth :: "env \<Rightarrow> bool" where
  "smooth e \<longleftrightarrow> quiet e \<and> (\<forall>n. queue_fault e n = NoFault \<and> \<not> cancelled e n \<and> arranges (arrange e n))"

text \<open>The message that carries an event.\<close>

definition carries :: "OutboxRecord \<Rightarrow> message \<Rightarrow> bool" where
  "carries rec m \<longleftrightarrow> m_group m = ob_AggregateID rec \<and> m_dedup m = ob_ID rec \<and> envelope_json rec = Inr (m_body m)"

lemma update_outbox_runs:
  assumes "db_inv d" "\<And>r. outbox_check (f r) = outbox_check r" "\<And>r. or_id (f r) = or_id r"
    and "\<And>r r'. sel r \<Longrightarrow> or_id r' = or_id r \<Longrightarrow> sel r'"
  shows "update_outbox sel f d = Inr (length (filter sel (outbox d)), d\<lparr>outbox := map (\<lambda>r. if sel r then f r else r) (outbox d)\<rparr>)"
  using db_inv_tables(5) [OF assms(1)] assms(2,3) assms(4)
  by (auto simp: update_outbox_def bindE_Inr_iff update_row_Inr_iff table_ok_def list_all_iff outbox_clash_def)

lemma publishOne_smooth:
  assumes e: "smooth e" and w: "session w = None" "db_inv (committed w)"
    and env: "envelope_json rec = Inr body" and row: "r \<in> set (outbox (committed w))" "or_id r = ob_ID rec"
  shows "\<exists>w'. publishOne wm big rec e w = (Inr (), w') \<and> session w' = None \<and> db_inv (committed w') \<and>
    sent (mail w') = sent (mail w) @ [\<lparr>m_group = ob_AggregateID rec, m_dedup = ob_ID rec, m_body = body\<rparr>] \<and>
    outbox (committed w') = map (\<lambda>r. if or_id r = ob_ID rec
      then r\<lparr>or_published := Some (db_clock e (ticks w)), or_locked_by := None, or_locked_at := None\<rparr> else r) (outbox (committed w))"
proof -
  have q: "quiet e" "\<And>n. queue_fault e n = NoFault" using e by (simp_all add: smooth_def)
  let ?f = "\<lambda>now r. r\<lparr>or_published := Some now, or_locked_by := None, or_locked_at := None\<rparr>"
  let ?now = "db_clock e (ticks w)"
  let ?d = "(committed w)\<lparr>outbox := map (\<lambda>r. if or_id r = ob_ID rec then ?f ?now r else r) (outbox (committed w))\<rparr>"
  have u: "update_outbox (\<lambda>r. or_id r = ob_ID rec) (?f ?now) (committed w) =
      Inr (length (filter (\<lambda>r. or_id r = ob_ID rec) (outbox (committed w))), ?d)"
    by (rule update_outbox_runs [OF w(2)]) (auto simp: outbox_check_def)
  have n: "length (filter (\<lambda>r. or_id r = ob_ID rec) (outbox (committed w))) \<noteq> 0"
    using row by (auto simp: filter_empty_conv)
  have d: "db_inv ?d" using update_outbox_inv [OF w(2) u] by simp
  show ?thesis
    using q w env u n d
    by (simp add: publishOne_def SendMessage_def queue_call_def bindM_apply attempting_apply OutboxMarkPublished_def
        stmt_def Let_def sql_now_def view_def put_view_def)
qed

text \<open>How a run changes the rows of the outbox: the ids stay, what is published stays so, and the events in \<open>I\<close> are.\<close>

definition publishes :: "string set \<Rightarrow> outbox_row list \<Rightarrow> outbox_row list \<Rightarrow> bool" where
  "publishes I rs rs' \<longleftrightarrow> (\<exists>g. rs' = map g rs \<and> (\<forall>r. or_id (g r) = or_id r) \<and>
     (\<forall>r. or_id r \<in> I \<or> or_published r \<noteq> None \<longrightarrow> or_published (g r) \<noteq> None))"

lemma publishes_refl: "publishes {} rs rs"
  unfolding publishes_def by (intro exI [of _ "\<lambda>r. r"]) simp

lemma publishes_trans:
  assumes "publishes I rs rs'" "publishes J rs' rs''"
  shows "publishes (I \<union> J) rs rs''"
proof -
  obtain g h where g: "rs' = map g rs" "\<And>r. or_id (g r) = or_id r" "\<And>r. or_id r \<in> I \<or> or_published r \<noteq> None \<Longrightarrow> or_published (g r) \<noteq> None"
    and h: "rs'' = map h rs'" "\<And>r. or_id (h r) = or_id r" "\<And>r. or_id r \<in> J \<or> or_published r \<noteq> None \<Longrightarrow> or_published (h r) \<noteq> None"
    using assms unfolding publishes_def by blast
  have "or_published (h (g r)) \<noteq> None" if "or_id r \<in> I \<union> J \<or> or_published r \<noteq> None" for r
    using that g(2,3) [of r] h(3) [of "g r"] by auto
  then show ?thesis unfolding publishes_def by (intro exI [of _ "\<lambda>r. h (g r)"]) (simp add: g h)
qed

lemma publishes_ids: "publishes I rs rs' \<Longrightarrow> or_id ` set rs' = or_id ` set rs"
  by (auto simp: publishes_def image_image)

lemma publishAll_smooth:
  assumes e: "smooth e"
  shows "session w = None \<Longrightarrow> db_inv (committed w) \<Longrightarrow>
    \<forall>rec\<in>set recs. (\<exists>body. envelope_json rec = Inr body) \<and> ob_ID rec \<in> or_id ` set (outbox (committed w)) \<Longrightarrow>
    \<exists>w' ms. publishAll wm big recs e w = (Inr (), w') \<and> sent (mail w') = sent (mail w) @ ms \<and>
      list_all2 carries recs ms \<and> publishes (ob_ID ` set recs) (outbox (committed w)) (outbox (committed w'))"
proof (induction recs arbitrary: w)
  case Nil
  then show ?case by (simp add: publishes_refl)
next
  case (Cons rec recs)
  let ?I = "or_id ` set (outbox (committed w))"
  obtain body r where b: "envelope_json rec = Inr body" and r: "r \<in> set (outbox (committed w))" "or_id r = ob_ID rec"
    using Cons.prems(3) by auto
  obtain w1 where w1: "publishOne wm big rec e w = (Inr (), w1)" "session w1 = None" "db_inv (committed w1)"
      "sent (mail w1) = sent (mail w) @ [\<lparr>m_group = ob_AggregateID rec, m_dedup = ob_ID rec, m_body = body\<rparr>]"
      "outbox (committed w1) = map (\<lambda>r. if or_id r = ob_ID rec then r\<lparr>or_published := Some (db_clock e (ticks w)),
         or_locked_by := None, or_locked_at := None\<rparr> else r) (outbox (committed w))"
    using publishOne_smooth [OF e Cons.prems(1,2) b r, of wm big] by blast
  have p1: "publishes {ob_ID rec} (outbox (committed w)) (outbox (committed w1))"
    unfolding publishes_def w1(5) by (rule exI, rule conjI [OF refl]) auto
  have "\<forall>rec\<in>set recs. (\<exists>body. envelope_json rec = Inr body) \<and> ob_ID rec \<in> or_id ` set (outbox (committed w1))"
    using Cons.prems(3) publishes_ids [OF p1] by simp
  from Cons.IH [OF w1(2,3) this] obtain w' ms where
    w': "publishAll wm big recs e w1 = (Inr (), w')" "sent (mail w') = sent (mail w1) @ ms"
      "list_all2 carries recs ms" "publishes (ob_ID ` set recs) (outbox (committed w1)) (outbox (committed w'))"
    by blast
  have carried: "carries rec \<lparr>m_group = ob_AggregateID rec, m_dedup = ob_ID rec, m_body = body\<rparr>"
    using b by (simp add: carries_def)
  have "publishes (ob_ID ` set (rec # recs)) (outbox (committed w)) (outbox (committed w'))"
    using publishes_trans [OF p1 w'(4)] by simp
  then show ?case
    using e w1(1,4) w'(1-3) carried by (simp add: bindM_apply ctxDone_def smooth_def) 
qed

lemma outbox_record_simps [simp]:
  "ob_ID (outbox_record r) = or_id r"
  "outbox_record (r\<lparr>or_locked_by := a, or_locked_at := b\<rparr>) = outbox_record r"
  by (simp_all add: outbox_record_def)

lemma claim_smooth:
  assumes e: "smooth e" and w: "session w = None" "db_inv (committed w)"
    and ids: "claimed = claim_ids (row_locked e (ticks w)) limit ttl (db_clock e (ticks w)) (outbox (committed w))"
  shows "\<exists>w' recs. OutboxClaim wid limit ttl e w = (Inr recs, w') \<and> session w' = None \<and> db_inv (committed w') \<and>
    mail w' = mail w \<and> publishes {} (outbox (committed w)) (outbox (committed w')) \<and>
    length recs = card (set claimed) \<and> ob_ID ` set recs = set claimed \<and> set recs \<subseteq> outbox_record ` set (outbox (committed w))"
proof -
  let ?f = "\<lambda>r. r\<lparr>or_locked_by := Some wid, or_locked_at := Some (db_clock e (ticks w))\<rparr>"
  let ?g = "\<lambda>r. if or_id r \<in> set claimed then ?f r else r"
  let ?os = "outbox (committed w)" and ?ar = "arrange e (ticks w)"
  let ?d = "(committed w)\<lparr>outbox := map ?g ?os\<rparr>" and ?rows = "?ar (filter (\<lambda>r. or_id r \<in> set claimed) (map ?g ?os))"
  have q: "quiet e" and ar: "set (?ar xs) = set xs" "length (?ar xs) = length xs" for xs
    using e by (simp_all add: smooth_def arranges_def)
  have "update_outbox (\<lambda>r. or_id r \<in> set claimed) ?f (committed w) =
      Inr (length (filter (\<lambda>r. or_id r \<in> set claimed) ?os), ?d)"
    by (rule update_outbox_runs [OF w(2)]) (auto simp: outbox_check_def)
  then have c: "claim_rows (row_locked e (ticks w)) ?ar wid limit ttl (db_clock e (ticks w)) (committed w) = Inr (?rows, ?d)"
    by (simp add: claim_rows_def Let_def ids [symmetric])
  have claim: "OutboxClaim wid limit ttl e w = (Inr (map outbox_record ?rows), w\<lparr>committed := ?d, ticks := Suc (ticks w)\<rparr>)"
    using q w c by (simp add: OutboxClaim_def bindM_apply stmt_def Let_def sql_now_def view_def put_view_def)
  have hit: "filter (\<lambda>r. or_id r \<in> set claimed) (map ?g ?os) = map ?f (filter (\<lambda>r. or_id r \<in> set claimed) ?os)"
    by (simp add: filter_map o_def if_distrib cong: if_cong)
  have ids_in: "set claimed \<subseteq> or_id ` set ?os" unfolding ids by (auto dest!: set_claim_ids)
  then have img: "or_id ` set (filter (\<lambda>r. or_id r \<in> set claimed) ?os) = set claimed" by auto
  have "distinct (map or_id ?os)"
    by (rule distinct_ids [OF db_inv_tables(5) [OF w(2)]])
  then have "distinct (map or_id (filter (\<lambda>r. or_id r \<in> set claimed) ?os))" by (rule distinct_map_filter)
  from distinct_card [OF this] have "length (filter (\<lambda>r. or_id r \<in> set claimed) ?os) = card (set claimed)"
    using img by simp
  then have len: "length (map outbox_record ?rows) = card (set claimed)" by (simp add: ar hit)
  have set_recs: "set (map outbox_record ?rows) = outbox_record ` set (filter (\<lambda>r. or_id r \<in> set claimed) ?os)"
    by (simp add: ar hit image_image)
  have "ob_ID ` set (map outbox_record ?rows) = set claimed" unfolding set_recs image_image using img by simp
  moreover have "publishes {} ?os (outbox ?d)" unfolding publishes_def by (intro exI [of _ ?g]) simp
  moreover have "db_inv ?d" using claim_rows_inv [OF w(2) c] by blast
  ultimately show ?thesis using claim len set_recs w(1) by auto
qed

text \<open>C20: When everything works, one turn of the publisher delivers its batch: each event it claims is sent
  once, in a message that carries it, and is marked published.\<close>

theorem publishPending_delivers:
  assumes "smooth e" "session w = None" "db_inv (committed w)"
    and "\<forall>r\<in>set (outbox (committed w)). \<exists>body. envelope_json (outbox_record r) = Inr body"
    and "claimed = claim_ids (row_locked e (ticks w)) claimBatchSize lockTTL (db_clock e (ticks w)) (outbox (committed w))"
  shows "\<exists>w' ms. publishPending withMetrics big workerID e w = (Inr (), w') \<and> sent (mail w') = sent (mail w) @ ms \<and>
    length ms = card (set claimed) \<and> m_dedup ` set ms = set claimed \<and>
    (\<forall>m\<in>set ms. \<exists>r\<in>set (outbox (committed w)). carries (outbox_record r) m) \<and>
    (\<forall>r\<in>set (outbox (committed w')). or_id r \<in> set claimed \<longrightarrow> or_published r \<noteq> None)"
proof -
  obtain w1 recs where c: "OutboxClaim workerID claimBatchSize lockTTL e w = (Inr recs, w1)" "session w1 = None"
      "db_inv (committed w1)" "mail w1 = mail w" "publishes {} (outbox (committed w)) (outbox (committed w1))"
      "length recs = card (set claimed)" "ob_ID ` set recs = set claimed"
      "set recs \<subseteq> outbox_record ` set (outbox (committed w))"
    using claim_smooth [OF assms(1-3,5)] by metis
  have "\<forall>rec\<in>set recs. (\<exists>body. envelope_json rec = Inr body) \<and> ob_ID rec \<in> or_id ` set (outbox (committed w1))"
    using c(7,8) assms(4) publishes_ids [OF c(5)] by (force simp: image_iff)
  from publishAll_smooth [OF assms(1) c(2,3) this, of withMetrics big] obtain w' ms where
    p: "publishAll withMetrics big recs e w1 = (Inr (), w')" "sent (mail w') = sent (mail w1) @ ms"
      "list_all2 carries recs ms" "publishes (ob_ID ` set recs) (outbox (committed w1)) (outbox (committed w'))"
    by blast
  have "map m_dedup ms = map ob_ID recs" using p(3) by induction (auto simp: carries_def)
  then have "m_dedup ` set ms = set claimed" using c(7) by (metis set_map)
  moreover have "length ms = card (set claimed)" using list_all2_lengthD [OF p(3)] c(6) by simp
  moreover have "\<exists>r\<in>set (outbox (committed w)). carries (outbox_record r) m" if "m \<in> set ms" for m
    using p(3) that c(8) by (fastforce simp: list_all2_conv_all_nth in_set_conv_nth)
  moreover have "\<forall>r\<in>set (outbox (committed w')). or_id r \<in> set claimed \<longrightarrow> or_published r \<noteq> None"
    using p(4) c(7) by (auto simp: publishes_def)
  ultimately show ?thesis using p(1,2) c(1,4) by (simp add: publishPending_def bindM_apply attempting_apply)
qed

definition late_env :: env where
  "late_env = sample_env\<lparr>db_clock := \<lambda>_. 10\<rparr>"

lemma late_smooth: "smooth late_env"
  by (simp add: smooth_def quiet_def late_env_def sample_env_def arranges_id)

theorem publishPending_delivers_witness:
  "\<exists>w' ms. publishPending True 0 ''A'' late_env (world_of events_db) = (Inr (), w') \<and>
     m_dedup ` set ms = {''o1'', ''o2''} \<and> sent (mail w') = ms"
proof -
  let ?w = "world_of events_db"
  have s: "session ?w = None" and d: "db_inv (committed ?w)" by (simp_all add: world_of_def events_db_inv)
  have "fst (civil 0) = 1970" by code_simp
  then have "envelope_json (outbox_record (waiting_event i t)) \<in> range Inr" if "0 \<le> t" "t < 10" for i t
    using that by (simp add: envelope_json_def outbox_record_def waiting_event_def div_pos_pos_trivial del: One_nat_def)
  then have b: "\<forall>r\<in>set (outbox (committed ?w)). \<exists>body. envelope_json (outbox_record r) = Inr body"
    by (auto simp: events_db_def world_of_def image_iff)
  have c: "[''o2'', ''o1''] = claim_ids (row_locked late_env (ticks ?w)) claimBatchSize lockTTL (db_clock late_env (ticks ?w))
      (outbox (committed ?w))"
    by code_simp
  have m: "sent (mail ?w) = []" by (simp add: world_of_def)
  from publishPending_delivers [OF late_smooth s d b c, of True 0 "''A''"] m show ?thesis by auto
qed

end
