(* ===== verification/Lifecycle.thy ===== *)
theory Lifecycle
  imports Worker Consumer Publisher
begin

text \<open>
  The background loops as goroutines: each step of the publisher, the consumer and the worker of
  pending references with the context that stops it, and the hooks by which the application starts and
  stops it. The worker's steps include those of the goroutines it spawns, in any order. Where the loops
  of the other theories take the cancellation of the context from an oracle, here it is the state the
  hook \<open>OnStop\<close> sets.
\<close>

section \<open>Goroutines and their hooks\<close>

text \<open>
  The state of a loop: \<open>OnStart\<close> has run, the context is cancelled, \<open>done\<close> is closed, what \<open>OnStop\<close>
  is doing, and where the goroutine stands.
\<close>

datatype stopping = NotStopping | Selecting | Stopped "infra_err option"

record 'p background =
  bg_started :: bool
  bg_cancelled :: bool
  bg_done :: bool
  bg_stop :: stopping
  bg_at :: 'p

text \<open>
  A step of the goroutine, given its choice, whether the context is cancelled and where it stands;
  \<open>None\<close> when it cannot make that choice. The other events are those of the two hooks: the call of
  \<open>OnStop\<close> cancels the context, and its \<open>select\<close> returns nil once \<open>done\<close> is closed, which is the
  first deferred call of the goroutine, or the error of its own context at any time. The application
  calls \<open>OnStop\<close> once, and only after \<open>OnStart\<close>.
\<close>

type_synonym ('c, 'p) goroutine = "bool \<Rightarrow> 'c \<Rightarrow> 'p \<Rightarrow> env \<Rightarrow> world \<Rightarrow> ('p \<times> world) option"

datatype 'c bg_event = OnStart | Step 'c | Close | OnStop | SelectDone | SelectTimeout infra_err

fun bg_step :: "('c, 'p) goroutine \<Rightarrow> ('p \<Rightarrow> bool) \<Rightarrow> 'c bg_event \<Rightarrow> env \<Rightarrow> 'p background \<times> world \<Rightarrow> ('p background \<times> world) option" where
  "bg_step next returned OnStart e (b, w) = (if bg_started b then None else Some (b\<lparr>bg_started := True\<rparr>, w))"
| "bg_step next returned (Step c) e (b, w) =
     (if \<not> bg_started b then None
      else map_option (\<lambda>(p, w'). (b\<lparr>bg_at := p\<rparr>, w')) (next (bg_cancelled b) c (bg_at b) e w))"
| "bg_step next returned Close e (b, w) =
     (if bg_started b \<and> returned (bg_at b) \<and> \<not> bg_done b then Some (b\<lparr>bg_done := True\<rparr>, w) else None)"
| "bg_step next returned OnStop e (b, w) =
     (if bg_started b \<and> bg_stop b = NotStopping then Some (b\<lparr>bg_cancelled := True, bg_stop := Selecting\<rparr>, w) else None)"
| "bg_step next returned SelectDone e (b, w) =
     (if bg_stop b = Selecting \<and> bg_done b then Some (b\<lparr>bg_stop := Stopped None\<rparr>, w) else None)"
| "bg_step next returned (SelectTimeout x) e (b, w) =
     (if bg_stop b = Selecting then Some (b\<lparr>bg_stop := Stopped (Some x)\<rparr>, w) else None)"

definition constructed :: "'p \<Rightarrow> 'p background" where
  "constructed p = \<lparr>bg_started = False, bg_cancelled = False, bg_done = False, bg_stop = NotStopping, bg_at = p\<rparr>"

section \<open>The publisher\<close>

text \<open>A ticker and a cancelled context may be ready together; \<open>select\<close> takes either.\<close>

datatype select_branch = CtxDone | Ticked

datatype publisher_at = Claiming | Publishing "OutboxRecord list" | PublisherSelect | PublisherReturned

fun publisher_next :: "bool \<Rightarrow> int64 \<Rightarrow> string \<Rightarrow> (select_branch, publisher_at) goroutine" where
  "publisher_next withMetrics big workerID c br Claiming e w =
     (case OutboxClaim workerID claimBatchSize lockTTL e w of
        (Inl _, w') \<Rightarrow> Some (PublisherSelect, w')
      | (Inr records, w') \<Rightarrow> Some (Publishing records, w'))"
| "publisher_next withMetrics big workerID c br (Publishing []) e w = Some (PublisherSelect, w)"
| "publisher_next withMetrics big workerID c br (Publishing (rec # recs)) e w =
     (if c then Some (PublisherSelect, w) else Some (Publishing recs, snd (publishOne withMetrics big rec e w)))"
| "publisher_next withMetrics big workerID c br PublisherSelect e w =
     (case br of CtxDone \<Rightarrow> if c then Some (PublisherReturned, w) else None | Ticked \<Rightarrow> Some (Claiming, w))"
| "publisher_next withMetrics big workerID c br PublisherReturned e w = None"

section \<open>The consumer\<close>

datatype consumer_at = ConsumerTop | Receiving | Consuming "inMessage list" | ConsumerReturned

fun consumer_next :: "UseCase \<Rightarrow> bool \<Rightarrow> (unit, consumer_at) goroutine" where
  "consumer_next uc withMetrics c u ConsumerTop e w = Some (if c then ConsumerReturned else Receiving, w)"
| "consumer_next uc withMetrics c u Receiving e w =
     (case ReceiveMessage e w of
        (Inl _, w') \<Rightarrow> Some (ConsumerTop, w')
      | (Inr ms, w') \<Rightarrow> Some (Consuming ms, w'))"
| "consumer_next uc withMetrics c u (Consuming []) e w = Some (ConsumerTop, w)"
| "consumer_next uc withMetrics c u (Consuming (m # ms)) e w =
     (if c then Some (ConsumerTop, snd (releaseVisibility (m # ms) e w))
      else case handle uc withMetrics (im_Body m) (im_MessageId m) e w of
        (Inl err, w') \<Rightarrow>
          Some (Consuming ms, if err = InfraErr InfraContextCanceled then snd (releaseVisibility [m] e w') else w')
      | (Inr _, w') \<Rightarrow> Some (Consuming ms, snd (DeleteMessage (im_Receipt m) e w')))"
| "consumer_next uc withMetrics c u ConsumerReturned e w = None"

section \<open>The worker of pending references\<close>

text \<open>
  \<open>processPending\<close> spawns one goroutine per transaction and waits for the batch, then
  \<open>expireStale\<close> does the same. When the context has ended between two of them it returns at once,
  without waiting: \<open>wk_left\<close> are the goroutines of such batches.
\<close>

datatype worker_job = ResumeJob string | ExpireJob string

datatype worker_pc = Listing | Resuming "string list" | WaitResumed | Expiring | ExpiringAll "string list"
  | WaitExpired | WorkerSelect | WorkerReturned

record worker_at =
  wk_pc :: worker_pc
  wk_batch :: "worker_job list"
  wk_left :: "worker_job list"

primrec run_job :: "worker_job \<Rightarrow> env \<Rightarrow> world \<Rightarrow> world" where
  "run_job (ResumeJob i) e w = snd (ResumePendingReference i e w)"
| "run_job (ExpireJob i) e w = snd (ExpirePendingReference i e w)"

definition abandon :: "worker_at \<Rightarrow> worker_at" where
  "abandon p = p\<lparr>wk_pc := WorkerSelect, wk_batch := [], wk_left := wk_left p @ wk_batch p\<rparr>"

text \<open>\<open>MainStep\<close> is a step of \<open>run\<close> itself, with its branch where it selects; the others run the n-th spawned goroutine.\<close>

datatype worker_choice = MainStep select_branch | BatchJob nat | LeftJob nat

fun worker_main :: "int64 \<Rightarrow> bool \<Rightarrow> select_branch \<Rightarrow> worker_pc \<Rightarrow> worker_at \<Rightarrow> env \<Rightarrow> world \<Rightarrow> (worker_at \<times> world) option" where
  "worker_main ttl c br Listing p e w =
     (case TxListPendingReferenceIDs 32 e w of
        (Inl _, w') \<Rightarrow> Some (p\<lparr>wk_pc := WorkerSelect\<rparr>, w')
      | (Inr is, w') \<Rightarrow> Some (p\<lparr>wk_pc := Resuming is\<rparr>, w'))"
| "worker_main ttl c br (Resuming []) p e w = Some (p\<lparr>wk_pc := WaitResumed\<rparr>, w)"
| "worker_main ttl c br (Resuming (i # is)) p e w =
     (if c then Some (abandon p, w) else Some (p\<lparr>wk_batch := wk_batch p @ [ResumeJob i], wk_pc := Resuming is\<rparr>, w))"
| "worker_main ttl c br WaitResumed p e w = (if wk_batch p = [] then Some (p\<lparr>wk_pc := Expiring\<rparr>, w) else None)"
| "worker_main ttl c br Expiring p e w =
     (if ttl \<le>s 0 then Some (p\<lparr>wk_pc := WorkerSelect\<rparr>, w)
      else case bindM timeNow (\<lambda>now. TxListStalePendingReferenceIDs (now + sint (- ttl)) 32) e w of
        (Inl _, w') \<Rightarrow> Some (p\<lparr>wk_pc := WorkerSelect\<rparr>, w')
      | (Inr is, w') \<Rightarrow> Some (p\<lparr>wk_pc := ExpiringAll is\<rparr>, w'))"
| "worker_main ttl c br (ExpiringAll []) p e w = Some (p\<lparr>wk_pc := WaitExpired\<rparr>, w)"
| "worker_main ttl c br (ExpiringAll (i # is)) p e w =
     (if c then Some (abandon p, w) else Some (p\<lparr>wk_batch := wk_batch p @ [ExpireJob i], wk_pc := ExpiringAll is\<rparr>, w))"
| "worker_main ttl c br WaitExpired p e w = (if wk_batch p = [] then Some (p\<lparr>wk_pc := WorkerSelect\<rparr>, w) else None)"
| "worker_main ttl c br WorkerSelect p e w =
     (case br of CtxDone \<Rightarrow> if c then Some (p\<lparr>wk_pc := WorkerReturned\<rparr>, w) else None
      | Ticked \<Rightarrow> Some (p\<lparr>wk_pc := Listing\<rparr>, w))"
| "worker_main ttl c br WorkerReturned p e w = None"

definition drop_nth :: "nat \<Rightarrow> 'a list \<Rightarrow> 'a list" where
  "drop_nth n xs = take n xs @ drop (Suc n) xs"

fun worker_next :: "int64 \<Rightarrow> (worker_choice, worker_at) goroutine" where
  "worker_next ttl c (MainStep br) p e w = worker_main ttl c br (wk_pc p) p e w"
| "worker_next ttl c (BatchJob n) p e w =
     (if n < length (wk_batch p) then Some (p\<lparr>wk_batch := drop_nth n (wk_batch p)\<rparr>, run_job (wk_batch p ! n) e w) else None)"
| "worker_next ttl c (LeftJob n) p e w =
     (if n < length (wk_left p) then Some (p\<lparr>wk_left := drop_nth n (wk_left p)\<rparr>, run_job (wk_left p ! n) e w) else None)"

text \<open>The three loops with their hooks.\<close>

definition publisher_step :: "bool \<Rightarrow> int64 \<Rightarrow> string \<Rightarrow> select_branch bg_event \<Rightarrow> env \<Rightarrow> publisher_at background \<times> world
    \<Rightarrow> (publisher_at background \<times> world) option" where
  "publisher_step withMetrics big workerID = bg_step (publisher_next withMetrics big workerID) (\<lambda>p. p = PublisherReturned)"

definition consumer_step :: "UseCase \<Rightarrow> bool \<Rightarrow> unit bg_event \<Rightarrow> env \<Rightarrow> consumer_at background \<times> world
    \<Rightarrow> (consumer_at background \<times> world) option" where
  "consumer_step uc withMetrics = bg_step (consumer_next uc withMetrics) (\<lambda>p. p = ConsumerReturned)"

definition worker_step :: "int64 \<Rightarrow> worker_choice bg_event \<Rightarrow> env \<Rightarrow> worker_at background \<times> world
    \<Rightarrow> (worker_at background \<times> world) option" where
  "worker_step ttl = bg_step (worker_next ttl) (\<lambda>p. wk_pc p = WorkerReturned)"

section \<open>Histories of a loop\<close>

text \<open>The states a loop passes through; between two of its events other sessions may commit.\<close>

inductive history :: "('a \<Rightarrow> env \<Rightarrow> 's \<times> world \<Rightarrow> ('s \<times> world) option) \<Rightarrow> env \<Rightarrow> 's \<times> world \<Rightarrow> 's \<times> world \<Rightarrow> bool"
  for step e s0 where
  history_start: "history step e s0 s0"
| history_event: "history step e s0 s \<Longrightarrow> step a e s = Some s' \<Longrightarrow> history step e s0 s'"
| history_others: "history step e s0 (s, w) \<Longrightarrow> history step e s0 (s, interfere e w)"

text \<open>A goroutine that keeps the books, and one that does nothing once its main function has returned.\<close>

locale goroutine =
  fixes "next" :: "('c, 'p) goroutine" and returned :: "'p \<Rightarrow> bool"
  assumes keeps: "rely e \<Longrightarrow> outside g w \<Longrightarrow> next c ch p e w = Some (p', w') \<Longrightarrow> outside g w'"
begin

lemma step_keeps:
  assumes "rely e" "outside g (snd s)" "bg_step next returned a e s = Some s'"
  shows "outside g (snd s')"
  using assms by (cases s; cases a) (auto split: if_splits dest: keeps)

lemma history_keeps:
  assumes "history (bg_step next returned) e s0 s" "rely e" "outside g (snd s0)"
  shows "outside g (snd s)"
  using assms by induction (auto intro: step_keeps interfere_outside)

end

text \<open>What the hooks know of the goroutine.\<close>

definition hooks_ok :: "('p \<Rightarrow> bool) \<Rightarrow> 'p background \<Rightarrow> bool" where
  "hooks_ok returned b \<longleftrightarrow> (bg_done b \<longrightarrow> returned (bg_at b)) \<and> (bg_stop b = Stopped None \<longrightarrow> bg_done b) \<and>
     (bg_stop b \<noteq> NotStopping \<longrightarrow> bg_started b \<and> bg_cancelled b)"

locale single_goroutine = goroutine +
  assumes halts: "returned p \<Longrightarrow> next c ch p e w = None"
begin

lemma step_hooks_ok:
  assumes "hooks_ok returned (fst s)" "bg_step next returned a e s = Some s'"
  shows "hooks_ok returned (fst s')"
  using assms by (cases s; cases a) (auto simp: hooks_ok_def halts split: if_splits)

lemma history_hooks_ok:
  assumes "history (bg_step next returned) e (constructed p, w0) s"
  shows "hooks_ok returned (fst s)"
  using assms
proof (induction rule: history.induct)
  case history_start
  then show ?case by (simp add: hooks_ok_def constructed_def)
qed (auto intro: step_hooks_ok)

text \<open>Once \<open>OnStop\<close> has returned nil, the loop does nothing more.\<close>

lemma stopped_is_quiet:
  assumes "history (bg_step next returned) e (constructed p, w0) (b, w)" "bg_stop b = Stopped None"
  shows "bg_step next returned a e' (b, w') = None"
proof -
  have "hooks_ok returned b" using history_hooks_ok [OF assms(1)] by simp
  then have "returned (bg_at b)" "bg_done b" "bg_started b" using assms(2) by (auto simp: hooks_ok_def)
  then show ?thesis using assms(2) halts by (cases a) simp_all
qed

end

section \<open>The loops keep the books\<close>

lemma keeper_outside: "book_keeper m \<Longrightarrow> rely e \<Longrightarrow> outside g w \<Longrightarrow> outside g (snd (m e w))"
  by (rule book_keeper.keeps_outside)

lemma keeper_leaves: "book_keeper m \<Longrightarrow> m e w = (r, w') \<Longrightarrow> rely e \<Longrightarrow> outside g w \<Longrightarrow> outside g w'"
  using keeper_outside [of m e g w] by simp

lemma keeper_queue: "book_keeper (DeleteMessage receipt)"
  unfolding DeleteMessage_def by (intro keeper_intros)

interpretation publisherGo: single_goroutine "publisher_next withMetrics big workerID" "\<lambda>p. p = PublisherReturned"
  for withMetrics big workerID
proof
  fix e g w c br p p' w'
  assume "rely e" "outside g w" "publisher_next withMetrics big workerID c br p e w = Some (p', w')"
  then show "outside g w'"
    by (cases "(withMetrics, big, workerID, c, br, p, e, w)" rule: publisher_next.cases)
      (auto split: prod.splits sum.splits if_splits select_branch.splits
        intro: keeper_leaves [OF keeper_OutboxClaim] keeper_outside [OF keeper_publishOne])
qed simp

interpretation consumerGo: single_goroutine "consumer_next uc withMetrics" "\<lambda>p. p = ConsumerReturned"
  for uc withMetrics
proof
  fix e g w c u p p' w'
  assume a: "rely e" "outside g w" "consumer_next uc withMetrics c u p e w = Some (p', w')"
  note k = keeper_leaves [OF keeper_handle _ a(1,2)] keeper_leaves [OF keeper_Receive _ a(1,2)]
    keeper_outside [OF keeper_release a(1)] keeper_outside [OF keeper_queue a(1)]
  show "outside g w'"
    using a(2,3) by (cases "(uc, withMetrics, c, u, p, e, w)" rule: consumer_next.cases)
      (auto split: prod.splits sum.splits if_splits dest: k(1,2) intro: k(3,4)
        simp del: releaseVisibility.simps)
qed simp

lemma run_job_outside: "rely e \<Longrightarrow> outside g w \<Longrightarrow> outside g (run_job j e w)"
  by (cases j) (simp_all add: resumeCall.keeps_outside expireCall.keeps_outside)

lemma worker_main_outside:
  assumes a: "rely e" "outside g w" and s: "worker_main ttl c br pc p e w = Some (p', w')"
  shows "outside g w'"
proof -
  have "book_keeper (bindM timeNow (\<lambda>now. TxListStalePendingReferenceIDs (now + sint (- ttl)) 32))"
    by (intro keeper_intros)
  note k = keeper_leaves [OF this _ a] keeper_leaves [OF keeper_lists(1) _ a]
  show ?thesis
    using a(2) s by (cases "(ttl, c, br, pc, p, e, w)" rule: worker_main.cases)
      (auto split: prod.splits sum.splits if_splits select_branch.splits dest: k)
qed

interpretation workerGo: goroutine "worker_next ttl" "\<lambda>p. wk_pc p = WorkerReturned" for ttl
proof
  fix e g w c ch p p' w'
  assume "rely e" "outside g w" "worker_next ttl c ch p e w = Some (p', w')"
  then show "outside g w'"
    by (cases ch) (auto split: if_splits intro: run_job_outside worker_main_outside)
qed

section \<open>What stopping means\<close>

text \<open>Every step of the worker, once its main function has returned, is one of a goroutine nobody waits for.\<close>

definition worker_rest :: "worker_at \<Rightarrow> bool" where
  "worker_rest p \<longleftrightarrow> (wk_pc p \<in> {Listing, Expiring, WorkerSelect, WorkerReturned} \<longrightarrow> wk_batch p = [])"

lemma worker_main_rest: "worker_rest p \<Longrightarrow> worker_main ttl c br (wk_pc p) p e w = Some (p', w') \<Longrightarrow> worker_rest p'"
  by (cases "(ttl, c, br, wk_pc p, p, e, w)" rule: worker_main.cases)
    (auto simp: worker_rest_def abandon_def split: prod.splits sum.splits if_splits select_branch.splits)

lemma worker_next_rest: "worker_rest p \<Longrightarrow> worker_next ttl c ch p e w = Some (p', w') \<Longrightarrow> worker_rest p'"
proof (cases ch)
  case (BatchJob n)
  assume "worker_rest p" "worker_next ttl c ch p e w = Some (p', w')"
  then show ?thesis using BatchJob by (auto simp: worker_rest_def drop_nth_def split: if_splits)
next
  case (LeftJob n)
  assume "worker_rest p" "worker_next ttl c ch p e w = Some (p', w')"
  then show ?thesis using LeftJob by (auto simp: worker_rest_def split: if_splits)
qed (auto intro: worker_main_rest)

lemma worker_step_ok:
  assumes "hooks_ok (\<lambda>p. wk_pc p = WorkerReturned) (fst s) \<and> worker_rest (bg_at (fst s))" "worker_step ttl a e s = Some s'"
  shows "hooks_ok (\<lambda>p. wk_pc p = WorkerReturned) (fst s') \<and> worker_rest (bg_at (fst s'))"
proof -
  obtain b w where s: "s = (b, w)" by (cases s)
  show ?thesis
  proof (cases a)
    case (Step ch)
    obtain p' w' where n: "worker_next ttl (bg_cancelled b) ch (bg_at b) e w = Some (p', w')" and s': "s' = (b\<lparr>bg_at := p'\<rparr>, w')"
      using assms(2) Step s by (auto simp: worker_step_def split: if_splits)
    have "wk_pc p' = WorkerReturned" if "wk_pc (bg_at b) = WorkerReturned"
      using n that by (cases ch) (auto split: if_splits)
    then show ?thesis using assms(1) worker_next_rest [OF _ n] s s' by (auto simp: hooks_ok_def)
  qed (use assms s in \<open>auto simp: worker_step_def hooks_ok_def split: if_splits\<close>)
qed

definition new_worker :: worker_at where
  "new_worker = \<lparr>wk_pc = Listing, wk_batch = [], wk_left = []\<rparr>"

lemma worker_history_ok:
  assumes "history (worker_step ttl) e (constructed new_worker, w0) s"
  shows "hooks_ok (\<lambda>p. wk_pc p = WorkerReturned) (fst s) \<and> worker_rest (bg_at (fst s))"
  using assms
proof (induction rule: history.induct)
  case history_start
  then show ?case by (simp add: hooks_ok_def constructed_def new_worker_def worker_rest_def)
next
  case (history_event s a s')
  then show ?case by (intro worker_step_ok [OF history_event.IH])
qed simp

text \<open>A schedule run from a state; each of its steps is one of the history.\<close>

fun scheduled :: "('a \<Rightarrow> env \<Rightarrow> 's \<times> world \<Rightarrow> ('s \<times> world) option) \<Rightarrow> 'a list \<Rightarrow> env \<Rightarrow> 's \<times> world \<Rightarrow> ('s \<times> world) option" where
  "scheduled step [] e s = Some s"
| "scheduled step (a # as) e s = (case step a e s of None \<Rightarrow> None | Some s' \<Rightarrow> scheduled step as e s')"

lemma history_trans: "history step e s1 s2 \<Longrightarrow> history step e s0 s1 \<Longrightarrow> history step e s0 s2"
  by (induction rule: history.induct) (auto intro: history.intros)

lemma scheduled_history: "scheduled step as e s = Some s' \<Longrightarrow> history step e s s'"
proof (induction "as" arbitrary: s)
  case (Cons a "as")
  then obtain s1 where "step a e s = Some s1" "scheduled step as e s1 = Some s'" by (auto split: option.splits)
  then show ?case using Cons.IH history_trans history_event [OF history_start] by metis
qed (simp add: history_start)

text \<open>
  The worker may be reported as stopped too early: two transactions wait, the context ends after the
  first has got its goroutine, \<open>processPending\<close> returns, \<open>done\<close> is closed and \<open>OnStop\<close> returns nil;
  then the goroutine writes to the database.
\<close>

definition two_waiting :: db where
  "two_waiting = waiting_db\<lparr>txs := [sample_opening_row, waiting_row,
     waiting_row\<lparr>xr_id := ''t2'', xr_external := Some ''x2'', xr_key := Some ''k2''\<rparr>]\<rparr>"

definition early_stop :: "worker_choice bg_event list" where
  "early_stop = [OnStart, Step (MainStep Ticked), Step (MainStep Ticked), OnStop, Step (MainStep Ticked),
     Step (MainStep CtxDone), Close, SelectDone]"

lemma worker_outlives_stop:
  "\<exists>b w b' w'. history (worker_step 0) sample_env (constructed new_worker, world_of two_waiting) (b, w) \<and>
     bg_stop b = Stopped None \<and> worker_step 0 (Step (LeftJob 0)) sample_env (b, w) = Some (b', w') \<and>
     map xr_retries (txs (committed w)) = [0, 0, 0] \<and> map xr_retries (txs (committed w')) = [0, 1, 0]"
proof -
  let ?start = "world_of two_waiting"
  obtain later where later: "later = snd (TxListPendingReferenceIDs 32 sample_env ?start)" by simp
  have "fst (TxListPendingReferenceIDs 32 sample_env ?start) = Inr [''t1'', ''t2'']" by code_simp
  then have l: "TxListPendingReferenceIDs 32 sample_env ?start = (Inr [''t1'', ''t2''], later)" by (simp add: prod_eq_iff later)
  have listed: "later = ?start\<lparr>ticks := 1\<rparr>"
    by (simp add: later TxListPendingReferenceIDs_def query_def stmt_def Let_def interfere_def put_view_def view_def
        sample_env_def world_of_def)
  have "\<exists>b. scheduled (worker_step 0) early_stop sample_env (constructed new_worker, ?start) = Some (b, later) \<and>
      bg_stop b = Stopped None \<and> bg_started b \<and> wk_left (bg_at b) = [ResumeJob ''t1'']"
    by (simp add: early_stop_def constructed_def new_worker_def worker_step_def abandon_def l)
  then obtain b where b: "scheduled (worker_step 0) early_stop sample_env (constructed new_worker, ?start) = Some (b, later)"
    "bg_stop b = Stopped None" "bg_started b" "wk_left (bg_at b) = [ResumeJob ''t1'']" by blast
  have "map xr_retries (txs (committed later)) = [0, 0, 0]"
    "map xr_retries (txs (committed (snd (ResumePendingReference ''t1'' sample_env later)))) = [0, 1, 0]"
    unfolding listed by code_simp+
  moreover have "worker_step 0 (Step (LeftJob 0)) sample_env (b, later) =
      Some (b\<lparr>bg_at := (bg_at b)\<lparr>wk_left := []\<rparr>\<rparr>, snd (ResumePendingReference ''t1'' sample_env later))"
    by (simp add: worker_step_def b drop_nth_def)
  ultimately show ?thesis using scheduled_history [OF b(1)] b(2) by (intro exI conjI) assumption+
qed

text \<open>C12: When \<open>OnStop\<close> of the publisher or of the consumer has returned nil, nothing of that loop happens any
  more, whatever was under way when it was called. Of the worker of pending references only goroutines
  it has abandoned may still run, those of a batch during whose spawning the context ended; and so it happens:
  two transactions wait, the context ends when the first has got its goroutine, \<open>OnStop\<close> returns nil, and then
  that goroutine changes the database.\<close>

theorem OnStop_waits:
  "(history (publisher_step withMetrics big workerID) e (constructed Claiming, w0) (bp, w) \<and> bg_stop bp = Stopped None
      \<longrightarrow> publisher_step withMetrics big workerID ap e' (bp, w') = None) \<and>
   (history (consumer_step uc withMetrics) e (constructed ConsumerTop, w0) (bc, w) \<and> bg_stop bc = Stopped None
      \<longrightarrow> consumer_step uc withMetrics ac e' (bc, w') = None) \<and>
   (history (worker_step ttl) e (constructed new_worker, w0) (bw, w) \<and> bg_stop bw = Stopped None
      \<longrightarrow> worker_step ttl aw e' (bw, w') = None \<or> (\<exists>n < length (wk_left (bg_at bw)). aw = Step (LeftJob n))) \<and>
   (\<exists>b w b' w'. history (worker_step 0) sample_env (constructed new_worker, world_of two_waiting) (b, w) \<and>
     bg_stop b = Stopped None \<and> worker_step 0 (Step (LeftJob 0)) sample_env (b, w) = Some (b', w') \<and>
     map xr_retries (txs (committed w)) = [0, 0, 0] \<and> map xr_retries (txs (committed w')) = [0, 1, 0])"
proof (intro conjI impI; (elim conjE)?)
  assume h: "history (publisher_step withMetrics big workerID) e (constructed Claiming, w0) (bp, w)" "bg_stop bp = Stopped None"
  show "publisher_step withMetrics big workerID ap e' (bp, w') = None"
    using publisherGo.stopped_is_quiet [OF h [unfolded publisher_step_def]] by (simp add: publisher_step_def)
next
  assume h: "history (consumer_step uc withMetrics) e (constructed ConsumerTop, w0) (bc, w)" "bg_stop bc = Stopped None"
  show "consumer_step uc withMetrics ac e' (bc, w') = None"
    using consumerGo.stopped_is_quiet [OF h [unfolded consumer_step_def]] by (simp add: consumer_step_def)
next
  assume h: "history (worker_step ttl) e (constructed new_worker, w0) (bw, w)" "bg_stop bw = Stopped None"
  have "hooks_ok (\<lambda>p. wk_pc p = WorkerReturned) bw" "worker_rest (bg_at bw)" using worker_history_ok [OF h(1)] by simp_all
  then have ok: "bg_started bw" "bg_done bw" "wk_pc (bg_at bw) = WorkerReturned" "wk_batch (bg_at bw) = []"
    using h(2) by (auto simp: hooks_ok_def worker_rest_def)
  show "worker_step ttl aw e' (bw, w') = None \<or> (\<exists>n < length (wk_left (bg_at bw)). aw = Step (LeftJob n))"
  proof (cases aw)
    case (Step ch)
    then show ?thesis using ok by (cases ch) (simp_all add: worker_step_def)
  qed (use ok h(2) in \<open>simp_all add: worker_step_def\<close>)
qed (rule worker_outlives_stop)

text \<open>A publisher that finds nothing is started, cancelled in its first turn and stopped.\<close>

theorem OnStop_waits_witness:
  "\<exists>b w. history (publisher_step True 0 ''u1'') sample_env (constructed Claiming, world_of sample_db) (b, w) \<and>
     bg_stop b = Stopped None \<and> publisher_step True 0 ''u1'' (Step Ticked) sample_env (b, w) = None"
proof -
  let ?schedule = "[OnStart, Step Ticked, OnStop, Step Ticked, Step CtxDone, Close, SelectDone]"
  have "fst (OutboxClaim ''u1'' claimBatchSize lockTTL sample_env (world_of sample_db)) = Inr []" by code_simp
  then obtain w where "OutboxClaim ''u1'' claimBatchSize lockTTL sample_env (world_of sample_db) = (Inr [], w)"
    by (metis prod.collapse)
  then have "\<exists>b. scheduled (publisher_step True 0 ''u1'') ?schedule sample_env (constructed Claiming, world_of sample_db) = Some (b, w) \<and>
      bg_stop b = Stopped None"
    by (simp add: publisher_step_def constructed_def)
  then obtain b where b: "history (publisher_step True 0 ''u1'') sample_env (constructed Claiming, world_of sample_db) (b, w)"
    "bg_stop b = Stopped None" using scheduled_history by blast
  with OnStop_waits [of True 0 "''u1''" sample_env "world_of sample_db" b w "Step Ticked" sample_env w] show ?thesis by blast
qed

section \<open>After cancellation\<close>

text \<open>The consumer handles no message any more and returns within three steps, whatever the queue answers.\<close>

primrec consumer_steps :: "nat \<Rightarrow> UseCase \<Rightarrow> bool \<Rightarrow> bool \<Rightarrow> env \<Rightarrow> consumer_at \<times> world \<Rightarrow> consumer_at \<times> world" where
  "consumer_steps 0 uc withMetrics c e s = s"
| "consumer_steps (Suc n) uc withMetrics c e s = (case consumer_next uc withMetrics c () (fst s) e (snd s) of
     None \<Rightarrow> s | Some s' \<Rightarrow> consumer_steps n uc withMetrics c e s')"

lemma release_committed: "committed (snd (releaseVisibility ms e w)) = committed w"
  by (induction ms arbitrary: w)
    (simp_all add: bindM_apply attempting_apply ChangeVisibility_def queue_call_def split: fault.split prod.split)

lemma cancelled_consumer:
  "fst (consumer_steps 3 uc withMetrics True e (p, w)) = ConsumerReturned \<and>
   committed (snd (consumer_steps 3 uc withMetrics True e (p, w))) = committed w"
proof -
  have top: "consumer_steps n uc withMetrics True e (ConsumerTop, w) = (ConsumerReturned, w)" if "0 < n" for n w
    using that by (cases n; cases "n - 1") simp_all
  have batch: "fst (consumer_steps n uc withMetrics True e (Consuming ms, w)) = ConsumerReturned \<and>
      committed (snd (consumer_steps n uc withMetrics True e (Consuming ms, w))) = committed w" if "1 < n" for n ms w
    using that by (cases n; cases ms) (simp_all add: top release_committed del: releaseVisibility.simps)
  show ?thesis
  proof (cases p)
    case Receiving
    obtain r w1 where r: "ReceiveMessage e w = (r, w1)" by fastforce
    then have "committed w1 = committed w" by (auto simp: ReceiveMessage_def)
    then show ?thesis using r Receiving batch [of 2 _ w1] by (cases r) (simp_all add: numeral_3_eq_3 top numeral_2_eq_2)
  next
    case ConsumerReturned
    then show ?thesis by (simp add: numeral_3_eq_3)
  qed (simp_all add: top batch)
qed

text \<open>A cancelled publisher sends nothing more, however often its ticker is chosen.\<close>

lemma Claim_mail: "mail (snd (OutboxClaim workerID limit ttl e w)) = mail w"
  by (auto simp: OutboxClaim_def bindM_apply stmt_def Let_def interfere_def put_view_def
      split: fault.split sum.split prod.split option.split)

lemma cancelled_publisher:
  assumes "publisher_next withMetrics big workerID True br p e w = Some (p', w')"
  shows "mail w' = mail w"
  using assms
  by (cases "(withMetrics, big, workerID, True, br, p, e, w)" rule: publisher_next.cases)
    (use Claim_mail [of workerID claimBatchSize lockTTL e w] in
      \<open>auto split: prod.splits sum.splits if_splits select_branch.splits\<close>)

lemma publisher_silent:
  assumes "history (publisher_step withMetrics big workerID) e (b0, w0) s" "bg_cancelled b0"
  shows "bg_cancelled (fst s) \<and> mail (snd s) = mail w0"
  using assms
proof (induction rule: history.induct)
  case (history_event s a s')
  obtain b w where s: "s = (b, w)" by (cases s)
  show ?case
  proof (cases a)
    case (Step br)
    then obtain p' w' where "publisher_next withMetrics big workerID True br (bg_at b) e w = Some (p', w')"
        "s' = (b\<lparr>bg_at := p'\<rparr>, w')"
      using history_event s by (auto simp: publisher_step_def split: if_splits)
    then show ?thesis using cancelled_publisher history_event s by fastforce
  qed (use history_event s in \<open>auto simp: publisher_step_def split: if_splits\<close>)
qed (auto simp: interfere_def)

end
