(* ===== verification/Turns.thy ===== *)
theory Turns
  imports Lifecycle
begin

text \<open>
  The loops of \<open>Publisher\<close>, \<open>Consumer\<close> and \<open>Worker\<close>, where a turn is one function, against the goroutines of
  \<open>Lifecycle\<close>, where it is a sequence of steps: an uninterrupted turn is one of the histories.
\<close>

section \<open>A turn without interruption\<close>

text \<open>
  A turn of the loops of the other theories, when its context is not cancelled, is a history here:
  the goroutines of a batch run in the order in which they were spawned.
\<close>

lemma step_history: "step a e s = Some s' \<Longrightarrow> history step e s' s2 \<Longrightarrow> history step e s s2"
  using history_trans history_event [OF history_start] by metis

lemma publisher_moves:
  assumes "bg_started b" "publisher_next wm big wid (bg_cancelled b) br p e w = Some (p', w')"
    and "history (publisher_step wm big wid) e (b\<lparr>bg_at := p'\<rparr>, w') s"
  shows "history (publisher_step wm big wid) e (b\<lparr>bg_at := p\<rparr>, w) s"
  using step_history [OF _ assms(3), of "Step br"] assms(1,2) by (simp add: publisher_step_def)

lemma publishOne_returns: "fst (publishOne wm big r e w) = Inr ()"
  by (simp add: publishOne_def publisherMarkFailed_def bindM_apply attempting_apply timeNow_def count_def split: sum.split prod.split)

lemma publisher_turn:
  assumes b: "bg_started b" "\<not> bg_cancelled b" and e: "\<And>n. \<not> cancelled e n"
  shows "history (publisher_step wm big wid) e (b\<lparr>bg_at := Claiming\<rparr>, w)
    (b\<lparr>bg_at := PublisherSelect\<rparr>, snd (publishPending wm big wid e w))"
proof -
  have all: "history (publisher_step wm big wid) e (b\<lparr>bg_at := Publishing recs\<rparr>, w)
      (b\<lparr>bg_at := PublisherSelect\<rparr>, snd (publishAll wm big recs e w))" for recs w
  proof (induction recs arbitrary: w)
    case Nil
    show ?case
      by (rule publisher_moves [where br = Ticked and p' = PublisherSelect and w' = w]) (simp_all add: b history_start)
  next
    case (Cons r recs)
    obtain u w1 where r: "publishOne wm big r e w = (u, w1)" by fastforce
    have "u = Inr ()" using publishOne_returns [of wm big r e w] r by simp
    then have eq: "snd (publishAll wm big (r # recs) e w) = snd (publishAll wm big recs e w1)"
      using r e by (simp add: bindM_apply ctxDone_def)
    show ?case
      by (rule publisher_moves [where br = Ticked and p' = "Publishing recs" and w' = w1])
        (simp_all add: b r eq Cons del: publishAll.simps)
  qed
  obtain r w1 where c: "OutboxClaim wid claimBatchSize lockTTL e w = (r, w1)" by fastforce
  show ?thesis
  proof (cases r)
    case (Inl x)
    then have eq: "snd (publishPending wm big wid e w) = w1" using c by (simp add: publishPending_def bindM_apply attempting_apply)
    show ?thesis
      by (rule publisher_moves [where br = Ticked and w' = w1 and p' = PublisherSelect]) (simp_all add: b c Inl eq history_start)
  next
    case (Inr recs)
    then have eq: "snd (publishPending wm big wid e w) = snd (publishAll wm big recs e w1)"
      using c by (simp add: publishPending_def bindM_apply attempting_apply)
    show ?thesis
      by (rule publisher_moves [where br = Ticked and w' = w1 and p' = "Publishing recs"]) (simp_all add: b c Inr eq all)
  qed
qed

lemma consumer_moves:
  assumes "bg_started b" "consumer_next uc wm (bg_cancelled b) () p e w = Some (p', w')"
    and "history (consumer_step uc wm) e (b\<lparr>bg_at := p'\<rparr>, w') s"
  shows "history (consumer_step uc wm) e (b\<lparr>bg_at := p\<rparr>, w) s"
  using step_history [OF _ assms(3), of "Step ()"] assms(1,2) by (simp add: consumer_step_def)

lemma consumer_turn:
  assumes b: "bg_started b" "\<not> bg_cancelled b" and e: "\<And>n. \<not> cancelled e n"
  shows "history (consumer_step uc wm) e (b\<lparr>bg_at := Consuming ms\<rparr>, w)
    (b\<lparr>bg_at := ConsumerTop\<rparr>, snd (consumeBatch uc wm ms e w))"
proof (induction ms arbitrary: w)
  case Nil
  show ?case
    by (rule consumer_moves [where p' = ConsumerTop and w' = w]) (simp_all add: b history_start)
next
  case (Cons m ms)
  obtain r w1 where h: "handle uc wm (im_Body m) (im_MessageId m) e w = (r, w1)" by fastforce
  have rel: "releaseVisibility xs e w = (Inr (), snd (releaseVisibility xs e w))" for xs w
    by (induction xs arbitrary: w) (simp_all add: bindM_apply attempting_apply split: prod.split)
  obtain w3 where w3: "releaseVisibility [m] e w1 = (Inr (), w3)" using rel by blast
  define w2 where "w2 = (case r of
      Inl err \<Rightarrow> if err = InfraErr InfraContextCanceled then snd (releaseVisibility [m] e w1) else w1
    | Inr _ \<Rightarrow> snd (DeleteMessage (im_Receipt m) e w1))"
  have eq: "snd (consumeBatch uc wm (m # ms) e w) = snd (consumeBatch uc wm ms e w2)"
    using h e w3
    by (cases r) (simp_all add: bindM_apply attempting_apply ctxDone_def w2_def split: prod.split del: releaseVisibility.simps)
  have n: "consumer_next uc wm False () (Consuming (m # ms)) e w = Some (Consuming ms, w2)"
    using h by (cases r) (simp_all add: w2_def del: releaseVisibility.simps)
  show ?case
    by (rule consumer_moves [where p' = "Consuming ms" and w' = w2]) (simp_all add: b n eq Cons del: consumeBatch.simps consumer_next.simps)
qed

definition jobs_world :: "worker_job list \<Rightarrow> env \<Rightarrow> world \<Rightarrow> world" where
  "jobs_world js e w = foldl (\<lambda>w j. run_job j e w) w js"

lemma batch_worlds:
  assumes "\<And>n. \<not> cancelled e n"
  shows "resumeAll is e w = (Inr True, jobs_world (map ResumeJob is) e w)"
    and "expireAll is e w = (Inr (), jobs_world (map ExpireJob is) e w)"
  using assms by (induction "is" arbitrary: w)
    (simp_all add: jobs_world_def bindM_apply attempting_apply ctxDone_def split: prod.split)

lemma worker_moves:
  assumes "bg_started b" "worker_next ttl (bg_cancelled b) ch p e w = Some (p', w')"
    and "history (worker_step ttl) e (b\<lparr>bg_at := p'\<rparr>, w') s"
  shows "history (worker_step ttl) e (b\<lparr>bg_at := p\<rparr>, w) s"
  using step_history [OF _ assms(3), of "Step ch"] assms(1,2) by (simp add: worker_step_def)

lemma run_batch:
  assumes b: "bg_started b"
  shows "history (worker_step ttl) e (b\<lparr>bg_at := p\<lparr>wk_batch := js\<rparr>\<rparr>, w) (b\<lparr>bg_at := p\<lparr>wk_batch := []\<rparr>\<rparr>, jobs_world js e w)"
proof (induction js arbitrary: w)
  case (Cons j js)
  show ?case
    by (rule worker_moves [where ch = "BatchJob 0" and p' = "p\<lparr>wk_batch := js\<rparr>" and w' = "run_job j e w"])
      (use Cons [of "run_job j e w"] in \<open>simp_all add: b drop_nth_def jobs_world_def\<close>)
qed (simp add: jobs_world_def history_start)

lemma spawn_batch:
  assumes b: "bg_started b" "\<not> bg_cancelled b"
  shows "history (worker_step ttl) e (b\<lparr>bg_at := p\<lparr>wk_pc := Resuming is\<rparr>\<rparr>, w)
      (b\<lparr>bg_at := p\<lparr>wk_pc := WaitResumed, wk_batch := wk_batch p @ map ResumeJob is\<rparr>\<rparr>, w)"
    and "history (worker_step ttl) e (b\<lparr>bg_at := p\<lparr>wk_pc := ExpiringAll is\<rparr>\<rparr>, w)
      (b\<lparr>bg_at := p\<lparr>wk_pc := WaitExpired, wk_batch := wk_batch p @ map ExpireJob is\<rparr>\<rparr>, w)"
proof (induction "is" arbitrary: p)
  case Nil
  { case 1
    show ?case
      by (rule worker_moves [where ch = "MainStep Ticked" and p' = "p\<lparr>wk_pc := WaitResumed\<rparr>" and w' = w])
        (simp_all add: b history_start)
  next
    case 2
    show ?case
      by (rule worker_moves [where ch = "MainStep Ticked" and p' = "p\<lparr>wk_pc := WaitExpired\<rparr>" and w' = w])
        (simp_all add: b history_start) }
next
  case (Cons i "is")
  { case 1
    show ?case
      by (rule worker_moves [where ch = "MainStep Ticked" and w' = w
            and p' = "p\<lparr>wk_batch := wk_batch p @ [ResumeJob i], wk_pc := Resuming is\<rparr>"])
        (use Cons(1) [of "p\<lparr>wk_batch := wk_batch p @ [ResumeJob i]\<rparr>"] in \<open>simp_all add: b\<close>)
  next
    case 2
    show ?case
      by (rule worker_moves [where ch = "MainStep Ticked" and w' = w
            and p' = "p\<lparr>wk_batch := wk_batch p @ [ExpireJob i], wk_pc := ExpiringAll is\<rparr>"])
        (use Cons(2) [of "p\<lparr>wk_batch := wk_batch p @ [ExpireJob i]\<rparr>"] in \<open>simp_all add: b\<close>) }
qed

abbreviation worker_state :: "worker_pc \<Rightarrow> worker_job list \<Rightarrow> worker_job list \<Rightarrow> worker_at" where
  "worker_state pc js l \<equiv> \<lparr>wk_pc = pc, wk_batch = js, wk_left = l\<rparr>"

text \<open>A batch that is spawned runs to its end.\<close>

lemma whole_batch:
  assumes b: "bg_started b" "\<not> bg_cancelled b"
  shows "history (worker_step ttl) e (b\<lparr>bg_at := worker_state (Resuming is) [] l\<rparr>, w)
      (b\<lparr>bg_at := worker_state WaitResumed [] l\<rparr>, jobs_world (map ResumeJob is) e w)"
    and "history (worker_step ttl) e (b\<lparr>bg_at := worker_state (ExpiringAll is) [] l\<rparr>, w)
      (b\<lparr>bg_at := worker_state WaitExpired [] l\<rparr>, jobs_world (map ExpireJob is) e w)"
proof -
  have "history (worker_step ttl) e (b\<lparr>bg_at := worker_state (Resuming is) [] l\<rparr>, w)
      (b\<lparr>bg_at := worker_state WaitResumed (map ResumeJob is) l\<rparr>, w)"
    using spawn_batch(1) [OF b, where p = "worker_state Listing [] l"] by simp
  moreover have "history (worker_step ttl) e (b\<lparr>bg_at := worker_state WaitResumed (map ResumeJob is) l\<rparr>, w)
      (b\<lparr>bg_at := worker_state WaitResumed [] l\<rparr>, jobs_world (map ResumeJob is) e w)"
    using run_batch [OF b(1), where p = "worker_state WaitResumed [] l"] by simp
  ultimately show "history (worker_step ttl) e (b\<lparr>bg_at := worker_state (Resuming is) [] l\<rparr>, w)
      (b\<lparr>bg_at := worker_state WaitResumed [] l\<rparr>, jobs_world (map ResumeJob is) e w)"
    using history_trans by blast
  have "history (worker_step ttl) e (b\<lparr>bg_at := worker_state (ExpiringAll is) [] l\<rparr>, w)
      (b\<lparr>bg_at := worker_state WaitExpired (map ExpireJob is) l\<rparr>, w)"
    using spawn_batch(2) [OF b, where p = "worker_state Listing [] l"] by simp
  moreover have "history (worker_step ttl) e (b\<lparr>bg_at := worker_state WaitExpired (map ExpireJob is) l\<rparr>, w)
      (b\<lparr>bg_at := worker_state WaitExpired [] l\<rparr>, jobs_world (map ExpireJob is) e w)"
    using run_batch [OF b(1), where p = "worker_state WaitExpired [] l"] by simp
  ultimately show "history (worker_step ttl) e (b\<lparr>bg_at := worker_state (ExpiringAll is) [] l\<rparr>, w)
      (b\<lparr>bg_at := worker_state WaitExpired [] l\<rparr>, jobs_world (map ExpireJob is) e w)"
    using history_trans by blast
qed

lemma expire_turn:
  assumes b: "bg_started b" "\<not> bg_cancelled b" and e: "\<And>n. \<not> cancelled e n"
  shows "history (worker_step ttl) e (b\<lparr>bg_at := worker_state Expiring [] l\<rparr>, w)
    (b\<lparr>bg_at := worker_state WorkerSelect [] l\<rparr>, snd (expireStale ttl e w))"
proof (cases "ttl \<le>s 0")
  case True
  show ?thesis
    by (rule worker_moves [where ch = "MainStep Ticked" and p' = "worker_state WorkerSelect [] l" and w' = w, OF b(1)])
      (simp_all add: True expireStale_def history_start)
next
  case False
  let ?list = "bindM timeNow (\<lambda>now. TxListStalePendingReferenceIDs (now + sint (- ttl)) 32)"
  obtain r w1 where r: "?list e w = (r, w1)" by fastforce
  have eq: "snd (expireStale ttl e w) = (case r of Inl _ \<Rightarrow> w1 | Inr is \<Rightarrow> jobs_world (map ExpireJob is) e w1)"
    using r False batch_worlds(2) [of e _ w1, OF e]
    by (auto simp: expireStale_def bindM_apply attempting_apply timeNow_def split: prod.splits sum.splits)
  show ?thesis
  proof (cases r)
    case (Inl x)
    show ?thesis
      by (rule worker_moves [where ch = "MainStep Ticked" and p' = "worker_state WorkerSelect [] l" and w' = w1, OF b(1)])
        (simp_all add: r False eq Inl history_start)
  next
    case (Inr "is")
    have last: "history (worker_step ttl) e (b\<lparr>bg_at := worker_state WaitExpired [] l\<rparr>, w2)
        (b\<lparr>bg_at := worker_state WorkerSelect [] l\<rparr>, w2)" for w2
      by (rule worker_moves [where ch = "MainStep Ticked" and p' = "worker_state WorkerSelect [] l" and w' = w2, OF b(1)])
        (simp_all add: history_start)
    show ?thesis
      by (rule worker_moves [where ch = "MainStep Ticked" and p' = "worker_state (ExpiringAll is) [] l" and w' = w1, OF b(1)])
        (use r False Inr eq history_trans [OF last whole_batch(2) [OF b]] in simp_all)
  qed
qed

lemma worker_turn:
  assumes b: "bg_started b" "\<not> bg_cancelled b" and e: "\<And>n. \<not> cancelled e n"
  shows "history (worker_step ttl) e (b\<lparr>bg_at := worker_state Listing [] l\<rparr>, w)
    (b\<lparr>bg_at := worker_state WorkerSelect [] l\<rparr>, snd (processPending ttl e w))"
proof -
  obtain r w1 where r: "TxListPendingReferenceIDs 32 e w = (r, w1)" by fastforce
  have eq: "snd (processPending ttl e w) = (case r of Inl _ \<Rightarrow> w1
      | Inr is \<Rightarrow> snd (expireStale ttl e (jobs_world (map ResumeJob is) e w1)))"
    using r batch_worlds(1) [of e _ w1, OF e]
    by (auto simp: processPending_def bindM_apply attempting_apply split: sum.splits)
  show ?thesis
  proof (cases r)
    case (Inl x)
    show ?thesis
      by (rule worker_moves [where ch = "MainStep Ticked" and p' = "worker_state WorkerSelect [] l" and w' = w1, OF b(1)])
        (simp_all add: r eq Inl history_start)
  next
    case (Inr "is")
    have wait: "history (worker_step ttl) e (b\<lparr>bg_at := worker_state WaitResumed [] l\<rparr>, w2)
        (b\<lparr>bg_at := worker_state WorkerSelect [] l\<rparr>, snd (expireStale ttl e w2))" for w2
      by (rule worker_moves [where ch = "MainStep Ticked" and p' = "worker_state Expiring [] l" and w' = w2, OF b(1)])
        (simp_all add: expire_turn [OF b e])
    show ?thesis
      by (rule worker_moves [where ch = "MainStep Ticked" and p' = "worker_state (Resuming is) [] l" and w' = w1, OF b(1)])
        (use r Inr eq history_trans [OF wait whole_batch(1) [OF b]] in simp_all)
  qed
qed

end
