(* ===== verification/Base64.thy ===== *)
theory Base64
  imports Prelude
begin

text \<open>
  \<open>base64.RawURLEncoding\<close>: three bytes are four characters of 64, a last group of one or two bytes
  has two or three characters and no padding. Decoding skips line breaks and does not look at the
  bits a short last group leaves over.
\<close>

definition b64_alphabet :: string where
  "b64_alphabet = ''ABCDEFGHIJKLMNOPQRSTUVWXYZabcdefghijklmnopqrstuvwxyz0123456789-_''"

definition b64_char :: "nat \<Rightarrow> char" where
  "b64_char n = b64_alphabet ! n"

definition b64_val :: "char \<Rightarrow> nat option" where
  "b64_val c = (if c \<in> set b64_alphabet then Some (length (takeWhile (\<lambda>x. x \<noteq> c) b64_alphabet)) else None)"

fun b64_encode :: "string \<Rightarrow> string" where
  "b64_encode (a # b # c # r) =
     b64_char (of_char a div 4) # b64_char (of_char a mod 4 * 16 + of_char b div 16) #
     b64_char (of_char b mod 16 * 4 + of_char c div 64) # b64_char (of_char c mod 64) # b64_encode r"
| "b64_encode [a, b] =
     [b64_char (of_char a div 4), b64_char (of_char a mod 4 * 16 + of_char b div 16),
      b64_char (of_char b mod 16 * 4)]"
| "b64_encode [a] = [b64_char (of_char a div 4), b64_char (of_char a mod 4 * 16)]"
| "b64_encode [] = []"

fun b64_groups :: "nat list \<Rightarrow> string option" where
  "b64_groups (w # x # y # z # r) =
     map_option (\<lambda>s. char_of (w * 4 + x div 16) # char_of (x mod 16 * 16 + y div 4) # char_of (y mod 4 * 64 + z) # s)
       (b64_groups r)"
| "b64_groups [w, x, y] = Some [char_of (w * 4 + x div 16), char_of (x mod 16 * 16 + y div 4)]"
| "b64_groups [w, x] = Some [char_of (w * 4 + x div 16)]"
| "b64_groups [w] = None"
| "b64_groups [] = Some []"

definition b64_decode :: "string \<Rightarrow> string option" where
  "b64_decode s = Option.bind (those (map b64_val (filter (\<lambda>c. c \<noteq> CHR 0x0A \<and> c \<noteq> CHR 0x0D) s))) b64_groups"

section \<open>Round trip\<close>

lemma b64_chars:
  "list_all (\<lambda>n. b64_val (b64_char n) = Some n \<and> b64_char n \<noteq> CHR 0x0A \<and> b64_char n \<noteq> CHR 0x0D) [0..<64]"
  by code_simp

lemma b64_char_simps [simp]:
  assumes "n < 64"
  shows "b64_val (b64_char n) = Some n" "b64_char n \<noteq> CHR 0x0A" "b64_char n \<noteq> CHR 0x0D"
  using b64_chars assms by (simp_all add: list_all_iff)

text \<open>A digit of a mixed number is found again.\<close>

lemma packed: "m < k \<Longrightarrow> (q * k + m) div k = q" "m < k \<Longrightarrow> (q * k + m) mod k = m" for m k q :: nat
  by simp_all

lemma halves:
  fixes n :: nat
  assumes "n < 256"
  shows "n div 4 < 64" "n mod 4 < 4" "n div 16 < 16" "n mod 16 < 16" "n div 64 < 4" "n mod 64 < 64"
  using assms by simp_all

lemma sextets:
  fixes a b c :: nat
  assumes "a < 256" "b < 256" "c < 256"
  shows "a mod 4 * 16 + b div 16 < 64" "b mod 16 * 4 + c div 64 < 64" "a mod 4 * 16 < 64" "b mod 16 * 4 < 64"
    "a div 4 * 4 + (a mod 4 * 16 + b div 16) div 16 = a"
    "(a mod 4 * 16 + b div 16) mod 16 * 16 + (b mod 16 * 4 + c div 64) div 4 = b"
    "(b mod 16 * 4 + c div 64) mod 4 * 64 + c mod 64 = c"
    "a div 4 * 4 + a mod 4 * 16 div 16 = a"
    "(a mod 4 * 16 + b div 16) mod 16 * 16 + b mod 16 * 4 div 4 = b"
proof -
  note h = halves [OF assms(1)] halves [OF assms(2)] halves [OF assms(3)]
  show "a mod 4 * 16 + b div 16 < 64" "b mod 16 * 4 + c div 64 < 64" "a mod 4 * 16 < 64" "b mod 16 * 4 < 64"
    using h by linarith+
  note p = packed(1) [OF h(9), of "a mod 4"] packed(2) [OF h(9), of "a mod 4"]
    packed(1) [OF h(17), of "b mod 16"] packed(2) [OF h(17), of "b mod 16"]
  show "a div 4 * 4 + (a mod 4 * 16 + b div 16) div 16 = a"
    "(a mod 4 * 16 + b div 16) mod 16 * 16 + (b mod 16 * 4 + c div 64) div 4 = b"
    "(b mod 16 * 4 + c div 64) mod 4 * 64 + c mod 64 = c"
    "a div 4 * 4 + a mod 4 * 16 div 16 = a"
    "(a mod 4 * 16 + b div 16) mod 16 * 16 + b mod 16 * 4 div 4 = b"
    unfolding p by simp_all
qed

lemma groups_of_bytes:
  "b64_groups (of_char a div 4 # (of_char a mod 4 * 16 + of_char b div 16) # (of_char b mod 16 * 4 + of_char c div 64) #
     (of_char c mod 64) # ns) = map_option (\<lambda>s. a # b # c # s) (b64_groups ns)"
  "b64_groups [of_char a div 4, of_char a mod 4 * 16 + of_char b div 16, of_char b mod 16 * 4] = Some [a, b]"
  "b64_groups [of_char a div 4, of_char a mod 4 * 16] = Some [a]"
  by (simp_all only: b64_groups.simps sextets [OF nat_of_char_less_256 nat_of_char_less_256 nat_of_char_less_256] char_of_char)

lemma b64_roundtrip: "b64_decode (b64_encode s) = Some s"
proof (induction s rule: b64_encode.induct)
  case (1 a b c r)
  obtain ns where "those (map b64_val (filter (\<lambda>c. c \<noteq> CHR 0x0A \<and> c \<noteq> CHR 0x0D) (b64_encode r))) = Some ns" "b64_groups ns = Some r"
    using 1 by (auto simp: b64_decode_def bind_eq_Some_conv)
  then show ?case
    using sextets(1,2) [of "of_char a" "of_char b" "of_char c"] halves(1) [of "of_char a"] halves(6) [of "of_char c"]
    by (simp add: b64_decode_def groups_of_bytes del: b64_groups.simps)
next
  case (2 a b)
  then show ?case
    using sextets(1,4) [of "of_char a" "of_char b" 0] halves(1) [of "of_char a"]
    by (simp add: b64_decode_def groups_of_bytes del: b64_groups.simps)
next
  case (3 a)
  then show ?case
    using sextets(3) [of "of_char a" 0 0] halves(1) [of "of_char a"]
    by (simp add: b64_decode_def groups_of_bytes del: b64_groups.simps)
qed (simp add: b64_decode_def)

end
