(* ===== verification/Identity.thy ===== *)
theory Identity
  imports Json_Decode Store Base64
begin

text \<open>
  \<open>internal/infra/idp\<close>: the cache of the identity provider's public keys (\<open>jwks.go\<close>) and the
  identity a bearer token stands for (\<open>middleware.go\<close>). The JWT library and the HTTP client are not
  part of the repository: the first is the parameter \<open>jwtLib\<close>, what the second answers is an argument
  of every operation that may ask. A cache is passed explicitly. Its lock is held while the fields are read
  or written and not while the provider is asked: the sections under the lock are the definitions
  \<open>checkKey\<close>, \<open>storeKeys\<close> and \<open>readKey\<close>. \<open>Key\<close> is a lookup that nothing interrupts; the last part lets
  any number of lookups and refreshes interleave between these sections.
\<close>

section \<open>Keys\<close>

record rsaKey =
  rk_N :: nat
  rk_E :: int64

record jwk =
  k_Kty :: string
  k_Kid :: string
  k_Alg :: string
  k_N :: string
  k_E :: string

definition bytes_nat :: "string \<Rightarrow> nat" where
  "bytes_nat bs = foldl (\<lambda>n c. 256 * n + of_char c) 0 bs"

text \<open>\<open>int(e.Int64())\<close> keeps the low 64 bits.\<close>

definition jwkToRSAPublicKey :: "jwk \<Rightarrow> rsaKey result" where
  "jwkToRSAPublicKey k = (case b64_decode (k_N k) of
       None \<Rightarrow> Inl (InfraErr InfraBadData)
     | Some nBytes \<Rightarrow> (case b64_decode (k_E k) of
         None \<Rightarrow> Inl (InfraErr InfraBadData)
       | Some eBytes \<Rightarrow> Inr \<lparr>rk_N = bytes_nat nBytes, rk_E = word_of_int (int (bytes_nat eBytes))\<rparr>))"

text \<open>\<open>json\<close> into \<open>jwksResponse\<close>: an element starts from the zero value; a \<open>null\<close> leaves no keys.\<close>

definition storeJwk :: "jwk store" where
  "storeJwk f v s =
     (if f = ''kty'' then storeString k_Kty_update v s
      else if f = ''kid'' then storeString k_Kid_update v s
      else if f = ''alg'' then storeString k_Alg_update v s
      else if f = ''n'' then storeString k_N_update v s
      else storeString k_E_update v s)"

primrec storeElements :: "jval list \<Rightarrow> jwk list \<times> bool \<Rightarrow> (jwk list \<times> bool) result" where
  "storeElements [] acc = Inr acc"
| "storeElements (v # vs) acc =
     bindE (storeStruct [''kty'', ''kid'', ''alg'', ''n'', ''e''] storeJwk v
       \<lparr>k_Kty = [], k_Kid = [], k_Alg = [], k_N = [], k_E = []\<rparr>) (\<lambda>(k, bad).
     storeElements vs (fst acc @ [k], snd acc \<or> bad))"

definition storeJwks :: "jwk list store" where
  "storeJwks f v s = (case v of JvNull \<Rightarrow> Inr ([], False) | JvArr vs \<Rightarrow> storeElements vs ([], False) | _ \<Rightarrow> Inr (s, True))"

definition decodeJwks :: "string \<Rightarrow> jwk list result" where
  "decodeJwks body = fillStruct [''keys''] storeJwks [] (readFirst body)"

section \<open>The cache\<close>

text \<open>Lookups in \<open>keys\<close> and updates of it; the URL and the client are in the answers.\<close>

record keySet =
  ks_keys :: "string \<Rightarrow> rsaKey option"
  ks_lastRefresh :: Time

datatype jwksAnswer = NoAnswer infra_err | Answer nat string

definition minRefreshInterval :: int where
  "minRefreshInterval = 5 * 1000000000"

primrec collectKeys :: "jwk list \<Rightarrow> (string \<Rightarrow> rsaKey option) \<Rightarrow> (string \<Rightarrow> rsaKey option) result" where
  "collectKeys [] keys = Inr keys"
| "collectKeys (k # ks) keys =
     (if k_Kty k \<noteq> ''RSA'' then collectKeys ks keys
      else bindE (jwkToRSAPublicKey k) (\<lambda>pub. collectKeys ks (keys(k_Kid k := Some pub))))"

text \<open>The keys an answer publishes.\<close>

definition published :: "jwksAnswer \<Rightarrow> (string \<Rightarrow> rsaKey option) result" where
  "published ans = (case ans of
       NoAnswer x \<Rightarrow> Inl (InfraErr x)
     | Answer status body \<Rightarrow>
         (if status \<noteq> 200 then Inl (InfraErr InfraBadData)
          else bindE (decodeJwks body) (\<lambda>ks. collectKeys ks (\<lambda>_. None))))"

text \<open>What \<open>refresh\<close> does under the lock, at \<open>finished\<close>.\<close>

definition storeKeys :: "(string \<Rightarrow> rsaKey option) \<Rightarrow> Time \<Rightarrow> keySet \<Rightarrow> keySet" where
  "storeKeys keys finished ks = ks\<lparr>ks_keys := keys, ks_lastRefresh := finished\<rparr>"

text \<open>
  \<open>refresh\<close>, which gets \<open>ans\<close> and ends at \<open>finished\<close>: the error it returns and the cache it leaves. It
  reads nothing of the cache, so \<open>ks\<close> is the cache at the time of the answer, not of the question.
\<close>

definition refresh :: "jwksAnswer \<Rightarrow> Time \<Rightarrow> keySet \<Rightarrow> go_error option \<times> keySet" where
  "refresh ans finished ks = (case published ans of
       Inl x \<Rightarrow> (Some x, ks)
     | Inr keys \<Rightarrow> (None, storeKeys keys finished ks))"

lemma refresh_simps:
  "published ans = Inl x \<Longrightarrow> refresh ans finished ks = (Some x, ks)"
  "published ans = Inr keys \<Longrightarrow> refresh ans finished ks = (None, storeKeys keys finished ks)"
  by (simp_all add: refresh_def)

lemma storeKeys_simps [simp]: "ks_keys (storeKeys keys finished ks) = keys" "ks_lastRefresh (storeKeys keys finished ks) = finished"
  by (simp_all add: storeKeys_def)

text \<open>\<open>time.Time{}\<close>, which no reading of the clock comes near.\<close>

definition zeroTime :: Time where
  "zeroTime = - 62135596800000000000"

definition NewKeySet :: "jwksAnswer \<Rightarrow> Time \<Rightarrow> keySet result" where
  "NewKeySet ans finished =
     (case refresh ans finished \<lparr>ks_keys = \<lambda>_. None, ks_lastRefresh = zeroTime\<rparr> of
        (Some x, _) \<Rightarrow> Inl x | (None, ks) \<Rightarrow> Inr ks)"

text \<open>A tick of \<open>StartAutoRefresh\<close> ignores the error.\<close>

definition autoRefresh :: "jwksAnswer \<Rightarrow> Time \<Rightarrow> keySet \<Rightarrow> keySet" where
  "autoRefresh ans finished ks = snd (refresh ans finished ks)"

definition noKey :: go_error where
  "noKey = InfraErr InfraBadData"

text \<open>\<open>Key\<close> up to its call of \<open>refresh\<close>: the first section under the lock and what is decided from it at \<open>now\<close>.\<close>

datatype keyCheck = KeyFound rsaKey | KeyTooSoon | KeyMustRefresh

definition checkKey :: "string \<Rightarrow> Time \<Rightarrow> keySet \<Rightarrow> keyCheck" where
  "checkKey kid now ks = (case ks_keys ks kid of
       Some key \<Rightarrow> KeyFound key
     | None \<Rightarrow> if now - ks_lastRefresh ks < minRefreshInterval then KeyTooSoon else KeyMustRefresh)"

text \<open>\<open>Key\<close> after a refresh that succeeded.\<close>

definition readKey :: "string \<Rightarrow> keySet \<Rightarrow> rsaKey result" where
  "readKey kid ks = (case ks_keys ks kid of None \<Rightarrow> Inl noKey | Some key \<Rightarrow> Inr key)"

text \<open>A whole call between whose sections no other one runs; \<open>finished\<close> is the instant at which it returns.\<close>

definition Key :: "string \<Rightarrow> Time \<Rightarrow> jwksAnswer \<Rightarrow> Time \<Rightarrow> keySet \<Rightarrow> rsaKey result \<times> keySet" where
  "Key kid now ans finished ks = (case checkKey kid now ks of
       KeyFound key \<Rightarrow> (Inr key, ks)
     | KeyTooSoon \<Rightarrow> (Inl noKey, ks)
     | KeyMustRefresh \<Rightarrow> (case refresh ans finished ks of
          (Some x, ks') \<Rightarrow> (Inl x, ks')
        | (None, ks') \<Rightarrow> (readKey kid ks', ks')))"

lemma Key_cases:
  "Key kid now ans finished ks = (case ks_keys ks kid of
       Some key \<Rightarrow> (Inr key, ks)
     | None \<Rightarrow>
         (if now - ks_lastRefresh ks < minRefreshInterval then (Inl noKey, ks)
          else case refresh ans finished ks of
            (Some x, ks') \<Rightarrow> (Inl x, ks')
          | (None, ks') \<Rightarrow> (case ks_keys ks' kid of None \<Rightarrow> (Inl noKey, ks') | Some key \<Rightarrow> (Inr key, ks'))))"
  by (auto simp: Key_def checkKey_def readKey_def split: option.split prod.split)

section \<open>Identities\<close>

record Identity =
  id_Subject :: string
  id_ClientID :: string
  id_Roles :: "string list"

definition HasRole :: "Identity \<Rightarrow> string \<Rightarrow> bool" where
  "HasRole identity role \<longleftrightarrow> list_ex (\<lambda>r. r = role) (id_Roles identity)"

record claims =
  c_Subject :: string
  c_AuthorizedParty :: string
  c_Roles :: "string list"

text \<open>
  \<open>jwt.ParseWithClaims\<close> with the four options: \<open>jwt_kid\<close> is the \<open>kid\<close> of the header when the token is
  well formed and signed by RS256, \<open>jwt_claims\<close> its claims when the signature is that of the key and
  issuer, audience and expiry are right at an instant.
\<close>

record jwtLib =
  jwt_kid :: "string \<Rightarrow> string option option"
  jwt_claims :: "string \<Rightarrow> rsaKey \<Rightarrow> Time \<Rightarrow> claims option"

definition parseToken :: "jwtLib \<Rightarrow> string \<Rightarrow> Time \<Rightarrow> jwksAnswer \<Rightarrow> Time \<Rightarrow> keySet \<Rightarrow> claims option \<times> keySet" where
  "parseToken jwt token now ans finished ks = (case jwt_kid jwt token of
       None \<Rightarrow> (None, ks)
     | Some None \<Rightarrow> (None, ks)
     | Some (Some kid) \<Rightarrow>
         (if kid = [] then (None, ks)
          else case Key kid now ans finished ks of
            (Inl _, ks') \<Rightarrow> (None, ks')
          | (Inr key, ks') \<Rightarrow> (jwt_claims jwt token key finished, ks')))"

text \<open>The error is the message of the response.\<close>

definition extractBearerToken :: "string \<Rightarrow> string + string" where
  "extractBearerToken header =
     (if header = [] then Inl ''header Authorization ausente''
      else if take 7 header \<noteq> ''Bearer '' then Inl ''header Authorization deve usar o esquema Bearer''
      else let token = drop 7 header in if token = [] then Inl ''token vazio'' else Inr token)"

text \<open>\<open>Authenticate\<close> up to the call of the next handler: the message of a 401, or the identity it injects.\<close>

definition Authenticate :: "jwtLib \<Rightarrow> string \<Rightarrow> Time \<Rightarrow> jwksAnswer \<Rightarrow> Time \<Rightarrow> keySet \<Rightarrow> (string + Identity) \<times> keySet" where
  "Authenticate jwt header now ans finished ks = (case extractBearerToken header of
       Inl msg \<Rightarrow> (Inl msg, ks)
     | Inr token \<Rightarrow> (case parseToken jwt token now ans finished ks of
         (None, ks') \<Rightarrow> (Inl (''token inv'' @ [CHR 0xC3, CHR 0xA1] @ ''lido ou expirado''), ks')
       | (Some c, ks') \<Rightarrow> (Inr \<lparr>id_Subject = c_Subject c, id_ClientID = c_AuthorizedParty c, id_Roles = c_Roles c\<rparr>, ks')))"

section \<open>What a cache holds\<close>

text \<open>The operations on a cache in the order its lock grants them.\<close>

datatype keyOp = Lookup string Time jwksAnswer Time | Tick jwksAnswer Time

primrec keyStep :: "keyOp \<Rightarrow> keySet \<Rightarrow> keySet" where
  "keyStep (Lookup kid now ans finished) ks = snd (Key kid now ans finished ks)"
| "keyStep (Tick ans finished) ks = autoRefresh ans finished ks"

primrec keyAnswer :: "keyOp \<Rightarrow> jwksAnswer" where
  "keyAnswer (Lookup kid now ans finished) = ans"
| "keyAnswer (Tick ans finished) = ans"

lemma refresh_keys: "ks_keys (snd (refresh ans finished ks)) = (case published ans of Inl _ \<Rightarrow> ks_keys ks | Inr keys \<Rightarrow> keys)"
  by (simp add: refresh_def split: sum.split)

lemma Key_leaves: "snd (Key kid now ans finished ks) \<in> {ks, snd (refresh ans finished ks)}"
  by (auto simp: Key_cases split: option.split prod.split)

lemma Key_result: "Key kid now ans finished ks = (Inr key, ks') \<Longrightarrow> ks_keys ks' kid = Some key"
  by (auto simp: Key_cases split: option.splits if_splits prod.splits)

lemma keyStep_keys: "ks_keys (keyStep op ks) = ks_keys ks \<or> published (keyAnswer op) = Inr (ks_keys (keyStep op ks))"
proof -
  have r: "ks_keys (snd (refresh ans t ks)) = ks_keys ks \<or> published ans = Inr (ks_keys (snd (refresh ans t ks)))" for ans t
    by (simp add: refresh_keys split: sum.split)
  show ?thesis
  proof (cases op)
    case (Lookup kid now ans finished)
    then show ?thesis using r [of ans finished] Key_leaves [of kid now ans finished ks] by auto
  qed (use r in \<open>simp add: autoRefresh_def\<close>)
qed

lemma keys_published:
  assumes "NewKeySet ans0 t0 = Inr ks0"
  shows "\<exists>ans\<in>set (ans0 # map keyAnswer ops). published ans = Inr (ks_keys (fold keyStep ops ks0))"
proof (induction ops rule: rev_induct)
  case Nil
  then show ?case using assms by (auto simp: NewKeySet_def refresh_def split: sum.splits)
next
  case (snoc op ops)
  then show ?case using keyStep_keys [of op "fold keyStep ops ks0"] by (auto simp: fold_append)
qed

text \<open>C28: A request gets an identity only from a token the identity provider stands behind: however often
  keys were looked up and refreshed since the cache was built, and whatever the provider answered,
  an identity comes from a \<open>Bearer\<close> token whose signature, issuer, audience and expiry the JWT
  library accepts under a key that some answer of the provider published for the token's own key id.\<close>

theorem Authenticate_sound:
  assumes "NewKeySet ans0 t0 = Inr ks0" "Authenticate jwt header now ans finished (fold keyStep ops ks0) = (Inr identity, ks)"
  shows "\<exists>token kid key c keys. header = ''Bearer '' @ token \<and> jwt_kid jwt token = Some (Some kid) \<and>
    (\<exists>a\<in>set (ans0 # map keyAnswer ops @ [ans]). published a = Inr keys) \<and> keys kid = Some key \<and>
    jwt_claims jwt token key finished = Some c \<and>
    identity = \<lparr>id_Subject = c_Subject c, id_ClientID = c_AuthorizedParty c, id_Roles = c_Roles c\<rparr>"
proof -
  obtain token c where t: "extractBearerToken header = Inr token"
    "parseToken jwt token now ans finished (fold keyStep ops ks0) = (Some c, ks)"
    "identity = \<lparr>id_Subject = c_Subject c, id_ClientID = c_AuthorizedParty c, id_Roles = c_Roles c\<rparr>"
    using assms(2) by (auto simp: Authenticate_def split: sum.splits prod.splits option.splits)
  have "take 7 header = ''Bearer ''" "token = drop 7 header"
    using t(1) by (auto simp: extractBearerToken_def Let_def split: if_splits)
  then have h: "header = ''Bearer '' @ token" by (metis append_take_drop_id)
  obtain kid key where k: "jwt_kid jwt token = Some (Some kid)" "jwt_claims jwt token key finished = Some c"
    "Key kid now ans finished (fold keyStep ops ks0) = (Inr key, ks)"
    using t(2) by (auto simp: parseToken_def split: option.splits if_splits prod.splits sum.splits)
  have "ks = fold keyStep (ops @ [Lookup kid now ans finished]) ks0" using k(3) by simp
  then obtain a where "a \<in> set (ans0 # map keyAnswer ops @ [ans])" "published a = Inr (ks_keys ks)"
    using keys_published [OF assms(1), of "ops @ [Lookup kid now ans finished]"] by auto
  then show ?thesis using h k(1,2) t(3) Key_result [OF k(3)] by blast
qed

section \<open>How often the provider is asked\<close>

text \<open>
  Calls of \<open>Key\<close> by concurrent requests, and ticks, interleaved: a call checks the cache, asks the provider
  without the lock when it must, refreshes the cache when the answer is there, and reads it again.
  The calls are kept in the order in which they came; an event names one by its position.
\<close>

datatype lookup_at = Asking | Refreshed | Answered "rsaKey result"

record lookup =
  lo_kid :: string
  lo_now :: Time
  lo_at :: lookup_at

datatype lookupEvent = LookupChecks string Time | LookupRefreshes nat jwksAnswer Time | LookupReads nat
  | TickRefreshes jwksAnswer Time

definition checked :: "string \<Rightarrow> Time \<Rightarrow> keySet \<Rightarrow> lookup_at" where
  "checked kid now ks = (case checkKey kid now ks of
       KeyFound key \<Rightarrow> Answered (Inr key) | KeyTooSoon \<Rightarrow> Answered (Inl noKey) | KeyMustRefresh \<Rightarrow> Asking)"

fun lookup_step :: "lookupEvent \<Rightarrow> keySet \<times> lookup list \<Rightarrow> (keySet \<times> lookup list) option" where
  "lookup_step (LookupChecks kid now) (ks, ls) = Some (ks, ls @ [\<lparr>lo_kid = kid, lo_now = now, lo_at = checked kid now ks\<rparr>])"
| "lookup_step (LookupRefreshes i ans finished) (ks, ls) =
     (if i < length ls \<and> lo_at (ls ! i) = Asking
      then case refresh ans finished ks of
          (Some x, ks') \<Rightarrow> Some (ks', ls[i := (ls ! i)\<lparr>lo_at := Answered (Inl x)\<rparr>])
        | (None, ks') \<Rightarrow> Some (ks', ls[i := (ls ! i)\<lparr>lo_at := Refreshed\<rparr>])
      else None)"
| "lookup_step (LookupReads i) (ks, ls) =
     (if i < length ls \<and> lo_at (ls ! i) = Refreshed
      then Some (ks, ls[i := (ls ! i)\<lparr>lo_at := Answered (readKey (lo_kid (ls ! i)) ks)\<rparr>]) else None)"
| "lookup_step (TickRefreshes ans finished) (ks, ls) = Some (autoRefresh ans finished ks, ls)"

primrec lookup_run :: "lookupEvent list \<Rightarrow> keySet \<times> lookup list \<Rightarrow> (keySet \<times> lookup list) option" where
  "lookup_run [] s = Some s"
| "lookup_run (ev # evs) s = (case lookup_step ev s of None \<Rightarrow> None | Some s' \<Rightarrow> lookup_run evs s')"

lemma lookup_run_append:
  "lookup_run (evs @ evs') s = (case lookup_run evs s of None \<Rightarrow> None | Some s' \<Rightarrow> lookup_run evs' s')"
  by (induction evs arbitrary: s) (simp_all split: option.split)

text \<open>A call that nothing interrupts is \<open>Key\<close>.\<close>

lemma lookup_alone:
  assumes "checkKey kid now ks = KeyMustRefresh" "published ans = Inr keys"
  shows "lookup_run [LookupChecks kid now, LookupRefreshes 0 ans finished, LookupReads 0] (ks, []) =
    Some (snd (Key kid now ans finished ks), [\<lparr>lo_kid = kid, lo_now = now, lo_at = Answered (fst (Key kid now ans finished ks))\<rparr>])"
  using assms by (simp add: Key_def checked_def refresh_simps)

text \<open>
  However calls interleave, the cache changes as it does under ticks that get the same answers, so the
  keys it holds are those some answer published.
\<close>

fun eventTicks :: "lookupEvent \<Rightarrow> keyOp list" where
  "eventTicks (LookupRefreshes i ans finished) = [Tick ans finished]"
| "eventTicks (TickRefreshes ans finished) = [Tick ans finished]"
| "eventTicks _ = []"

lemma lookup_step_ticks: "lookup_step ev (ks, ls) = Some (ks', ls') \<Longrightarrow> ks' = fold keyStep (eventTicks ev) ks"
  by (cases "(ev, (ks, ls))" rule: lookup_step.cases) (auto simp: autoRefresh_def split: if_splits prod.splits option.splits)

lemma lookup_run_ticks:
  "lookup_run evs (ks, ls) = Some (ks', ls') \<Longrightarrow> ks' = fold keyStep (concat (map eventTicks evs)) ks"
  by (induction evs arbitrary: ks ls) (auto split: option.splits dest!: lookup_step_ticks)

text \<open>The instants of the clock that events show, and those at which the cache was refreshed.\<close>

fun eventTimes :: "lookupEvent \<Rightarrow> Time list" where
  "eventTimes (LookupChecks kid now) = [now]"
| "eventTimes (LookupRefreshes i ans finished) = [finished]"
| "eventTimes (LookupReads i) = []"
| "eventTimes (TickRefreshes ans finished) = [finished]"

fun refreshTimes :: "lookupEvent \<Rightarrow> Time list" where
  "refreshTimes (LookupRefreshes i ans finished) = (case published ans of Inl _ \<Rightarrow> [] | Inr _ \<Rightarrow> [finished])"
| "refreshTimes (TickRefreshes ans finished) = (case published ans of Inl _ \<Rightarrow> [] | Inr _ \<Rightarrow> [finished])"
| "refreshTimes _ = []"

lemma lookup_step_last:
  assumes "lookup_step ev (ks, ls) = Some (ks', ls')"
  shows "refreshTimes ev = [] \<and> ks_lastRefresh ks' = ks_lastRefresh ks \<or>
    refreshTimes ev = [ks_lastRefresh ks'] \<and> eventTimes ev = [ks_lastRefresh ks']"
  using assms
  by (cases "(ev, (ks, ls))" rule: lookup_step.cases)
    (auto simp: autoRefresh_def refresh_def split: if_splits sum.splits)

text \<open>On a clock that does not go back the last refresh is the latest one.\<close>

lemma lookup_run_last:
  assumes "lookup_run evs (ks, ls) = Some (ks', ls')" "sorted (ks_lastRefresh ks # concat (map eventTimes evs))"
  shows "ks_lastRefresh ks' \<in> set (ks_lastRefresh ks # concat (map refreshTimes evs)) \<and>
    (\<forall>t\<in>set (ks_lastRefresh ks # concat (map refreshTimes evs)). t \<le> ks_lastRefresh ks')"
  using assms
proof (induction evs arbitrary: ks ls)
  case (Cons ev evs)
  then obtain ks1 ls1 where s: "lookup_step ev (ks, ls) = Some (ks1, ls1)" "lookup_run evs (ks1, ls1) = Some (ks', ls')"
    by (auto split: option.splits)
  from lookup_step_last [OF s(1)] show ?case
  proof
    assume ev: "refreshTimes ev = [] \<and> ks_lastRefresh ks1 = ks_lastRefresh ks"
    then have "sorted (ks_lastRefresh ks1 # concat (map eventTimes evs))" using Cons.prems(2) by (simp add: sorted_append)
    from Cons.IH [OF s(2) this] ev show ?thesis by simp
  next
    assume ev: "refreshTimes ev = [ks_lastRefresh ks1] \<and> eventTimes ev = [ks_lastRefresh ks1]"
    then have "sorted (ks_lastRefresh ks1 # concat (map eventTimes evs))" "ks_lastRefresh ks \<le> ks_lastRefresh ks1"
      using Cons.prems(2) by simp_all
    from Cons.IH [OF s(2) this(1)] this(2) ev show ?thesis by auto
  qed
qed simp

text \<open>A check leaves the cache to the next one, however many there are.\<close>

lemma checks_run:
  "lookup_run (replicate n (LookupChecks kid now)) (ks, ls) =
     Some (ks, ls @ replicate n \<lparr>lo_kid = kid, lo_now = now, lo_at = checked kid now ks\<rparr>)"
  by (induction n arbitrary: ls) (simp_all add: replicate_append_same flip: append_assoc)

lemma checked_Asking: "checked kid now ks = Asking \<longleftrightarrow> ks_keys ks kid = None \<and> ks_lastRefresh ks + minRefreshInterval \<le> now"
  by (auto simp: checked_def checkKey_def split: option.split)

text \<open>C29: What the throttle of the key cache guarantees, and what it does not. In any history of concurrent
  lookups and ticks, interleaved at the sections under the lock, on a clock that does not go back, a
  lookup asks the identity provider exactly if its key id is not in the cache and at least five seconds have passed
  since the cache was filled and since every refresh that has been stored until it checks, no matter who asked for
  it. Nothing else holds a lookup back: as long as no answer is stored, any number of further
  lookups that check at that instant ask as well, all at once.\<close>

theorem KeySet_throttled:
  assumes "NewKeySet ans0 t0 = Inr ks0" "lookup_run evs (ks0, []) = Some (ks, ls)"
    and "sorted (t0 # concat (map eventTimes (evs @ [LookupChecks kid now])))"
    and "lookup_step (LookupChecks kid now) (ks, ls) = Some (ks', ls @ [l])"
  shows "(lo_at l = Asking \<longleftrightarrow> ks_keys ks kid = None \<and>
      (\<forall>t\<in>set (t0 # concat (map refreshTimes evs)). t + 5000000000 \<le> now)) \<and>
    (\<forall>n. lookup_run (replicate n (LookupChecks kid now)) (ks, ls) = Some (ks, ls @ replicate n l))"
proof -
  have t0: "ks_lastRefresh ks0 = t0" using assms(1) by (auto simp: NewKeySet_def refresh_def split: sum.splits)
  have l: "l = \<lparr>lo_kid = kid, lo_now = now, lo_at = checked kid now ks\<rparr>" using assms(4) by auto
  have "sorted (ks_lastRefresh ks0 # concat (map eventTimes evs))" using assms(3) t0 by (simp add: sorted_append)
  from lookup_run_last [OF assms(2) this]
  have "ks_lastRefresh ks + minRefreshInterval \<le> now \<longleftrightarrow> (\<forall>t\<in>set (t0 # concat (map refreshTimes evs)). t + 5000000000 \<le> now)"
    unfolding t0 minRefreshInterval_def by fastforce
  then show ?thesis using checked_Asking [of kid now ks] checks_run [of _ kid now ks ls] l by simp
qed

section \<open>A provider with one key\<close>

definition sample_jwks :: string where
  "sample_jwks = ''{'' @ quote ''keys'' @ '':[{'' @ quote ''kty'' @ '':'' @ quote ''RSA'' @ '','' @ quote ''kid'' @ '':'' @ quote ''k1'' @ '','' @
     quote ''n'' @ '':'' @ quote ''AQI'' @ '','' @ quote ''e'' @ '':'' @ quote ''Aw'' @ ''}]}''"

definition sample_jwt :: jwtLib where
  "sample_jwt = \<lparr>jwt_kid = \<lambda>t. if t = ''t1'' then Some (Some ''k1'') else None,
     jwt_claims = \<lambda>t key now. if t = ''t1'' \<and> rk_N key = 258 \<and> rk_E key = 3
       then Some \<lparr>c_Subject = ''s1'', c_AuthorizedParty = ''prov'', c_Roles = [''provider'']\<rparr> else None\<rparr>"

lemma sample_published: "published (Answer 200 sample_jwks) = Inr ((\<lambda>_. None)(''k1'' := Some \<lparr>rk_N = 258, rk_E = 3\<rparr>))"
proof -
  have "decodeJwks sample_jwks = Inr [\<lparr>k_Kty = ''RSA'', k_Kid = ''k1'', k_Alg = [], k_N = ''AQI'', k_E = ''Aw''\<rparr>]" by code_simp
  moreover have "jwkToRSAPublicKey \<lparr>k_Kty = ''RSA'', k_Kid = ''k1'', k_Alg = [], k_N = ''AQI'', k_E = ''Aw''\<rparr> = Inr \<lparr>rk_N = 258, rk_E = 3\<rparr>"
    by code_simp
  ultimately show ?thesis by (simp add: published_def bindE_def)
qed

definition sample_keySet :: keySet where
  "sample_keySet = \<lparr>ks_keys = (\<lambda>_. None)(''k1'' := Some \<lparr>rk_N = 258, rk_E = 3\<rparr>), ks_lastRefresh = 0\<rparr>"

lemma sample_NewKeySet: "NewKeySet (Answer 200 sample_jwks) 0 = Inr sample_keySet"
  by (simp add: NewKeySet_def refresh_simps sample_published sample_keySet_def storeKeys_def)

theorem Authenticate_sound_witness:
  "\<exists>ks. Authenticate sample_jwt ''Bearer t1'' 7 (NoAnswer InfraUnavailable) 7 sample_keySet =
     (Inr \<lparr>id_Subject = ''s1'', id_ClientID = ''prov'', id_Roles = [''provider'']\<rparr>, ks) \<and>
     (\<exists>keys. published (Answer 200 sample_jwks) = Inr keys \<and> keys ''k1'' \<noteq> None)"
proof -
  have a: "Authenticate sample_jwt ''Bearer t1'' 7 (NoAnswer InfraUnavailable) 7 sample_keySet =
     (Inr \<lparr>id_Subject = ''s1'', id_ClientID = ''prov'', id_Roles = [''provider'']\<rparr>, sample_keySet)"
    by (simp add: Authenticate_def extractBearerToken_def parseToken_def Key_cases sample_jwt_def sample_keySet_def)
  from Authenticate_sound [OF sample_NewKeySet, of sample_jwt "''Bearer t1''" 7 "NoAnswer InfraUnavailable" 7 "[]"] a
  obtain token kid keys where "''Bearer t1'' = ''Bearer '' @ token" "jwt_kid sample_jwt token = Some (Some kid)"
      "published (Answer 200 sample_jwks) = Inr keys" "keys kid \<noteq> None"
    by (auto simp: published_def)
  then show ?thesis using a by (auto simp: sample_jwt_def split: if_splits)
qed

text \<open>
  Two lookups that check at the same instant both ask; after the first has refreshed the cache at 7s a lookup at 8s is refused,
  and one at 12s asks again.
\<close>

definition sample_lookups :: "lookupEvent list" where
  "sample_lookups = [LookupChecks ''x'' 1000000000, LookupChecks ''x'' 6000000000, LookupChecks ''y'' 6000000000,
     LookupRefreshes 1 (Answer 200 sample_jwks) 7000000000, LookupChecks ''x'' 8000000000, LookupReads 1]"

theorem KeySet_throttled_witness:
  "\<exists>ks ls l. lookup_run sample_lookups (sample_keySet, []) = Some (ks, ls) \<and>
     map lo_at ls = [Answered (Inl noKey), Answered (Inl noKey), Asking, Answered (Inl noKey)] \<and>
     lo_at l = Asking \<and> lookup_run (replicate 1000 (LookupChecks ''x'' 12000000000)) (ks, ls) = Some (ks, ls @ replicate 1000 l)"
proof -
  let ?ks = "sample_keySet\<lparr>ks_lastRefresh := 7000000000\<rparr>"
  obtain ls where run: "lookup_run sample_lookups (sample_keySet, []) = Some (?ks, ls)"
    "map lo_at ls = [Answered (Inl noKey), Answered (Inl noKey), Asking, Answered (Inl noKey)]"
    by (simp add: sample_lookups_def refresh_simps sample_published sample_keySet_def storeKeys_def checked_def checkKey_def readKey_def minRefreshInterval_def)
  have times: "sorted (0 # concat (map eventTimes (sample_lookups @ [LookupChecks ''x'' 12000000000])))"
    by (simp add: sample_lookups_def)
  have "lookup_step (LookupChecks ''x'' 12000000000) (?ks, ls) =
      Some (?ks, ls @ [\<lparr>lo_kid = ''x'', lo_now = 12000000000, lo_at = checked ''x'' 12000000000 ?ks\<rparr>])" by simp
  from KeySet_throttled [OF sample_NewKeySet run(1) times this] run show ?thesis
    by (simp add: sample_lookups_def sample_published sample_keySet_def)
qed

end
