(* ===== verification/Ledger_Listing.thy ===== *)
theory Ledger_Listing
  imports Pending Time_Text Base64
begin

text \<open>
  \<open>internal/infra/postgres/ledger_repository.go\<close>: \<open>ListByWallet\<close> with its cursor. A page is read in
  one query, ordered by time of creation and id; the cursor is the key of the last entry of a page.
\<close>

definition encodeLedgerCursor :: "Time \<Rightarrow> string \<Rightarrow> string" where
  "encodeLedgerCursor createdAt i = b64_encode (rfc3339nano createdAt @ ''|'' @ i)"

text \<open>\<open>strings.SplitN(s, "|", 2)\<close> splits at the first bar.\<close>

definition decodeLedgerCursor :: "string \<Rightarrow> (Time \<times> string) result" where
  "decodeLedgerCursor cursor = (case b64_decode cursor of
       None \<Rightarrow> Inl (InfraErr InfraBadData)
     | Some raw \<Rightarrow>
         (case dropWhile (\<lambda>c. c \<noteq> CHR ''|'') raw of
            [] \<Rightarrow> Inl (InfraErr InfraBadData)
          | _ # rest \<Rightarrow> (case time_parse (takeWhile (\<lambda>c. c \<noteq> CHR ''|'') raw) of
              None \<Rightarrow> Inl (InfraErr InfraBadData)
            | Some createdAt \<Rightarrow> Inr (createdAt, rest))))"

text \<open>The body of the loop over \<open>rows\<close>; the wallet is the one asked for.\<close>

definition scanEntry :: "string \<Rightarrow> ledger_row \<Rightarrow> Entry result" where
  "scanEntry walletID r =
     bindE (FromMinorUnits (lr_amount r) (lr_currency r)) (\<lambda>amount.
     bindE (FromMinorUnits (lr_before r) (lr_currency r)) (\<lambda>before.
     bindE (FromMinorUnits (lr_after r) (lr_currency r)) (\<lambda>after.
     NewEntry (lr_id r) walletID (lr_tx r) (lr_direction r) amount before after (lr_created r))))"

primrec scanEntries :: "string \<Rightarrow> ledger_row list \<Rightarrow> Entry list result" where
  "scanEntries walletID [] = Inr []"
| "scanEntries walletID (r # rs) =
     bindE (scanEntry walletID r) (\<lambda>entry. bindE (scanEntries walletID rs) (\<lambda>entries. Inr (entry # entries)))"

definition row_key :: "ledger_row \<Rightarrow> Time \<times> string" where
  "row_key r = (lr_created r, lr_id r)"

text \<open>Both queries: the rows of the wallet a condition keeps, oldest first, up to a limit Postgres refuses when negative.\<close>

definition page_query :: "string \<Rightarrow> (ledger_row \<Rightarrow> bool) \<Rightarrow> int64 \<Rightarrow> ledger_row list io" where
  "page_query walletID sel lim = stmt (\<lambda>_ d.
     if lim <s 0 then Inl (PgErr PgOutOfRange)
     else Inr (take (unat lim) (sort_key row_key (filter (\<lambda>r. lr_wallet r = walletID \<and> sel r) (entries d))), d))"

definition defaultLedgerPageSize :: int64 where
  "defaultLedgerPageSize = 50"

definition ListByWallet :: "string \<Rightarrow> string \<Rightarrow> int64 \<Rightarrow> (Entry list \<times> string) io" where
  "ListByWallet walletID cursor lim =
     (let limit = (if lim \<le>s 0 then defaultLedgerPageSize else lim) in
      bindM (if cursor = [] then page_query walletID (\<lambda>_. True) (limit + 1)
        else bindM (lift (decodeLedgerCursor cursor)) (\<lambda>(afterCreatedAt, afterID).
          page_query walletID (\<lambda>r. (pg_ts afterCreatedAt, afterID) < row_key r) (limit + 1))) (\<lambda>rows.
      bindM (lift (scanEntries walletID rows)) (\<lambda>entries.
      if sint limit < int (length entries)
      then (let last = entries ! (unat limit - 1) in
        ret (take (unat limit) entries, encodeLedgerCursor (l_createdAt last) (l_id last)))
      else ret (entries, []))))"

section \<open>The cursor\<close>

lemma no_bar_digits: "list_all is_digit s \<Longrightarrow> CHR ''|'' \<notin> set s"
  by (auto simp: list_all_iff is_digit_def)

lemma no_bar: "CHR ''|'' \<notin> set (rfc3339nano t)"
proof -
  have d: "CHR ''|'' \<notin> set (digits k n)" for k n by (rule no_bar_digits [OF digits_all(1)])
  have "set (dropWhile P xs) \<subseteq> set xs" for P and xs :: string by (auto dest: set_dropWhileD)
  then have "CHR ''|'' \<notin> set (fraction n)" for n
    using d [of 9 n] by (auto simp: fraction_def dest: set_dropWhileD)
  then show ?thesis using d by (auto simp: rfc3339nano_def date_time_def Let_def split: prod.split)
qed

text \<open>A page's cursor is read back as the key it was made of: for every instant in the years 0 to
  9999 and every id, decoding the base64 text of \<open>time.RFC3339Nano\<close>, a bar and the id gives the
  instant to the nanosecond and the id, bars in it included.\<close>

lemma ledger_cursor_roundtrip:
  assumes "in_years t"
  shows "decodeLedgerCursor (encodeLedgerCursor t i) = Inr (t, i)"
proof -
  have nb: "takeWhile (\<lambda>c. c \<noteq> CHR ''|'') (rfc3339nano t @ ''|'' @ i) = rfc3339nano t"
    "dropWhile (\<lambda>c. c \<noteq> CHR ''|'') (rfc3339nano t @ ''|'' @ i) = ''|'' @ i"
    by (subst takeWhile_append2 dropWhile_append2; use no_bar [of t] in force)+
  show ?thesis
    using time_parse_format [OF assms] nb by (simp add: decodeLedgerCursor_def encodeLedgerCursor_def b64_roundtrip)
qed

section \<open>Pages\<close>

text \<open>What the program writes can be read back: ids, an ISO currency, and a time with the resolution and range of a timestamp.\<close>

definition readable :: "ledger_row \<Rightarrow> bool" where
  "readable r \<longleftrightarrow> lr_id r \<noteq> [] \<and> lr_wallet r \<noteq> [] \<and> lr_tx r \<noteq> [] \<and> lr_currency r \<in> set iso4217Currencies \<and>
     in_years (lr_created r) \<and> pg_ts (lr_created r) = lr_created r"

definition entry_of :: "ledger_row \<Rightarrow> Entry" where
  "entry_of r = \<lparr>l_id = lr_id r, l_walletID = lr_wallet r, l_transactionID = lr_tx r, l_direction = lr_direction r,
     l_amount = \<lparr>minorUnits = lr_amount r, currency = lr_currency r\<rparr>,
     l_balanceBefore = \<lparr>minorUnits = lr_before r, currency = lr_currency r\<rparr>,
     l_balanceAfter = \<lparr>minorUnits = lr_after r, currency = lr_currency r\<rparr>, l_createdAt = lr_created r\<rparr>"

lemma scanEntry_readable:
  assumes "readable r" "ledger_check r"
  shows "scanEntry (lr_wallet r) r = Inr (entry_of r)"
proof -
  have "currency \<lparr>minorUnits = n, currency = lr_currency r\<rparr> \<noteq> []" for n
    using assms(1) normalizeCurrency_result [of "lr_currency r"] by (auto simp: readable_def)
  then have "entry_ok (entry_of r)"
    using assms by (auto simp: entry_ok_def entry_of_def readable_def ledger_check_def entry_delta_def)
  then have "NewEntry (lr_id r) (lr_wallet r) (lr_tx r) (lr_direction r) (l_amount (entry_of r)) (l_balanceBefore (entry_of r))
      (l_balanceAfter (entry_of r)) (lr_created r) = Inr (entry_of r)"
    by (simp add: NewEntry_Inr_iff) (simp add: entry_of_def)
  then show ?thesis
    using assms(1) by (simp add: scanEntry_def FromMinorUnits_def readable_def) (simp add: entry_of_def)
qed

lemma scanEntries_readable:
  "list_all (\<lambda>r. readable r \<and> ledger_check r \<and> lr_wallet r = i) rs \<Longrightarrow> scanEntries i rs = Inr (map entry_of rs)"
  by (induction rs) (auto simp: scanEntry_readable)

lemma entry_ids_distinct: "table_ok ledger_check ledger_clash rs \<Longrightarrow> distinct (map lr_id rs)"
  by (induction rs) (auto simp: table_ok_def ledger_clash_def)

text \<open>The statement of a wallet: its entries by time and id.\<close>

definition wallet_statement :: "db \<Rightarrow> string \<Rightarrow> ledger_row list" where
  "wallet_statement d i = sort_key row_key (wallet_entries d i)"

lemma rows_after:
  assumes "sorted_wrt (\<lambda>a b. row_key a < row_key b) (rs @ r # rs')"
  shows "filter (\<lambda>x. row_key r < row_key x) (rs @ r # rs') = rs'"
proof -
  have "filter (\<lambda>x. row_key r < row_key x) rs = []" "filter (\<lambda>x. row_key r < row_key x) rs' = rs'"
    using assms by (auto simp: filter_empty_conv filter_id_conv sorted_wrt_append dest: less_imp_not_less)
  then show ?thesis by simp
qed

lemma statement_sorted:
  assumes "db_inv d"
  shows "sorted_wrt (\<lambda>a b. row_key a < row_key b) (wallet_statement d i)"
proof -
  have "distinct (map row_key (entries d))"
    using entry_ids_distinct [OF db_inv_tables(3) [OF assms]] by (auto simp: distinct_map row_key_def inj_on_def)
  then have "distinct (map row_key (wallet_statement d i))"
    by (simp add: wallet_statement_def wallet_entries_def distinct_map inj_on_def)
  moreover have "sorted (map row_key (wallet_statement d i))" by (simp add: wallet_statement_def)
  ultimately have "sorted_wrt (<) (map row_key (wallet_statement d i))" by (simp add: strict_sorted_iff)
  then show ?thesis by (simp add: sorted_wrt_map)
qed

text \<open>A client that follows the cursors from the first page, for at most \<open>n\<close> pages.\<close>

primrec followPages :: "nat \<Rightarrow> string \<Rightarrow> string \<Rightarrow> int64 \<Rightarrow> Entry list list io" where
  "followPages 0 walletID cursor lim = ret []"
| "followPages (Suc n) walletID cursor lim =
     bindM (ListByWallet walletID cursor lim) (\<lambda>(page, next).
       if next = [] then ret [page]
       else bindM (followPages n walletID next lim) (\<lambda>pages. ret (page # pages)))"

lemma page_query_apply:
  assumes "quiet e" "session w = None" "\<not> lim <s 0"
  shows "page_query i sel lim e w =
    (Inr (take (unat lim) (filter sel (wallet_statement (committed w) i))), w\<lparr>ticks := Suc (ticks w)\<rparr>)"
proof -
  have "filter sel (wallet_statement d i) = sort_key row_key (filter (\<lambda>r. lr_wallet r = i \<and> sel r) (entries d))" for d
    by (simp add: wallet_statement_def wallet_entries_def filter_sort conj_commute)
  then show ?thesis using assms by (simp add: page_query_def stmt_def Let_def view_def put_view_def)
qed

lemma ListByWallet_apply:
  assumes e: "quiet e" and w: "session w = None" and d: "db_inv (committed w)"
    and r: "list_all readable (wallet_entries (committed w) i)" and lim: "0 <s lim" "0 <s lim + 1"
    and s: "wallet_statement (committed w) i = A @ R"
    and c: "cursor = (if A = [] then [] else encodeLedgerCursor (lr_created (last A)) (lr_id (last A)))"
  shows "ListByWallet i cursor lim e w =
    (if unat lim < length R
     then (Inr (map entry_of (take (unat lim) R),
       encodeLedgerCursor (lr_created (R ! (unat lim - 1))) (lr_id (R ! (unat lim - 1)))), w\<lparr>ticks := Suc (ticks w)\<rparr>)
     else (Inr (map entry_of R, []), w\<lparr>ticks := Suc (ticks w)\<rparr>))"
proof -
  have pos: "0 < sint lim" "0 < sint (lim + 1)" using lim by (simp_all add: word_sless_alt)
  have k: "unat lim = nat (sint lim)" using pos(1) in_int64_sint [of lim]
    by (simp add: unat_eq_nat_uint uint_sint take_bit_int_eq_self in_int64_def del: nat_uint_eq)
  have k1: "unat (lim + 1) = Suc (unat lim)" proof -
    have "1 + lim \<noteq> 0" using pos(2) by (auto simp: add.commute)
    then show ?thesis using unatSuc [of lim] by (simp add: add.commute)
  qed
  have l: "\<not> lim \<le>s 0" "\<not> lim + 1 <s 0" using pos by (simp_all add: word_sle_eq word_sless_alt)
  have rows: "set (A @ R) \<subseteq> set (wallet_entries (committed w) i)" unfolding s [symmetric] by (simp add: wallet_statement_def)
  have chk: "list_all ledger_check (entries (committed w))" using db_inv_tables(3) [OF d] by (simp add: table_ok_def)
  have ok: "readable x \<and> ledger_check x \<and> lr_wallet x = i" if "x \<in> set (A @ R)" for x
    using that rows r chk by (auto simp: wallet_entries_def list_all_iff)
  have scan: "scanEntries i (take n R) = Inr (map entry_of (take n R))" for n
    by (rule scanEntries_readable) (auto simp: list_all_iff dest!: in_set_takeD intro!: ok [simplified])
  have q: "(if cursor = [] then page_query i (\<lambda>_. True) (lim + 1)
      else bindM (lift (decodeLedgerCursor cursor)) (\<lambda>(afterCreatedAt, afterID).
        page_query i (\<lambda>r. (pg_ts afterCreatedAt, afterID) < row_key r) (lim + 1))) e w =
    (Inr (take (Suc (unat lim)) R), w\<lparr>ticks := Suc (ticks w)\<rparr>)"
  proof (cases "A = []")
    case True
    then show ?thesis using c s page_query_apply [OF e w l(2)] by (simp add: k1)
  next
    case False
    then have a: "readable (last A)" "A @ R = butlast A @ last A # R" using ok [of "last A"] by simp_all
    have ne: "cursor \<noteq> []" using False c by (cases "rfc3339nano (lr_created (last A)) @ ''|'' @ lr_id (last A)" rule: b64_encode.cases)
        (simp_all add: encodeLedgerCursor_def)
    have "decodeLedgerCursor cursor = Inr (lr_created (last A), lr_id (last A))"
      using False c a(1) ledger_cursor_roundtrip by (simp add: readable_def)
    moreover have "filter (\<lambda>r. (lr_created (last A), lr_id (last A)) < row_key r) (A @ R) = R"
      using rows_after [of "butlast A" "last A" R] statement_sorted [OF d, of i] unfolding s a(2) row_key_def [of "last A"] by simp
    moreover have "pg_ts (lr_created (last A)) = lr_created (last A)" using a(1) by (simp add: readable_def)
    ultimately show ?thesis using ne page_query_apply [OF e w l(2)] by (simp add: bindM_apply s k1)
  qed
  show ?thesis
  proof (cases "unat lim < length R")
    case True
    then have "sint lim < int (length (map entry_of (take (Suc (unat lim)) R)))" using k pos by simp
    moreover have "map entry_of (take (Suc (unat lim)) R) ! (unat lim - 1) = entry_of (R ! (unat lim - 1))" 
      using True k pos by simp
    moreover have "take (unat lim) (map entry_of (take (Suc (unat lim)) R)) = map entry_of (take (unat lim) R)"
      by (simp add: take_map)
    ultimately show ?thesis using l True scan [of "Suc (unat lim)"]
      by (simp add: ListByWallet_def Let_def bindM_apply [of _ _ e w] q) (simp add: bindM_apply entry_of_def)
  next
    case False
    then have "\<not> sint lim < int (length (map entry_of (take (Suc (unat lim)) R)))" "take (Suc (unat lim)) R = R" using k pos by simp_all
    then show ?thesis using l False scan [of "Suc (unat lim)"]
      by (simp add: ListByWallet_def Let_def bindM_apply [of _ _ e w] q) (simp add: bindM_apply)
  qed
qed

lemma followPages_from:
  assumes "quiet e" "session w = None" "db_inv (committed w)" "list_all readable (wallet_entries (committed w) i)"
    "0 <s lim" "0 <s lim + 1" "wallet_statement (committed w) i = A @ R"
    "cursor = (if A = [] then [] else encodeLedgerCursor (lr_created (last A)) (lr_id (last A)))" "length R < n"
  shows "\<exists>pages w'. followPages n i cursor lim e w = (Inr pages, w') \<and> concat pages = map entry_of R \<and>
    list_all (\<lambda>p. length p \<le> unat lim) pages"
  using assms(2-4,7-)
proof (induction n arbitrary: w A R cursor)
  case (Suc n)
  let ?k = "unat lim" and ?w = "w\<lparr>ticks := Suc (ticks w)\<rparr>"
  note ap = ListByWallet_apply [OF assms(1) Suc.prems(1-3) assms(5,6) Suc.prems(4,5)]
  have k: "0 < ?k" using assms(5) by (cases "lim = 0") (simp_all add: unat_gt_0)
  show ?case
  proof (cases "?k < length R")
    case True
    let ?c = "encodeLedgerCursor (lr_created (R ! (?k - 1))) (lr_id (R ! (?k - 1)))"
    have ne: "?c \<noteq> []" by (cases "rfc3339nano (lr_created (R ! (?k - 1))) @ ''|'' @ lr_id (R ! (?k - 1))" rule: b64_encode.cases)
        (simp_all add: encodeLedgerCursor_def)
    have la: "A @ take ?k R \<noteq> []" "last (A @ take ?k R) = R ! (?k - 1)" using True k by (auto simp: last_append last_conv_nth)
    have st: "wallet_statement (committed ?w) i = (A @ take ?k R) @ drop ?k R" using Suc.prems(4) by simp
    have "\<exists>pages w'. followPages n i ?c lim e ?w = (Inr pages, w') \<and> concat pages = map entry_of (drop ?k R) \<and>
        list_all (\<lambda>p. length p \<le> ?k) pages"
      using Suc.prems(1-3,6) True k la by (intro Suc.IH [OF _ _ _ st]) (simp_all del: append_is_Nil_conv)
    then obtain pages w' where "followPages n i ?c lim e ?w = (Inr pages, w')" "concat pages = map entry_of (drop ?k R)"
      "list_all (\<lambda>p. length p \<le> ?k) pages" by blast
    moreover have "map entry_of (take ?k R) @ map entry_of (drop ?k R) = map entry_of R" by (simp flip: map_append)
    ultimately show ?thesis using ap True ne by (simp add: bindM_apply)
  next
    case False
    then show ?thesis using ap by (simp add: bindM_apply)
  qed
qed simp

text \<open>C30: A client that follows the cursors sees the whole ledger of a wallet, once and in order: on a
  database whose entries the program wrote, and while nobody writes, the pages \<open>ListByWallet\<close>
  returns from the empty cursor on contain no more entries than the limit and are together the
  wallet's entries ordered by time and id, none twice and none left out, and the last page says so.\<close>

theorem ledger_pages_exact:
  assumes "quiet e" "session w = None" "db_inv (committed w)"
    and "list_all readable (wallet_entries (committed w) walletID)" "0 <s lim" "0 <s lim + 1"
    and "length (wallet_entries (committed w) walletID) < n"
  shows "\<exists>pages w'. followPages n walletID [] lim e w = (Inr pages, w') \<and>
    list_all (\<lambda>p. length p \<le> unat lim) pages \<and>
    concat pages = map entry_of (sort_key (\<lambda>r. (lr_created r, lr_id r)) (wallet_entries (committed w) walletID))"
proof -
  have "length (wallet_statement (committed w) walletID) < n" using assms(7) by (simp add: wallet_statement_def)
  from followPages_from [OF assms(1-6), of "[]", OF _ _ this] show ?thesis
    by (auto simp: wallet_statement_def row_key_def [abs_def])
qed

text \<open>Two entries, one per page.\<close>

definition two_entries :: db where
  "two_entries = waiting_db\<lparr>entries := [sample_entry_row, sample_entry_row\<lparr>lr_id := ''e9'', lr_tx := ''t1'', lr_amount := 50, lr_before := 10000,
       lr_after := 10050\<rparr>]\<rparr>"

lemma two_entries_inv: "db_inv two_entries"
  by (simp add: two_entries_def waiting_db_def waiting_row_def db_inv_def schema_ok_def sample_rows table_ok_def wallet_check_def tx_check_def
      ledger_check_def tx_amount_by_kind_def tx_kind_fields_def tx_reference_by_kind_def in_int32_def
      tx_fk_def ledger_fk_def entry_currency_ok_def currency_format_def isAllLetters_def tx_clash_def same_key_def
      processed_reversal_def ledger_clash_def)

theorem ledger_pages_exact_witness:
  "\<exists>pages. fst (followPages 3 ''w1'' [] 1 sample_env (world_of two_entries)) = Inr pages \<and> map (map l_id) pages = [[''e0''], [''e9'']]"
proof -
  have "in_years 0" by code_simp
  then have "list_all readable (wallet_entries two_entries ''w1'')"
    by (simp add: two_entries_def waiting_db_def sample_rows wallet_entries_def readable_def pg_ts_def)
  moreover have "length (wallet_entries two_entries ''w1'') < 3" by (simp add: two_entries_def waiting_db_def sample_rows wallet_entries_def)
  moreover have "0 <s (1 :: int64)" "0 <s (1 :: int64) + 1" by (simp_all add: word_sless_alt)
  moreover have "map entry_of (sort_key (\<lambda>r. (lr_created r, lr_id r)) (wallet_entries two_entries ''w1'')) =
      map entry_of (entries two_entries)"
    by (simp add: two_entries_def waiting_db_def sample_rows wallet_entries_def)
  ultimately obtain pages w' where p: "followPages 3 ''w1'' [] 1 sample_env (world_of two_entries) = (Inr pages, w')"
    "list_all (\<lambda>p. length p \<le> 1) pages" "concat pages = map entry_of (entries two_entries)"
    using ledger_pages_exact [OF sample_quiet, of "world_of two_entries" "''w1''" 1 3] two_entries_inv
    by (auto simp: world_of_def)
  have "case fst (followPages 3 ''w1'' [] 1 sample_env (world_of two_entries)) of Inr ps \<Rightarrow> map (map l_id) ps = [[''e0''], [''e9'']] | Inl _ \<Rightarrow> False"
    by code_simp
  then show ?thesis using p by simp
qed

end
