(* ===== verification/Http_Api.thy ===== *)
theory Http_Api
  imports "HOL-Library.AList" Use_Cases Append_Only Identity Ledger_Listing
begin

text \<open>
  \<open>internal/infra/http\<close>: the handlers of the HTTP API, the middleware around them and the routes. A
  handler maps a request to the response it writes; the multiplexer has already chosen the route and
  bound its path values. A body is the value given to \<open>writeJSON\<close>; bytes and headers of the response,
  request logging and the server itself are left out.
\<close>

section \<open>Requests and responses\<close>

text \<open>A header or query parameter that is absent is empty; \<open>rq_Identity\<close> is the value in the context.\<close>

record request =
  rq_Authorization :: string
  rq_IdempotencyKey :: string
  rq_Body :: string
  rq_Path :: "string \<Rightarrow> string"
  rq_Query :: "string \<Rightarrow> string"
  rq_Identity :: "Identity option"

text \<open>A message is a text, or a text followed by \<open>err.Error()\<close>.\<close>

datatype message_text = Says string | SaysError string go_error

record wageringResponse =
  wr_TransactionID :: string
  wr_Status :: string
  wr_Balance :: Money
  wr_IdempotentReplay :: bool
  wr_FailureCode :: string

record wagerTransactionResponse =
  tr_TransactionID :: string
  tr_ProviderID :: string
  tr_ExternalTransactionID :: string
  tr_WalletID :: string
  tr_PlayerID :: string
  tr_Kind :: string
  tr_Status :: string
  tr_Money :: Money
  tr_FailureCode :: string
  tr_FinancialResult :: "Money option"

record walletResponse =
  vr_ID :: string
  vr_PlayerID :: string
  vr_Balance :: Money
  vr_Version :: int64

record ledgerEntryResponse =
  er_ID :: string
  er_TransactionID :: string
  er_Direction :: string
  er_Amount :: Money
  er_BalanceBefore :: Money
  er_BalanceAfter :: Money
  er_CreatedAt :: string

record ledgerPageResponse =
  pr_Entries :: "ledgerEntryResponse list"
  pr_NextCursor :: string

record reconciliationResponse =
  cr_WalletID :: string
  cr_StoredBalance :: Money
  cr_CalculatedBalance :: Money
  cr_Difference :: Money
  cr_Consistent :: bool
  cr_CheckedEntries :: nat

datatype body = NoBody | ErrorBody string message_text | WageringBody wageringResponse
  | TransactionBody wagerTransactionResponse | WalletBody walletResponse | LedgerBody ledgerPageResponse
  | ReconciliationBody reconciliationResponse | HealthBody string "(string \<times> go_error) list"

record response =
  rs_Status :: nat
  rs_Body :: body

type_synonym handler = "request \<Rightarrow> response io"

definition writeJSON :: "nat \<Rightarrow> body \<Rightarrow> response io" where
  "writeJSON status v = ret \<lparr>rs_Status = status, rs_Body = v\<rparr>"

definition writeJSONError :: "nat \<Rightarrow> string \<Rightarrow> message_text \<Rightarrow> response io" where
  "writeJSONError status code message = ret \<lparr>rs_Status = status, rs_Body = ErrorBody code message\<rparr>"

text \<open>The letters of the messages outside ASCII, in UTF-8.\<close>

definition a_tilde :: string where "a_tilde = [CHR 0xC3, CHR 0xA3]"
definition a_acute :: string where "a_acute = [CHR 0xC3, CHR 0xA1]"
definition a_grave :: string where "a_grave = [CHR 0xC3, CHR 0xA0]"
definition c_cedilla :: string where "c_cedilla = [CHR 0xC3, CHR 0xA7]"
definition e_acute :: string where "e_acute = [CHR 0xC3, CHR 0xA9]"
definition i_acute :: string where "i_acute = [CHR 0xC3, CHR 0xAD]"
definition o_acute :: string where "o_acute = [CHR 0xC3, CHR 0xB3]"

definition cao :: string where "cao = c_cedilla @ a_tilde @ ''o''"
definition nao :: string where "nao = ''n'' @ a_tilde @ ''o ''"

definition invalidBody :: string where
  "invalidBody = ''corpo da requisi'' @ cao @ '' inv'' @ a_acute @ ''lido: ''"

section \<open>Wagering\<close>

record wageringRequest =
  wq_ProviderID :: string
  wq_ExternalTransactionID :: string
  wq_PlayerID :: string
  wq_WalletID :: string
  wq_RoundID :: string
  wq_GameID :: string
  wq_Kind :: string
  wq_Money :: Money
  wq_ReferenceExternalTransactionID :: string

definition noWageringRequest :: wageringRequest where
  "noWageringRequest = \<lparr>wq_ProviderID = [], wq_ExternalTransactionID = [], wq_PlayerID = [], wq_WalletID = [],
     wq_RoundID = [], wq_GameID = [], wq_Kind = [], wq_Money = zeroMoney, wq_ReferenceExternalTransactionID = []\<rparr>"

definition wageringNames :: "string list" where
  "wageringNames = [''providerId'', ''externalTransactionId'', ''playerId'', ''walletId'', ''roundId'', ''gameId'',
     ''kind'', ''money'', ''referenceExternalTransactionId'']"

definition storeWagering :: "wageringRequest store" where
  "storeWagering f v s =
     (if f = ''providerId'' then storeString wq_ProviderID_update v s
      else if f = ''externalTransactionId'' then storeString wq_ExternalTransactionID_update v s
      else if f = ''playerId'' then storeString wq_PlayerID_update v s
      else if f = ''walletId'' then storeString wq_WalletID_update v s
      else if f = ''roundId'' then storeString wq_RoundID_update v s
      else if f = ''gameId'' then storeString wq_GameID_update v s
      else if f = ''kind'' then storeString wq_Kind_update v s
      else if f = ''money'' then storeMoney wq_Money_update v s
      else storeString wq_ReferenceExternalTransactionID_update v s)"

definition decodeWagering :: "string \<Rightarrow> wageringRequest result" where
  "decodeWagering body = fillStruct wageringNames storeWagering noWageringRequest (readFirst body)"

definition wageringInput :: "string \<Rightarrow> wageringRequest \<Rightarrow> ProcessInput" where
  "wageringInput key req = \<lparr>in_ProviderID = wq_ProviderID req, in_ExternalTransactionID = wq_ExternalTransactionID req,
     in_IdempotencyKey = key, in_PlayerID = wq_PlayerID req, in_WalletID = wq_WalletID req, in_RoundID = wq_RoundID req,
     in_GameID = wq_GameID req, in_Kind = wq_Kind req, in_Money = wq_Money req,
     in_ReferenceExternalTransactionID = wq_ReferenceExternalTransactionID req\<rparr>"

definition writeProcessWagerTransactionError :: "go_error \<Rightarrow> response io" where
  "writeProcessWagerTransactionError err =
     (if err = UsecaseErr Usecase_ErrIdempotencyConflict then writeJSONError 409 ''idempotency_conflict'' (SaysError [] err)
      else if err = UsecaseErr Usecase_ErrUnsupportedKind then writeJSONError 501 ''unsupported_kind'' (SaysError [] err)
      else if err = UsecaseErr Usecase_ErrWalletPlayerMismatch then writeJSONError 400 ''wallet_player_mismatch'' (SaysError [] err)
      else if err = UsecaseErr Usecase_ErrTooManyRetries then writeJSONError 503 ''too_many_retries'' (SaysError [] err)
      else if err = PortsErr Ports_ErrNotFound then writeJSONError 404 ''not_found'' (Says (''carteira '' @ nao @ ''encontrada''))
      else if err = InfraErr InfraContextCanceled \<or> err = InfraErr InfraDeadlineExceeded
      then writeJSONError 503 ''temporarily_unavailable'' (Says (''servi'' @ c_cedilla @ ''o temporariamente indispon'' @ i_acute @ ''vel''))
      else if IsInputValidationError err then writeJSONError 400 ''invalid_body'' (SaysError [] err)
      else writeJSONError 500 ''internal_error'' (Says (''erro interno ao processar transa'' @ cao)))"

definition handleProcessWagerTransaction :: "UseCase \<Rightarrow> handler" where
  "handleProcessWagerTransaction uc r = (case rq_Identity r of
       None \<Rightarrow> writeJSONError 401 ''unauthorized'' (Says (''identidade '' @ nao @ ''encontrada''))
     | Some identity \<Rightarrow>
         if rq_IdempotencyKey r = []
         then writeJSONError 400 ''invalid_request'' (Says (''header Idempotency-Key '' @ e_acute @ '' obrigat'' @ o_acute @ ''rio''))
         else case decodeWagering (rq_Body r) of
           Inl err \<Rightarrow> writeJSONError 400 ''invalid_body'' (SaysError invalidBody err)
         | Inr req \<Rightarrow>
             if wq_ProviderID req = [] \<or> wq_ExternalTransactionID req = [] \<or> wq_PlayerID req = [] \<or> wq_WalletID req = [] \<or>
               wq_RoundID req = [] \<or> wq_GameID req = [] \<or> wq_Kind req = []
             then writeJSONError 400 ''invalid_body'' (Says (''campos obrigat'' @ o_acute @ ''rios ausentes''))
             else if wq_ProviderID req \<noteq> id_ClientID identity
             then writeJSONError 403 ''forbidden'' (Says (''providerId '' @ nao @ ''corresponde '' @ a_grave @ '' identidade autenticada''))
             else bindM (attempting (Execute uc (wageringInput (rq_IdempotencyKey r) req))) (\<lambda>res. case res of
               Inl err \<Rightarrow> writeProcessWagerTransactionError err
             | Inr out \<Rightarrow> writeJSON (if out_IdempotentReplay out then 200 else 201) (WageringBody
                 \<lparr>wr_TransactionID = out_TransactionID out, wr_Status = out_Status out, wr_Balance = out_Balance out,
                  wr_IdempotentReplay = out_IdempotentReplay out, wr_FailureCode = out_FailureCode out\<rparr>)))"

definition transactionResponse :: "WagerTransaction \<Rightarrow> wagerTransactionResponse" where
  "transactionResponse tx = \<lparr>tr_TransactionID = t_id tx, tr_ProviderID = t_providerID tx, tr_ExternalTransactionID = t_externalID tx,
     tr_WalletID = t_walletID tx, tr_PlayerID = t_playerID tx, tr_Kind = Kind_str (t_kind tx), tr_Status = Status_str (t_status tx),
     tr_Money = t_money tx, tr_FailureCode = t_failureCode tx, tr_FinancialResult = t_financialResult tx\<rparr>"

definition ownTransactionsOnly :: "response io" where
  "ownTransactionsOnly = writeJSONError 403 ''forbidden'' (Says (''acesso restrito '' @ a_grave @ ''s pr'' @ o_acute @ ''prias transa'' @
     c_cedilla @ [CHR 0xC3, CHR 0xB5] @ ''es do provedor''))"

definition transactionLookupError :: "go_error \<Rightarrow> response io" where
  "transactionLookupError err =
     (if err = PortsErr Ports_ErrNotFound then writeJSONError 404 ''not_found'' (Says (''transa'' @ cao @ '' '' @ nao @ ''encontrada''))
      else writeJSONError 500 ''internal_error'' (Says (''erro ao buscar transa'' @ cao)))"

definition handleGetWagerTransaction :: handler where
  "handleGetWagerTransaction r = bindM (attempting (TxFindByID (rq_Path r ''id''))) (\<lambda>res. case res of
       Inl err \<Rightarrow> transactionLookupError err
     | Inr tx \<Rightarrow>
         if (case rq_Identity r of None \<Rightarrow> True | Some identity \<Rightarrow> \<not> HasRole identity ''internal'' \<and>
           (\<not> HasRole identity ''provider'' \<or> t_providerID tx = [] \<or> t_providerID tx \<noteq> id_ClientID identity))
         then ownTransactionsOnly
         else writeJSON 200 (TransactionBody (transactionResponse tx)))"

definition handleGetWagerTransactionByProviderAndExternalID :: handler where
  "handleGetWagerTransactionByProviderAndExternalID r =
     (if (case rq_Identity r of None \<Rightarrow> True | Some identity \<Rightarrow> \<not> HasRole identity ''internal'' \<and>
       (\<not> HasRole identity ''provider'' \<or> id_ClientID identity \<noteq> rq_Path r ''providerId''))
      then ownTransactionsOnly
      else bindM (attempting (TxFindByProviderAndExternalID (rq_Path r ''providerId'') (rq_Path r ''externalId''))) (\<lambda>res. case res of
        Inl err \<Rightarrow> transactionLookupError err
      | Inr tx \<Rightarrow> writeJSON 200 (TransactionBody (transactionResponse tx))))"

section \<open>Wallets\<close>

record openWalletRequest =
  oq_PlayerID :: string
  oq_InitialBalance :: Money

definition storeOpenWallet :: "openWalletRequest store" where
  "storeOpenWallet f v s =
     (if f = ''playerId'' then storeString oq_PlayerID_update v s else storeMoney oq_InitialBalance_update v s)"

definition decodeOpenWallet :: "string \<Rightarrow> openWalletRequest result" where
  "decodeOpenWallet body = fillStruct [''playerId'', ''initialBalance''] storeOpenWallet
     \<lparr>oq_PlayerID = [], oq_InitialBalance = zeroMoney\<rparr> (readFirst body)"

definition handleOpenWallet :: handler where
  "handleOpenWallet r = (case decodeOpenWallet (rq_Body r) of
       Inl err \<Rightarrow> writeJSONError 400 ''invalid_body'' (SaysError invalidBody err)
     | Inr req \<Rightarrow>
         if oq_PlayerID req = [] then writeJSONError 400 ''invalid_body'' (Says (''playerId '' @ e_acute @ '' obrigat'' @ o_acute @ ''rio''))
         else bindM (attempting (OpenWalletExecute \<lparr>ow_PlayerID = oq_PlayerID req, ow_InitialBalance = oq_InitialBalance req\<rparr>))
           (\<lambda>res. case res of
             Inl err \<Rightarrow>
               if err = UsecaseErr Usecase_ErrWalletAlreadyExists
               then writeJSONError 409 ''wallet_already_exists''
                 (Says (''j'' @ a_acute @ '' existe uma carteira para este player e moeda''))
               else writeJSONError 400 ''invalid_request'' (SaysError [] err)
           | Inr out \<Rightarrow> writeJSON 201 (WalletBody \<lparr>vr_ID = oo_ID out, vr_PlayerID = oo_PlayerID out,
               vr_Balance = oo_Balance out, vr_Version = oo_Version out\<rparr>)))"

definition handleGetWallet :: handler where
  "handleGetWallet r = bindM (attempting (WalletFindByID (rq_Path r ''id''))) (\<lambda>res. case res of
       Inl err \<Rightarrow>
         if err = PortsErr Ports_ErrNotFound then writeJSONError 404 ''not_found'' (Says (''carteira '' @ nao @ ''encontrada''))
         else writeJSONError 500 ''internal_error'' (Says ''erro ao buscar carteira'')
     | Inr found \<Rightarrow> writeJSON 200 (WalletBody \<lparr>vr_ID = w_id found, vr_PlayerID = w_playerID found,
         vr_Balance = w_balance found, vr_Version = w_version found\<rparr>))"

definition maxLedgerPageSize :: int64 where
  "maxLedgerPageSize = 200"

definition entryResponse :: "Entry \<Rightarrow> ledgerEntryResponse" where
  "entryResponse en = \<lparr>er_ID = l_id en, er_TransactionID = l_transactionID en, er_Direction = Direction_str (l_direction en),
     er_Amount = l_amount en, er_BalanceBefore = l_balanceBefore en, er_BalanceAfter = l_balanceAfter en,
     er_CreatedAt = rfc3339milli (l_createdAt en)\<rparr>"

definition pageLimit :: "string \<Rightarrow> int64 option" where
  "pageLimit raw = (if raw = [] then Some 50 else case parseInt64 raw of
       None \<Rightarrow> None
     | Some parsed \<Rightarrow> if parsed \<le>s 0 \<or> maxLedgerPageSize <s parsed then None else Some parsed)"

definition handleGetWalletLedger :: handler where
  "handleGetWalletLedger r = (case pageLimit (rq_Query r ''limit'') of
       None \<Rightarrow> writeJSONError 400 ''invalid_request'' (Says (''limit deve ser um inteiro positivo at'' @ e_acute @ '' 200''))
     | Some limit \<Rightarrow> bindM (attempting (ListByWallet (rq_Path r ''id'') (rq_Query r ''cursor'') limit)) (\<lambda>res. case res of
         Inl err \<Rightarrow> writeJSONError 400 ''invalid_cursor'' (SaysError (''cursor inv'' @ a_acute @ ''lido: '') err)
       | Inr (es, nextCursor) \<Rightarrow>
           writeJSON 200 (LedgerBody \<lparr>pr_Entries = map entryResponse es, pr_NextCursor = nextCursor\<rparr>)))"

definition handleReconcileWallet :: "bool \<Rightarrow> handler" where
  "handleReconcileWallet withMetrics r = bindM (attempting (ReconcileWalletExecute withMetrics (rq_Path r ''id''))) (\<lambda>res. case res of
       Inl err \<Rightarrow>
         if err = PortsErr Ports_ErrNotFound then writeJSONError 404 ''not_found'' (Says (''carteira '' @ nao @ ''encontrada''))
         else writeJSONError 500 ''internal_error'' (Says ''erro ao reconciliar carteira'')
     | Inr out \<Rightarrow> writeJSON 200 (ReconciliationBody \<lparr>cr_WalletID = rw_WalletID out, cr_StoredBalance = rw_StoredBalance out,
         cr_CalculatedBalance = rw_CalculatedBalance out, cr_Difference = rw_Difference out,
         cr_Consistent = rw_Consistent out, cr_CheckedEntries = rw_CheckedEntries out\<rparr>))"

section \<open>Health\<close>

text \<open>\<open>failures\<close> is a map: a later checker of the same name replaces an earlier one.\<close>

primrec checkAll :: "(string \<times> unit io) list \<Rightarrow> (string \<times> go_error) list \<Rightarrow> (string \<times> go_error) list io" where
  "checkAll [] failures = ret failures"
| "checkAll (c # cs) failures = bindM (attempting (snd c)) (\<lambda>res. case res of
       Inl err \<Rightarrow> checkAll cs (AList.update (fst c) err failures)
     | Inr _ \<Rightarrow> checkAll cs failures)"

definition handleLive :: handler where
  "handleLive r = ret \<lparr>rs_Status = 200, rs_Body = NoBody\<rparr>"

definition handleReady :: "(string \<times> unit io) list \<Rightarrow> handler" where
  "handleReady checkers r = bindM (checkAll checkers []) (\<lambda>failures.
     if failures \<noteq> [] then writeJSON 503 (HealthBody ''unavailable'' failures)
     else writeJSON 200 (HealthBody ''ok'' []))"

section \<open>Middleware and routes\<close>

text \<open>\<open>Authenticate\<close>, given what becomes of a header: the message of a 401 or the identity.\<close>

definition authenticated :: "(string \<Rightarrow> string + Identity) \<Rightarrow> handler \<Rightarrow> handler" where
  "authenticated auth next r = (case auth (rq_Authorization r) of
       Inl msg \<Rightarrow> ret \<lparr>rs_Status = 401, rs_Body = ErrorBody ''Unauthorized'' (Says msg)\<rparr>
     | Inr identity \<Rightarrow> next (r\<lparr>rq_Identity := Some identity\<rparr>))"

definition RequireRole :: "string \<Rightarrow> handler \<Rightarrow> handler" where
  "RequireRole role next r =
     (if (case rq_Identity r of None \<Rightarrow> True | Some identity \<Rightarrow> \<not> HasRole identity role)
      then ret \<lparr>rs_Status = 403, rs_Body = ErrorBody ''Forbidden'' (Says (''requer a role '' @ [CHR 0x22] @ role @ [CHR 0x22]))\<rparr>
      else next r)"

text \<open>The first middleware is the outermost.\<close>

definition chain :: "handler \<Rightarrow> (handler \<Rightarrow> handler) list \<Rightarrow> handler" where
  "chain h mws = foldr (\<lambda>mw h. mw h) mws h"

datatype endpoint = PostTransaction | GetTransaction | GetProviderTransaction
  | PostWallet | GetWallet | GetWalletLedger | PostReconciliation

fun RegisterWageringRoutes :: "UseCase \<Rightarrow> (handler \<Rightarrow> handler) \<Rightarrow> (handler \<Rightarrow> handler) \<Rightarrow> endpoint \<Rightarrow> handler option" where
  "RegisterWageringRoutes uc authenticate requireProvider PostTransaction =
     Some (chain (handleProcessWagerTransaction uc) [authenticate, requireProvider])"
| "RegisterWageringRoutes uc authenticate requireProvider GetTransaction = Some (chain handleGetWagerTransaction [authenticate])"
| "RegisterWageringRoutes uc authenticate requireProvider GetProviderTransaction =
     Some (chain handleGetWagerTransactionByProviderAndExternalID [authenticate])"
| "RegisterWageringRoutes uc authenticate requireProvider _ = None"

fun RegisterWalletRoutes :: "bool \<Rightarrow> (handler \<Rightarrow> handler) \<Rightarrow> (handler \<Rightarrow> handler) \<Rightarrow> endpoint \<Rightarrow> handler option" where
  "RegisterWalletRoutes withMetrics authenticate requireInternal PostWallet =
     Some (chain handleOpenWallet [authenticate, requireInternal])"
| "RegisterWalletRoutes withMetrics authenticate requireInternal GetWallet =
     Some (chain handleGetWallet [authenticate, requireInternal])"
| "RegisterWalletRoutes withMetrics authenticate requireInternal GetWalletLedger =
     Some (chain handleGetWalletLedger [authenticate, requireInternal])"
| "RegisterWalletRoutes withMetrics authenticate requireInternal PostReconciliation =
     Some (chain (handleReconcileWallet withMetrics) [authenticate, requireInternal])"
| "RegisterWalletRoutes withMetrics authenticate requireInternal _ = None"

text \<open>The two registrations as \<open>module.go\<close> makes them; every endpoint is registered.\<close>

definition route :: "UseCase \<Rightarrow> bool \<Rightarrow> (string \<Rightarrow> string + Identity) \<Rightarrow> endpoint \<Rightarrow> handler" where
  "route uc withMetrics auth ep =
     (case RegisterWalletRoutes withMetrics (authenticated auth) (RequireRole ''internal'') ep of
        Some h \<Rightarrow> h
      | None \<Rightarrow> (case RegisterWageringRoutes uc (authenticated auth) (RequireRole ''provider'') ep of
          Some h \<Rightarrow> h
        | None \<Rightarrow> (\<lambda>_. ret \<lparr>rs_Status = 404, rs_Body = NoBody\<rparr>)))"

lemma route_simps [simp]:
  "route uc withMetrics auth PostTransaction =
     chain (handleProcessWagerTransaction uc) [authenticated auth, RequireRole ''provider'']"
  "route uc withMetrics auth GetTransaction = chain handleGetWagerTransaction [authenticated auth]"
  "route uc withMetrics auth GetProviderTransaction =
     chain handleGetWagerTransactionByProviderAndExternalID [authenticated auth]"
  "route uc withMetrics auth PostWallet = chain handleOpenWallet [authenticated auth, RequireRole ''internal'']"
  "route uc withMetrics auth GetWallet = chain handleGetWallet [authenticated auth, RequireRole ''internal'']"
  "route uc withMetrics auth GetWalletLedger = chain handleGetWalletLedger [authenticated auth, RequireRole ''internal'']"
  "route uc withMetrics auth PostReconciliation =
     chain (handleReconcileWallet withMetrics) [authenticated auth, RequireRole ''internal'']"
  by (simp_all add: route_def)

section \<open>The books\<close>

lemma keeper_page_query [keeper_intros]: "book_keeper (page_query i sel lim)"
  unfolding page_query_def by (rule keeper_stmt) (auto split: if_splits)

lemma keeper_ListByWallet [keeper_intros]: "book_keeper (ListByWallet i cursor lim)"
  unfolding ListByWallet_def Let_def by (intro keeper_intros)

lemma keeper_reads [keeper_intros]:
  "book_keeper (TxFindByID i)" "book_keeper (TxFindByProviderAndExternalID p x)" "book_keeper (WalletFindByID i)"
  unfolding TxFindByID_def TxFindByProviderAndExternalID_def WalletFindByID_def by (intro keeper_intros)+

lemma keeper_write [keeper_intros]: "book_keeper (writeJSON st v)" "book_keeper (writeJSONError st c m)"
  unfolding writeJSON_def writeJSONError_def by (intro keeper_intros)+

lemma keeper_errors [keeper_intros]:
  "book_keeper (writeProcessWagerTransactionError err)" "book_keeper (transactionLookupError err)" "book_keeper ownTransactionsOnly"
  unfolding writeProcessWagerTransactionError_def transactionLookupError_def ownTransactionsOnly_def by (intro keeper_intros)+

lemma keeper_handlers:
  "book_keeper (handleProcessWagerTransaction uc r)" "book_keeper (handleGetWagerTransaction r)"
  "book_keeper (handleGetWagerTransactionByProviderAndExternalID r)" "book_keeper (handleOpenWallet r)"
  "book_keeper (handleGetWallet r)" "book_keeper (handleGetWalletLedger r)" "book_keeper (handleReconcileWallet b r)"
  unfolding handleProcessWagerTransaction_def handleGetWagerTransaction_def handleOpenWallet_def handleGetWallet_def
    handleGetWagerTransactionByProviderAndExternalID_def handleGetWalletLedger_def handleReconcileWallet_def
  by (intro keeper_intros)+

lemma keeper_middleware:
  assumes "\<And>r. book_keeper (h r)"
  shows "book_keeper (authenticated auth h r)" "book_keeper (RequireRole role h r)"
  unfolding authenticated_def RequireRole_def by (intro keeper_intros assms)+

lemma keeper_route: "book_keeper (route uc b auth ep r)"
  by (cases ep) (simp_all add: chain_def keeper_middleware keeper_handlers)

section \<open>Who sees what\<close>

lemma write_simps [simp]:
  "writeJSON st v e w = (Inr \<lparr>rs_Status = st, rs_Body = v\<rparr>, w)"
  "writeJSONError st c m e w = (Inr \<lparr>rs_Status = st, rs_Body = ErrorBody c m\<rparr>, w)"
  by (simp_all add: writeJSON_def writeJSONError_def)

lemma error_writers:
  "\<exists>st c m. transactionLookupError err e w = (Inr \<lparr>rs_Status = st, rs_Body = ErrorBody c m\<rparr>, w) \<and> 400 \<le> st"
  "\<exists>c m. ownTransactionsOnly e w = (Inr \<lparr>rs_Status = 403, rs_Body = ErrorBody c m\<rparr>, w)"
  "\<exists>st c m. writeProcessWagerTransactionError err e w = (Inr \<lparr>rs_Status = st, rs_Body = ErrorBody c m\<rparr>, w) \<and> 400 \<le> st"
  by (auto simp: transactionLookupError_def ownTransactionsOnly_def writeProcessWagerTransactionError_def)

lemma scanWagerTx_provider: "scanWagerTx (Some r) = Inr t \<Longrightarrow> t_providerID t = deref (xr_provider r)"
  by (auto simp: scanWagerTx_def bindE_Inr_iff RehydrateTx_def split: if_splits option.splits)

lemma TxFindByProvider_fields:
  assumes "TxFindByProviderAndExternalID p x e w = (Inr t, w')"
  shows "t_providerID t = p"
proof -
  let ?row = "find (\<lambda>r. xr_provider r = Some p \<and> xr_external r = Some x) (txs (view (interfere e w)))"
  have s: "scanWagerTx ?row = Inr t"
    using assms unfolding TxFindByProviderAndExternalID_def
    by (cases "fault_at e (ticks w)") (simp_all add: bindM_apply query_def stmt_def Let_def)
  then obtain r where r: "?row = Some r" by (cases ?row) (simp_all add: scanWagerTx_def)
  then have "xr_provider r = Some p" by (auto simp: find_Some_iff)
  moreover have "scanWagerTx (Some r) = Inr t" using s unfolding r .
  ultimately show ?thesis using scanWagerTx_provider [of r t] by (simp add: deref_def)
qed

text \<open>The identity a route lets through to its handler.\<close>

lemma route_cases:
  obtains (unauthenticated) msg where "auth (rq_Authorization r) = Inl msg"
      "\<And>e w. route uc b auth ep r e w = (Inr \<lparr>rs_Status = 401, rs_Body = ErrorBody ''Unauthorized'' (Says msg)\<rparr>, w)"
  | (forbidden) identity m where "auth (rq_Authorization r) = Inr identity"
      "\<And>e w. route uc b auth ep r e w = (Inr \<lparr>rs_Status = 403, rs_Body = ErrorBody ''Forbidden'' m\<rparr>, w)"
      "ep \<noteq> GetTransaction" "ep \<noteq> GetProviderTransaction"
  | (handled) identity where "auth (rq_Authorization r) = Inr identity"
      "route uc b auth ep r = (case ep of PostTransaction \<Rightarrow> handleProcessWagerTransaction uc
         | GetTransaction \<Rightarrow> handleGetWagerTransaction
         | GetProviderTransaction \<Rightarrow> handleGetWagerTransactionByProviderAndExternalID
         | PostWallet \<Rightarrow> handleOpenWallet | GetWallet \<Rightarrow> handleGetWallet
         | GetWalletLedger \<Rightarrow> handleGetWalletLedger | PostReconciliation \<Rightarrow> handleReconcileWallet b)
           (r\<lparr>rq_Identity := Some identity\<rparr>)"
      "ep = PostTransaction \<Longrightarrow> HasRole identity ''provider''"
      "ep \<in> {PostWallet, GetWallet, GetWalletLedger, PostReconciliation} \<Longrightarrow> HasRole identity ''internal''"
proof (cases "auth (rq_Authorization r)")
  case (Inl msg)
  then show thesis by (intro unauthenticated [of msg]) (cases ep; simp add: chain_def authenticated_def)+
next
  case (Inr identity)
  let ?ok = "case ep of PostTransaction \<Rightarrow> HasRole identity ''provider'' | GetTransaction \<Rightarrow> True | GetProviderTransaction \<Rightarrow> True
    | _ \<Rightarrow> HasRole identity ''internal''"
  show thesis
  proof (cases ?ok)
    case True
    then show thesis using Inr
      by (intro handled [of identity]) (cases ep; simp add: chain_def authenticated_def RequireRole_def)+
  next
    case False
    let ?role = "if ep = PostTransaction then ''provider'' else ''internal''"
    show thesis using Inr False
      by (intro forbidden [of identity "Says (''requer a role '' @ [CHR 0x22] @ ?role @ [CHR 0x22])"])
        (cases ep; simp add: chain_def authenticated_def RequireRole_def)+
  qed
qed

text \<open>C26: A provider sees its own transactions only: whenever any route answers with a transaction, the
  request was authenticated, and its identity has the role \<open>internal\<close>, or the role \<open>provider\<close> and is
  the provider of that transaction.\<close>

theorem provider_isolation:
  assumes "route uc b auth ep r e w = (Inr resp, w')" "rs_Body resp = TransactionBody tr"
  shows "\<exists>identity. auth (rq_Authorization r) = Inr identity \<and>
    (HasRole identity ''internal'' \<or> HasRole identity ''provider'' \<and> tr_ProviderID tr = id_ClientID identity)"
proof (cases rule: route_cases [of auth r uc b ep])
  case (handled identity)
  show ?thesis
  proof (cases ep)
    case GetTransaction
    then show ?thesis using handled assms error_writers
      by (auto simp: handleGetWagerTransaction_def bindM_apply attempting_apply transactionResponse_def ownTransactionsOnly_def
          transactionLookupError_def split: sum.splits prod.splits if_splits)
  next
    case GetProviderTransaction
    then show ?thesis using handled assms
      by (auto simp: handleGetWagerTransactionByProviderAndExternalID_def bindM_apply attempting_apply transactionResponse_def
          ownTransactionsOnly_def transactionLookupError_def dest!: TxFindByProvider_fields split: sum.splits prod.splits if_splits)
  qed (use handled assms in \<open>auto simp: handleProcessWagerTransaction_def handleOpenWallet_def handleGetWallet_def
      handleGetWalletLedger_def handleReconcileWallet_def bindM_apply attempting_apply writeProcessWagerTransactionError_def
      split: sum.splits prod.splits if_splits option.splits\<close>)
qed (use assms in auto)

section \<open>Refusals\<close>

text \<open>What only reads keeps any property of the database.\<close>

lemma out_reads [out_intros]:
  "keeps_out p (TxFindByID i)" "keeps_out p (TxFindByProviderAndExternalID pr x)" "keeps_out p (WalletFindByID i)"
  "keeps_out p (ReconcileWalletExecute b i)"
  unfolding TxFindByID_def TxFindByProviderAndExternalID_def ReconcileWalletExecute_def reconcile_read_def WalletFindByID_def
    LedgerCountByWallet_def LedgerSumByWallet_def
  by (intro out_intros keeps_intros)+

lemma out_page_query [out_intros]: "keeps_out p (page_query i sel lim)"
  unfolding page_query_def by (rule out_stmt) (auto split: if_splits)

lemma out_ListByWallet [out_intros]: "keeps_out p (ListByWallet i cursor lim)"
  unfolding ListByWallet_def Let_def by (intro out_intros)

lemma out_write [out_intros]:
  "keeps_out p (writeJSON st v)" "keeps_out p (writeJSONError st c m)" "keeps_out p ownTransactionsOnly"
  "keeps_out p (transactionLookupError err)" "keeps_out p (writeProcessWagerTransactionError err)"
  unfolding writeJSON_def writeJSONError_def ownTransactionsOnly_def transactionLookupError_def writeProcessWagerTransactionError_def
  by (intro out_intros)+

lemma out_gets:
  "keeps_out p (handleGetWagerTransaction r)" "keeps_out p (handleGetWagerTransactionByProviderAndExternalID r)"
  "keeps_out p (handleGetWallet r)" "keeps_out p (handleGetWalletLedger r)" "keeps_out p (handleReconcileWallet b r)"
  unfolding handleGetWagerTransaction_def handleGetWallet_def handleGetWalletLedger_def handleReconcileWallet_def
    handleGetWagerTransactionByProviderAndExternalID_def
  by (intro out_intros)+

lemma leaves_alone:
  assumes "\<And>p. keeps_out p m" "alone e" "session w = None" "\<not> snapshot w"
  shows "committed (snd (m e w)) = committed w"
proof -
  let ?p = "\<lambda>d. d = committed w"
  have "others_keep e ?p" using assms(2) by (simp add: others_keep_def alone_def)
  then have "triple e (at_rest ?p) m (\<lambda>_. at_rest ?p) (\<lambda>_. at_rest ?p)" using assms(1) unfolding keeps_out_def by blast
  from tripleD [OF this, of w] assms(3,4) show ?thesis
    by (cases "m e w"; cases "fst (m e w)") (auto simp: resting_def)
qed

text \<open>C27: A refused request has done nothing: whatever the route, the identity, the body and the error, a
  response with a status of 400 or more means that the database is as it was, unless a commit was
  reported as failed after it took effect or other sessions wrote meanwhile.\<close>

theorem http_refusal_commits_nothing:
  assumes "alone e" "session w = None" "\<not> snapshot w" "route uc b auth ep r e w = (Inr resp, w')" "400 \<le> rs_Status resp"
  shows "committed w' = committed w"
proof (cases rule: route_cases [of auth r uc b ep])
  case (handled identity)
  let ?r = "r\<lparr>rq_Identity := Some identity\<rparr>"
  note alone = assms(1-3)
  note failed = failed_call_facts [OF alone]
  show ?thesis
  proof (cases ep)
    case PostTransaction
    then show ?thesis using handled(2) assms(4,5)
      by (auto simp: handleProcessWagerTransaction_def bindM_apply attempting_apply writeProcessWagerTransactionError_def
          dest!: failed(1) split: sum.splits prod.splits if_splits option.splits)
  next
    case PostWallet
    then show ?thesis using handled(2) assms(4,5)
      by (auto simp: handleOpenWallet_def bindM_apply attempting_apply dest!: failed(2) split: sum.splits prod.splits if_splits)
  next
    case GetTransaction
    then show ?thesis using leaves_alone [OF out_gets(1) alone, of ?r] handled(2) assms(4) by simp
  next
    case GetProviderTransaction
    then show ?thesis using leaves_alone [OF out_gets(2) alone, of ?r] handled(2) assms(4) by simp
  next
    case GetWallet
    then show ?thesis using leaves_alone [OF out_gets(3) alone, of ?r] handled(2) assms(4) by simp
  next
    case GetWalletLedger
    then show ?thesis using leaves_alone [OF out_gets(4) alone, of ?r] handled(2) assms(4) by simp
  next
    case PostReconciliation
    then show ?thesis using leaves_alone [OF out_gets(5) alone, of b ?r] handled(2) assms(4) by simp
  qed
qed (use assms in auto)

section \<open>Sending a wager again\<close>

text \<open>C25: A client that got no answer may send its wager again: after a wager was answered with 201, the
  same request is answered with 200 and the same transaction, status, balance and failure code,
  marked as a replay, and the database does not change.\<close>

theorem http_retry_is_safe:
  assumes "quiet e" "db_inv (committed w)" "session w = None" "\<not> snapshot w"
    and "decodeWagering (rq_Body r) = Inr req" "money_ok (wq_Money req)"
    and "route uc b auth PostTransaction r e w = (Inr resp, w')" "rs_Status resp = 201"
  shows "\<exists>wr w''. rs_Body resp = WageringBody wr \<and>
    route uc b auth PostTransaction r e w' =
      (Inr \<lparr>rs_Status = 200, rs_Body = WageringBody (wr\<lparr>wr_IdempotentReplay := True\<rparr>)\<rparr>, w'') \<and> committed w'' = committed w'"
proof (cases rule: route_cases [of auth r uc b PostTransaction])
  case (handled identity)
  let ?r = "r\<lparr>rq_Identity := Some identity\<rparr>" and ?inp = "wageringInput (rq_IdempotencyKey r) req"
  let ?body = "\<lambda>out. \<lparr>wr_TransactionID = out_TransactionID out, wr_Status = out_Status out, wr_Balance = out_Balance out,
    wr_IdempotentReplay = out_IdempotentReplay out, wr_FailureCode = out_FailureCode out\<rparr>"
  have h: "route uc b auth PostTransaction r = handleProcessWagerTransaction uc ?r" using handled(2) by simp
  have key: "rq_IdempotencyKey r \<noteq> []"
    using assms(7,8) unfolding h by (auto simp: handleProcessWagerTransaction_def)
  have run: "handleProcessWagerTransaction uc ?r e v = bindM (attempting (Execute uc ?inp)) (\<lambda>res. case res of
      Inl err \<Rightarrow> writeProcessWagerTransactionError err
    | Inr out \<Rightarrow> writeJSON (if out_IdempotentReplay out then 200 else 201) (WageringBody (?body out))) e v" for v
    using assms(5,7,8) key unfolding h by (auto simp: handleProcessWagerTransaction_def split: if_splits)
  obtain out where out: "Execute uc ?inp e w = (Inr out, w')" "resp = \<lparr>rs_Status = 201, rs_Body = WageringBody (?body out)\<rparr>"
    using assms(7,8) unfolding h run
    by (auto simp: bindM_apply attempting_apply writeProcessWagerTransactionError_def split: prod.splits sum.splits if_splits)
  have "in_IdempotencyKey ?inp \<noteq> []" "money_ok (in_Money ?inp)" using key assms(6) by (simp_all add: wageringInput_def)
  from Execute_again [OF assms(1-4) this out(1)]
  obtain w'' where "Execute uc ?inp e w' = (Inr (out\<lparr>out_IdempotentReplay := True\<rparr>), w'')" "committed w'' = committed w'" by blast
  then show ?thesis using out(2) unfolding h run by (simp add: bindM_apply attempting_apply)
qed (use assms in auto)

section \<open>A wager of the sample provider\<close>

definition sample_wager :: json where
  "sample_wager = JObject [(''providerId'', JString ''prov''), (''externalTransactionId'', JString ''k1''),
     (''playerId'', JString ''p1''), (''walletId'', JString ''w1''), (''roundId'', JString ''r1''), (''gameId'', JString ''g1''),
     (''kind'', JString ''BET''), (''money'', JObject [(''amount'', JString ''80.00''), (''currency'', JString ''BRL'')])]"

definition sample_request :: request where
  "sample_request = \<lparr>rq_Authorization = ''Bearer t1'', rq_IdempotencyKey = ''k1'', rq_Body = render sample_wager,
     rq_Path = \<lambda>_. ''t1'', rq_Query = \<lambda>_. [], rq_Identity = None\<rparr>"

definition sample_auth :: "string \<Rightarrow> string + Identity" where
  "sample_auth h = (if h = ''Bearer t1'' then Inr \<lparr>id_Subject = ''s1'', id_ClientID = ''prov'', id_Roles = [''provider'']\<rparr>
     else Inl ''token vazio'')"

definition sample_wagering :: wageringRequest where
  "sample_wagering = \<lparr>wq_ProviderID = ''prov'', wq_ExternalTransactionID = ''k1'', wq_PlayerID = ''p1'', wq_WalletID = ''w1'',
     wq_RoundID = ''r1'', wq_GameID = ''g1'', wq_Kind = ''BET'', wq_Money = \<lparr>minorUnits = 8000, currency = ''BRL''\<rparr>,
     wq_ReferenceExternalTransactionID = []\<rparr>"

lemma sample_decoded: "decodeWagering (render sample_wager) = Inr sample_wagering"
proof -
  have "texts_ok sample_wager" by code_simp
  from parse_render(1) [OF this, of "[]"] have "parseValue (render sample_wager) = Some (jval_of sample_wager, [])"
    by (simp add: ends_number_def)
  moreover have "depth (jval_of sample_wager) \<le> maxNestingDepth" by (simp add: sample_wager_def maxNestingDepth_def)
  ultimately have "readFirst (render sample_wager) = Some (jval_of sample_wager)" by (simp add: readFirst_def)
  moreover have "fillStruct wageringNames storeWagering noWageringRequest (Some (jval_of sample_wager)) = Inr sample_wagering"
    by code_simp
  ultimately show ?thesis by (simp add: decodeWagering_def)
qed

lemma sample_input: "wageringInput ''k1'' sample_wagering = sample_bet ''k1'' 8000"
  by (simp add: wageringInput_def sample_wagering_def sample_bet_def)

lemma sample_route:
  "route uc b sample_auth PostTransaction sample_request e w =
     bindM (attempting (Execute uc (sample_bet ''k1'' 8000))) (\<lambda>res. case res of
       Inl err \<Rightarrow> writeProcessWagerTransactionError err
     | Inr out \<Rightarrow> writeJSON (if out_IdempotentReplay out then 200 else 201) (WageringBody
         \<lparr>wr_TransactionID = out_TransactionID out, wr_Status = out_Status out, wr_Balance = out_Balance out,
          wr_IdempotentReplay = out_IdempotentReplay out, wr_FailureCode = out_FailureCode out\<rparr>)) e w"
proof -
  have "wq_ProviderID sample_wagering = ''prov''" "wq_ExternalTransactionID sample_wagering \<noteq> []" "wq_PlayerID sample_wagering \<noteq> []"
    "wq_WalletID sample_wagering \<noteq> []" "wq_RoundID sample_wagering \<noteq> []" "wq_GameID sample_wagering \<noteq> []" "wq_Kind sample_wagering \<noteq> []"
    by (simp_all add: sample_wagering_def)
  then show ?thesis
    by (simp add: chain_def authenticated_def RequireRole_def sample_auth_def sample_request_def HasRole_def
        handleProcessWagerTransaction_def sample_decoded sample_input)
qed

theorem provider_isolation_witness:
  "\<exists>resp tr. fst (route sample_uc True sample_auth GetTransaction sample_request sample_env (world_of waiting_db)) = Inr resp \<and>
     rs_Body resp = TransactionBody tr \<and> tr_ProviderID tr = ''prov''"
proof -
  let ?res = "route sample_uc True sample_auth GetTransaction sample_request sample_env (world_of waiting_db)"
  have "case fst ?res of Inr resp \<Rightarrow> (case rs_Body resp of TransactionBody tr \<Rightarrow> True | _ \<Rightarrow> False) | Inl _ \<Rightarrow> False"
    unfolding sample_request_def by code_simp
  then obtain resp tr w' where r: "?res = (Inr resp, w')" "rs_Body resp = TransactionBody tr"
    by (cases ?res) (auto split: sum.splits body.splits)
  from provider_isolation [OF this] have "tr_ProviderID tr = ''prov''"
    by (auto simp: sample_request_def sample_auth_def HasRole_def)
  then show ?thesis using r by auto
qed

theorem http_refusal_commits_nothing_witness:
  "committed (snd (route sample_uc True sample_auth PostTransaction sample_request failing_env (world_of sample_db))) = sample_db"
proof -
  let ?res = "route sample_uc True sample_auth PostTransaction sample_request failing_env (world_of sample_db)"
  have "fst (Execute sample_uc (sample_bet ''k1'' 8000) failing_env (world_of sample_db)) = Inl (InfraErr InfraUnavailable)" by code_simp
  then obtain resp where "?res = (Inr resp, snd ?res)" "400 \<le> rs_Status resp"
    by (cases "Execute sample_uc (sample_bet ''k1'' 8000) failing_env (world_of sample_db)")
      (simp add: sample_route bindM_apply attempting_apply writeProcessWagerTransactionError_def IsInputValidationError_def
        inputValidationErrors_def del: route_simps)
  moreover have "alone failing_env" by (simp add: alone_def failing_env_def sample_env_def)
  moreover have w: "session (world_of sample_db) = None" "\<not> snapshot (world_of sample_db)" by (simp_all add: world_of_def)
  ultimately have "committed (snd ?res) = committed (world_of sample_db)"
    using http_refusal_commits_nothing [OF _ w] by blast
  then show ?thesis by (simp add: world_of_def)
qed

theorem http_retry_is_safe_witness:
  "\<exists>resp. fst (route digest_uc True sample_auth PostTransaction sample_request sample_env
       (snd (route digest_uc True sample_auth PostTransaction sample_request sample_env (world_of sample_db)))) = Inr resp \<and>
     rs_Status resp = 200"
proof -
  let ?w = "world_of sample_db"
  let ?r1 = "route digest_uc True sample_auth PostTransaction sample_request sample_env ?w"
  obtain w1 where "first_call = (Inr sample_outcome, w1)" using first_call by blast
  then obtain resp where "?r1 = (Inr resp, w1)" "rs_Status resp = 201"
    by (simp add: sample_route bindM_apply attempting_apply sample_outcome_def del: route_simps)
  moreover have "decodeWagering (rq_Body sample_request) = Inr sample_wagering" "money_ok (wq_Money sample_wagering)"
    by (simp_all add: sample_request_def sample_decoded sample_wagering_def money_ok_def iso4217Currencies_def)
  ultimately show ?thesis
    using http_retry_is_safe [OF sample_quiet sample_request_ok(1-3), of sample_request sample_wagering digest_uc True sample_auth resp]
    by (auto simp del: route_simps)
qed

end
