(* ===== verification/Duration.thy ===== *)
theory Duration
  imports Prelude
begin

text \<open>
  \<open>time.ParseDuration\<close>, by which \<open>config.go\<close> reads the lifetime of a pending reference and the shutdown
  deadline: an optional sign and one or more numbers with their units. The intermediate values are
  \<open>uint64\<close>, natural numbers here with the one sum that can wrap written out; the nanoseconds of a
  decimal fraction, which Go computes in floating point, are a parameter.
\<close>

section \<open>Parsing\<close>

datatype duration_err = InvalidDuration string | MissingUnit string | UnknownUnit string string

text \<open>The unit map; the two micro signs are written in UTF-8.\<close>

definition unitMap :: "string \<Rightarrow> nat option" where
  "unitMap u =
     (if u = ''ns'' then Some 1
      else if u = ''us'' \<or> u = [CHR 0xC2, CHR 0xB5, CHR ''s''] \<or> u = [CHR 0xCE, CHR 0xBC, CHR ''s''] then Some 1000
      else if u = ''ms'' then Some 1000000
      else if u = ''s'' then Some 1000000000
      else if u = ''m'' then Some 60000000000
      else if u = ''h'' then Some 3600000000000
      else None)"

text \<open>The leading digits as a number, unless it exceeds \<open>2 ^ 63\<close>, and the rest of the text.\<close>

fun leadingInt :: "nat \<Rightarrow> string \<Rightarrow> (nat \<times> string) option" where
  "leadingInt x [] = Some (x, [])"
| "leadingInt x (c # cs) =
     (if \<not> is_digit c then Some (x, c # cs)
      else if x > 2 ^ 63 div 10 then None
      else if 10 * x + digit_val c > 2 ^ 63 then None
      else leadingInt (10 * x + digit_val c) cs)"

text \<open>The digits after a dot: their number, as many as fit, and the power of ten to divide it by.\<close>

fun leadingFraction :: "nat \<Rightarrow> nat \<Rightarrow> bool \<Rightarrow> string \<Rightarrow> nat \<times> nat \<times> string" where
  "leadingFraction x k overflow [] = (x, k, [])"
| "leadingFraction x k overflow (c # cs) =
     (if \<not> is_digit c then (x, k, c # cs)
      else if overflow \<or> x > (2 ^ 63 - 1) div 10 \<or> 10 * x + digit_val c > 2 ^ 63 then leadingFraction x k True cs
      else leadingFraction (10 * x + digit_val c) (Suc k) overflow cs)"

text \<open>\<open>frac f unit k\<close> is \<open>uint64(float64(f) * (float64(unit) / scale))\<close> with the scale \<open>10 ^ k\<close>.\<close>

type_synonym fraction = "nat \<Rightarrow> nat \<Rightarrow> nat \<Rightarrow> nat"

text \<open>The optional fraction: whether it had digits, its number and scale, and the rest.\<close>

definition fractionPart :: "string \<Rightarrow> bool \<times> nat \<times> nat \<times> string" where
  "fractionPart s = (case s of
       c # cs \<Rightarrow> (if c = CHR ''.'' then (case leadingFraction 0 0 False cs of (f, k, r) \<Rightarrow> (length r \<noteq> length cs, f, k, r))
         else (False, 0, 0, s))
     | [] \<Rightarrow> (False, 0, 0, s))"

definition inNumber :: "char \<Rightarrow> bool" where
  "inNumber c \<longleftrightarrow> c = CHR ''.'' \<or> is_digit c"

text \<open>One number with its unit: what it adds and the rest of the text.\<close>

definition durationPart :: "fraction \<Rightarrow> string \<Rightarrow> string \<Rightarrow> duration_err + nat \<times> string" where
  "durationPart frac orig s =
     (if s = [] \<or> \<not> inNumber (hd s) then Inl (InvalidDuration orig)
      else case leadingInt 0 s of None \<Rightarrow> Inl (InvalidDuration orig)
      | Some (v, s1) \<Rightarrow> (case fractionPart s1 of (post, f, k, s2) \<Rightarrow>
         (let u = takeWhile (\<lambda>c. \<not> inNumber c) s2; s3 = dropWhile (\<lambda>c. \<not> inNumber c) s2 in
          if length s1 = length s \<and> \<not> post then Inl (InvalidDuration orig)
          else if u = [] then Inl (MissingUnit orig)
          else case unitMap u of None \<Rightarrow> Inl (UnknownUnit u orig)
          | Some unit \<Rightarrow>
             (if v > 2 ^ 63 div unit then Inl (InvalidDuration orig)
              else let v' = v * unit + (if f > 0 then frac f unit k else 0) in
                if f > 0 \<and> v' > 2 ^ 63 then Inl (InvalidDuration orig) else Inr (v', s3)))))"

lemma leadingInt_shrinks: "leadingInt x s = Some (v, r) \<Longrightarrow> length r \<le> length s"
  by (induction x s rule: leadingInt.induct) (auto split: if_splits)

lemma leadingFraction_shrinks: "leadingFraction x k ov s = (f, k', r) \<Longrightarrow> length r \<le> length s"
  by (induction x k ov s rule: leadingFraction.induct) (auto split: if_splits)

lemma fractionPart_shrinks: "fractionPart s = (post, f, k, r) \<Longrightarrow> length r \<le> length s"
  by (auto simp: fractionPart_def split: list.splits if_splits prod.splits dest!: leadingFraction_shrinks)

lemma durationPart_shrinks: "durationPart frac orig s = Inr (v, r) \<Longrightarrow> length r < length s"
proof -
  assume p: "durationPart frac orig s = Inr (v, r)"
  then obtain x s1 where a: "leadingInt 0 s = Some (x, s1)"
    by (auto simp: durationPart_def split: if_splits option.splits)
  obtain post f k s2 where b: "fractionPart s1 = (post, f, k, s2)" by (cases "fractionPart s1") auto
  have "takeWhile (\<lambda>c. \<not> inNumber c) s2 \<noteq> []" "r = dropWhile (\<lambda>c. \<not> inNumber c) s2"
    using p a b by (auto simp: durationPart_def Let_def split: if_splits option.splits)
  moreover have "length s2 = length (takeWhile (\<lambda>c. \<not> inNumber c) s2) + length (dropWhile (\<lambda>c. \<not> inNumber c) s2)"
    by (metis length_append takeWhile_dropWhile_id)
  ultimately have "length r < length s2" by simp
  with leadingInt_shrinks [OF a] fractionPart_shrinks [OF b] show ?thesis by simp
qed

text \<open>The loop adds the parts; only the sum of two values of \<open>2 ^ 63\<close> wraps around.\<close>

function durationLoop :: "fraction \<Rightarrow> string \<Rightarrow> nat \<Rightarrow> string \<Rightarrow> duration_err + nat" where
  "durationLoop frac orig d s =
     (if s = [] then Inr d
      else case durationPart frac orig s of Inl x \<Rightarrow> Inl x
      | Inr (v, r) \<Rightarrow>
         (let d' = (d + v) mod 2 ^ 64 in
          if d' > 2 ^ 63 then Inl (InvalidDuration orig) else durationLoop frac orig d' r))"
  by pat_completeness auto
termination
  by (relation "measure (\<lambda>(_, _, _, s). length s)") (auto dest: durationPart_shrinks)

declare durationLoop.simps [simp del]

definition ParseDuration :: "fraction \<Rightarrow> string \<Rightarrow> duration_err + int64" where
  "ParseDuration frac orig =
     (let signed = (case orig of c # _ \<Rightarrow> c = CHR ''-'' \<or> c = CHR ''+'' | [] \<Rightarrow> False);
          neg = (case orig of c # _ \<Rightarrow> c = CHR ''-'' | [] \<Rightarrow> False);
          s = (if signed then tl orig else orig)
      in if s = ''0'' then Inr 0
         else if s = [] then Inl (InvalidDuration orig)
         else bindE (durationLoop frac orig 0 s) (\<lambda>d.
           if neg then Inr (- word_of_int (int d))
           else if d > 2 ^ 63 - 1 then Inl (InvalidDuration orig) else Inr (word_of_int (int d))))"

section \<open>Texts of whole parts\<close>

text \<open>A text without fractions is a sequence of digit strings with their units.\<close>

type_synonym duration_part = "string \<times> string"

definition part_ok :: "duration_part \<Rightarrow> bool" where
  "part_ok p \<longleftrightarrow> fst p \<noteq> [] \<and> list_all is_digit (fst p) \<and> unitMap (snd p) \<noteq> None"

definition part_ns :: "duration_part \<Rightarrow> nat" where
  "part_ns p = digits_val (fst p) * the (unitMap (snd p))"

definition parts_text :: "duration_part list \<Rightarrow> string" where
  "parts_text ps = concat (map (\<lambda>p. fst p @ snd p) ps)"

definition parts_ns :: "duration_part list \<Rightarrow> nat" where
  "parts_ns ps = sum_list (map part_ns ps)"

lemma unitMap_cases:
  assumes "unitMap u = Some n"
  shows "u \<noteq> [] \<and> list_all (\<lambda>c. \<not> inNumber c) u \<and> 0 < n"
  using assms by (auto simp: unitMap_def inNumber_def is_digit_def split: if_splits)

lemma digits_val_Cons_le: "digits_val ds \<le> digits_val (ds @ es)"
proof -
  have "digits_val ds * 1 \<le> digits_val ds * 10 ^ length es" by (intro mult_le_mono) simp_all
  then show ?thesis unfolding digits_val_append by linarith
qed

lemma digits_val_step: "digits_val (pre @ c # cs) = digits_val ((pre @ [c]) @ cs)"
  by simp

text \<open>\<open>leadingInt\<close> reads a whole run of digits, and fails exactly when its value exceeds \<open>2 ^ 63\<close>.\<close>

lemma leadingInt_run:
  assumes "list_all is_digit ds" and "rest = [] \<or> \<not> is_digit (hd rest)" and "digits_val pre \<le> 2 ^ 63"
  shows "leadingInt (digits_val pre) (ds @ rest) =
    (if digits_val (pre @ ds) \<le> 2 ^ 63 then Some (digits_val (pre @ ds), rest) else None)"
  using assms
proof (induction ds arbitrary: pre)
  case Nil
  then show ?case by (cases rest) auto
next
  case (Cons c ds)
  have c: "is_digit c" "digit_val c < 10" using Cons.prems by (simp_all add: digit_val_less)
  have s: "digits_val (pre @ [c]) = 10 * digits_val pre + digit_val c" by simp
  have m: "digits_val (pre @ [c]) \<le> digits_val (pre @ c # ds)" using digits_val_Cons_le [of "pre @ [c]" ds] by simp
  show ?case
  proof (cases "digits_val (pre @ [c]) \<le> 2 ^ 63")
    case True
    then have "\<not> digits_val pre > 2 ^ 63 div 10" using s by simp
    then show ?thesis using Cons.IH [of "pre @ [c]"] Cons.prems c True s by simp
  next
    case False
    then show ?thesis using c m s by simp
  qed
qed

lemma unit_split:
  assumes "list_all (\<lambda>c. \<not> inNumber c) u" and "rest = [] \<or> inNumber (hd rest)"
  shows "takeWhile (\<lambda>c. \<not> inNumber c) (u @ rest) = u" "dropWhile (\<lambda>c. \<not> inNumber c) (u @ rest) = rest"
  using assms by (cases rest; induction u; simp)+

lemma durationPart_whole:
  assumes p: "part_ok (ds, u)" and r: "rest = [] \<or> inNumber (hd rest)"
  shows "durationPart frac orig (ds @ u @ rest) =
    (if part_ns (ds, u) \<le> 2 ^ 63 then Inr (part_ns (ds, u), rest) else Inl (InvalidDuration orig))"
proof -
  obtain n where n: "unitMap u = Some n" using p by (auto simp: part_ok_def)
  note u = unitMap_cases [OF n]
  have ds: "ds \<noteq> []" "list_all is_digit ds" using p by (simp_all add: part_ok_def)
  have hd: "inNumber (hd (ds @ u @ rest))" using ds by (cases ds) (simp_all add: inNumber_def)
  have nd: "\<not> is_digit (hd (u @ rest))" "\<not> inNumber (hd (u @ rest))" using u by (cases u; simp add: inNumber_def)+
  have l: "leadingInt 0 (ds @ u @ rest) = (if digits_val ds \<le> 2 ^ 63 then Some (digits_val ds, u @ rest) else None)"
    using leadingInt_run [OF ds(2), of "u @ rest" "[]"] nd by simp
  have f: "fractionPart (u @ rest) = (False, 0, 0, u @ rest)"
    using u nd by (cases u) (auto simp: fractionPart_def inNumber_def)
  have bound: "digits_val ds > 2 ^ 63 div n \<longleftrightarrow> \<not> digits_val ds * n \<le> 2 ^ 63"
    using u by (metis less_eq_div_iff_mult_less_eq linorder_not_le)
  have "digits_val ds \<le> digits_val ds * n" using u by simp
  then have small: "digits_val ds * n \<le> 2 ^ 63 \<Longrightarrow> digits_val ds \<le> 2 ^ 63" by (rule le_trans)
  show ?thesis
    using hd l f ds u n bound small
    by (auto simp: durationPart_def unit_split [OF _ r] part_ns_def Let_def)
qed

lemma parts_text_Cons: "parts_text ((ds, u) # ps) = ds @ u @ parts_text ps"
  by (simp add: parts_text_def)

lemma parts_text_hd:
  assumes "list_all part_ok ps"
  shows "parts_text ps = [] \<or> inNumber (hd (parts_text ps))"
proof (cases ps)
  case (Cons p qs)
  then have "fst p \<noteq> []" "is_digit (hd (fst p))" using assms by (cases "fst p"; simp add: part_ok_def)+
  then show ?thesis using Cons by (simp add: parts_text_def inNumber_def hd_append)
qed (simp add: parts_text_def)

lemma durationLoop_whole:
  assumes "list_all part_ok ps" and "d \<le> 2 ^ 63"
  shows "durationLoop frac orig d (parts_text ps) = Inr n \<Longrightarrow> n = (d + parts_ns ps) mod 2 ^ 64 \<and> n \<le> 2 ^ 63"
    and "d + parts_ns ps \<le> 2 ^ 63 \<Longrightarrow> durationLoop frac orig d (parts_text ps) = Inr (d + parts_ns ps)"
  using assms
proof (induction ps arbitrary: d)
  case Nil
  { case 1 then show ?case by (simp add: parts_text_def parts_ns_def durationLoop.simps [of _ _ _ "[]"]) next
    case 2 then show ?case by (simp add: parts_text_def parts_ns_def durationLoop.simps [of _ _ _ "[]"]) }
next
  case (Cons p ps)
  obtain ds u where p: "p = (ds, u)" by (cases p)
  have ok: "part_ok (ds, u)" "list_all part_ok ps" if "list_all part_ok (p # ps)" using that p by simp_all
  have step: "durationLoop frac orig d (parts_text (p # ps)) =
      (if part_ns p \<le> 2 ^ 63 then (let d' = (d + part_ns p) mod 2 ^ 64 in
          if d' > 2 ^ 63 then Inl (InvalidDuration orig) else durationLoop frac orig d' (parts_text ps))
       else Inl (InvalidDuration orig))" if "list_all part_ok (p # ps)" for d
  proof -
    have "ds \<noteq> []" using ok [OF that] by (simp add: part_ok_def)
    then show ?thesis
      using durationPart_whole [OF ok(1) [OF that] parts_text_hd [OF ok(2) [OF that]], of frac orig]
      by (subst durationLoop.simps) (simp add: p parts_text_Cons)
  qed
  have sum: "d + parts_ns (p # ps) = d + part_ns p + parts_ns ps" for d by (simp add: parts_ns_def)
  { case 1
    then have "(d + part_ns p) mod 2 ^ 64 \<le> 2 ^ 63" "durationLoop frac orig ((d + part_ns p) mod 2 ^ 64) (parts_text ps) = Inr n"
      by (auto simp: step Let_def split: if_splits)
    from Cons.IH(1) [OF this(2) ok(2) [OF 1(2)] this(1)] show ?case by (simp add: sum mod_add_left_eq)
  next
    case 2
    then have le: "part_ns p \<le> 2 ^ 63" "d + part_ns p + parts_ns ps \<le> 2 ^ 63" by (simp_all add: parts_ns_def)
    then have "(d + part_ns p) mod 2 ^ 64 = d + part_ns p" by simp
    then show ?case using Cons.IH(2) [OF le(2) ok(2) [OF 2(2)]] le by (simp add: step [OF 2(2)] sum Let_def)
  }
qed

text \<open>Whatever is accepted and has no dot is such a text.\<close>

lemma leadingInt_split: "leadingInt x s = Some (v, r) \<Longrightarrow> \<exists>ds. s = ds @ r \<and> list_all is_digit ds"
proof (induction s arbitrary: x)
  case Nil
  then show ?case by simp
next
  case (Cons c cs)
  show ?case
  proof (cases "is_digit c")
    case True
    then have "leadingInt (10 * x + digit_val c) cs = Some (v, r)" using Cons.prems by (simp split: if_splits)
    from Cons.IH [OF this] obtain ds where "cs = ds @ r" "list_all is_digit ds" by blast
    then show ?thesis using True by (intro exI [of _ "c # ds"]) simp
  next
    case False
    then show ?thesis using Cons.prems by simp
  qed
qed

lemma durationPart_sound:
  assumes "durationPart frac orig s = Inr (v, r)" and "CHR ''.'' \<notin> set s"
  obtains p where "part_ok p" "s = fst p @ snd p @ r"
proof -
  obtain x s1 where a: "leadingInt 0 s = Some (x, s1)"
    using assms by (auto simp: durationPart_def split: if_splits option.splits)
  obtain ds where ds: "s = ds @ s1" "list_all is_digit ds" using leadingInt_split [OF a] by blast
  have f: "fractionPart s1 = (False, 0, 0, s1)" using assms(2) ds by (auto simp: fractionPart_def split: list.split)
  let ?u = "takeWhile (\<lambda>c. \<not> inNumber c) s1"
  have "length s1 \<noteq> length s" "unitMap ?u \<noteq> None" "r = dropWhile (\<lambda>c. \<not> inNumber c) s1"
    using assms(1) a f by (auto simp: durationPart_def Let_def split: if_splits option.splits)
  then show ?thesis using ds by (intro that [of "(ds, ?u)"]) (auto simp: part_ok_def)
qed

lemma durationLoop_sound:
  "durationLoop frac orig d s = Inr n \<Longrightarrow> CHR ''.'' \<notin> set s \<Longrightarrow> \<exists>ps. list_all part_ok ps \<and> s = parts_text ps"
proof (induction frac orig d s rule: durationLoop.induct)
  case (1 frac orig d s)
  show ?case
  proof (cases "s = []")
    case False
    obtain v r where p: "durationPart frac orig s = Inr (v, r)"
      using 1(2) False by (subst (asm) durationLoop.simps) (auto split: sum.splits)
    then have n: "durationLoop frac orig ((d + v) mod 2 ^ 64) r = Inr n" "\<not> (d + v) mod 2 ^ 64 > 2 ^ 63"
      using 1(2) False by (subst (asm) durationLoop.simps; auto simp: Let_def split: if_splits)+
    obtain q where q: "part_ok q" "s = fst q @ snd q @ r" using durationPart_sound [OF p 1(3)] .
    then have "CHR ''.'' \<notin> set r" using 1(3) by auto
    from 1(1) [OF False p refl refl n(2) n(1) this] obtain ps where "list_all part_ok ps" "r = parts_text ps" by auto
    then show ?thesis using q by (intro exI [of _ "q # ps"]) (simp add: parts_text_def)
  qed (auto intro: exI [of _ "[]"] simp: parts_text_def)
qed

lemma parts_text_start:
  assumes "list_all part_ok ps" "ps \<noteq> []"
  shows "parts_text ps \<noteq> []" "parts_text ps \<noteq> ''0''" "hd (parts_text ps) \<noteq> CHR ''-''" "hd (parts_text ps) \<noteq> CHR ''+''"
proof -
  obtain ds u qs where ps: "ps = (ds, u) # qs" using assms(2) by (cases ps) auto
  then have o: "ds \<noteq> []" "is_digit (hd ds)" "u \<noteq> []" "\<not> inNumber (hd u)" "parts_text ps = ds @ u @ parts_text qs"
    using assms(1) unitMap_cases [of u] by (cases ds; cases u; auto simp: part_ok_def parts_text_Cons)+
  then show "parts_text ps \<noteq> []" "hd (parts_text ps) \<noteq> CHR ''-''" "hd (parts_text ps) \<noteq> CHR ''+''"
    by (auto simp: is_digit_def)
  have "2 \<le> length (ds @ u)" using o by (cases ds; cases u) auto
  then show "parts_text ps \<noteq> ''0''" unfolding o(5) by (cases ds; cases u) auto
qed

definition duration_text :: "bool \<Rightarrow> duration_part list \<Rightarrow> string" where
  "duration_text neg ps = (if neg then ''-'' else []) @ parts_text ps"

text \<open>A text of whole parts that fits an \<open>int64\<close> is read as its number of nanoseconds.\<close>

lemma ParseDuration_text:
  assumes "list_all part_ok ps" "ps \<noteq> []" "parts_ns ps < 2 ^ 63"
  shows "ParseDuration frac (duration_text neg ps) =
    Inr (word_of_int (if neg then - int (parts_ns ps) else int (parts_ns ps)))"
proof -
  note s = parts_text_start [OF assms(1,2)]
  obtain c cs where cs: "parts_text ps = c # cs" using s(1) by (cases "parts_text ps") auto
  have l: "durationLoop frac orig 0 (parts_text ps) = Inr (parts_ns ps)" for orig
    using durationLoop_whole(2) [OF assms(1), of 0 frac orig] assms(3) by simp
  have big: "\<not> parts_ns ps > 2 ^ 63 - 1" using assms(3) by linarith
  have sg: "c \<noteq> CHR ''-''" "c \<noteq> CHR ''+''" "parts_text ps \<noteq> ''0''" using s cs by simp_all
  show ?thesis
  proof (cases neg)
    case True
    then show ?thesis using sg(3) s(1) by (simp add: ParseDuration_def duration_text_def Let_def l)
  next
    case False
    then show ?thesis
      using sg s(1) l [of "parts_text ps"] big
      by (auto simp: ParseDuration_def duration_text_def Let_def cs simp del: linorder_not_less not_less)
  qed
qed

lemma ParseDuration_sound:
  assumes "ParseDuration frac s = Inr d" "CHR ''.'' \<notin> set s"
  obtains sign body where "sign \<in> {[], ''-'', ''+''}" "s = sign @ body"
    "body = ''0'' \<or> (\<exists>ps. ps \<noteq> [] \<and> list_all part_ok ps \<and> body = parts_text ps)"
proof -
  obtain c cs where s: "s = c # cs" using assms(1) by (cases s) (auto simp: ParseDuration_def)
  define signed where "signed \<longleftrightarrow> c = CHR ''-'' \<or> c = CHR ''+''"
  define body where "body = (if signed then cs else s)"
  have ps: "\<exists>ps. ps \<noteq> [] \<and> list_all part_ok ps \<and> body = parts_text ps" if b: "body \<noteq> ''0''"
  proof -
    have p: "ParseDuration frac s = (if body = [] then Inl (InvalidDuration s) else bindE (durationLoop frac s 0 body) (\<lambda>d.
        if c = CHR ''-'' then Inr (- word_of_int (int d))
        else if d > 2 ^ 63 - 1 then Inl (InvalidDuration s) else Inr (word_of_int (int d))))"
      unfolding ParseDuration_def Let_def using b by (simp only: s list.case list.sel body_def signed_def if_False)
    have n: "body \<noteq> []" "\<exists>n. durationLoop frac s 0 body = Inr n"
      using assms(1) unfolding p by (cases "body = []", simp, cases "durationLoop frac s 0 body", simp_all)+
    have "CHR ''.'' \<notin> set body" using assms(2) s by (auto simp: body_def)
    with n(2) durationLoop_sound obtain ps where "list_all part_ok ps" "body = parts_text ps" by blast
    with n(1) show ?thesis by (intro exI [of _ ps]) (auto simp: parts_text_def)
  qed
  have "s = (if signed then [c] else []) @ body" "(if signed then [c] else []) \<in> {[], ''-'', ''+''}"
    by (auto simp: s body_def signed_def)
  with ps show ?thesis by (intro that) auto
qed

end
