(* ===== verification/Server.thy ===== *)
theory Server
  imports Http_Api Config Lifecycle
begin

text \<open>
  What stands around the handlers and the loops: the request log and its status recorder
  (\<open>http/logging.go\<close>), the server (\<open>http/server.go\<close>), the logger and the metrics registry
  (\<open>observability\<close>), the readiness probes, and the constructors that take their settings from the
  configuration. Third-party constructors are parameters.
\<close>

section \<open>The request log\<close>

text \<open>
  The response writer of \<open>net/http\<close> sends the first status it is given and 200 when it is given none;
  \<open>statusRecorder\<close> wraps it and keeps the last.
\<close>

record statusRecorder =
  sr_sent :: "nat option"
  sr_status :: nat

definition newRecorder :: statusRecorder where
  "newRecorder = \<lparr>sr_sent = None, sr_status = 200\<rparr>"

definition WriteHeader :: "nat \<Rightarrow> statusRecorder \<Rightarrow> statusRecorder" where
  "WriteHeader status r = r\<lparr>sr_status := status, sr_sent := (case sr_sent r of None \<Rightarrow> Some status | Some s \<Rightarrow> Some s)\<rparr>"

definition sentStatus :: "statusRecorder \<Rightarrow> nat" where
  "sentStatus r = (case sr_sent r of None \<Rightarrow> 200 | Some s \<Rightarrow> s)"

text \<open>A request as it arrives, the response as it leaves, and the line of the log, without the duration.\<close>

record wireRequest =
  wi_CorrelationID :: string
  wi_Method :: string
  wi_Path :: string
  wi_Request :: request

record wireResponse =
  wp_CorrelationID :: string
  wp_Status :: nat
  wp_Body :: body

record logLine =
  ll_correlationId :: string
  ll_method :: string
  ll_path :: string
  ll_status :: nat

definition WithRequestLogging :: "handler \<Rightarrow> wireRequest \<Rightarrow> (wireResponse \<times> logLine) io" where
  "WithRequestLogging next req =
     bindM (if wi_CorrelationID req = [] then NewID else ret (wi_CorrelationID req)) (\<lambda>correlationID.
     bindM (next (wi_Request req)) (\<lambda>resp.
       let rec = WriteHeader (rs_Status resp) newRecorder in
       ret (\<lparr>wp_CorrelationID = correlationID, wp_Status = sentStatus rec, wp_Body = rs_Body resp\<rparr>,
            \<lparr>ll_correlationId = correlationID, ll_method = wi_Method req, ll_path = wi_Path req, ll_status = sr_status rec\<rparr>)))"

text \<open>The log tells the status and the correlation id the client got, and the client's own id when it sent one.\<close>

lemma logged_as_sent:
  assumes "WithRequestLogging next req e w = (Inr (resp, line), w')"
  shows "ll_status line = wp_Status resp" "ll_correlationId line = wp_CorrelationID resp"
    "wi_CorrelationID req \<noteq> [] \<Longrightarrow> wp_CorrelationID resp = wi_CorrelationID req"
    "(\<And>n. new_id e n \<noteq> []) \<Longrightarrow> wp_CorrelationID resp \<noteq> []"
  using assms by (auto simp: WithRequestLogging_def bindM_apply NewID_def Let_def WriteHeader_def newRecorder_def sentStatus_def
      split: if_splits prod.splits sum.splits)

lemma keeper_logging:
  assumes "\<And>r. book_keeper (next r)"
  shows "book_keeper (WithRequestLogging next req)"
  unfolding WithRequestLogging_def Let_def by (intro keeper_intros assms)

section \<open>Readiness\<close>

text \<open>The two checkers of \<open>module.go\<close>, on the answers of \<open>Ping\<close> and of \<open>GetQueueAttributes\<close> on a queue.\<close>

definition dbChecker :: "unit io \<Rightarrow> string \<times> unit io" where
  "dbChecker ping = (''postgres'', ping)"

definition sqsChecker :: "(string \<Rightarrow> unit io) \<Rightarrow> string \<Rightarrow> string \<times> unit io" where
  "sqsChecker getQueueAttributes queueURL = (''sqs'', getQueueAttributes queueURL)"

text \<open>The service is ready exactly when both answer.\<close>

lemma ready_exact:
  assumes "handleReady [dbChecker ping, sqsChecker attrs url] r e w = (Inr resp, w')"
  shows "rs_Status resp = 200 \<longleftrightarrow> fst (ping e w) = Inr () \<and> fst (attrs url e (snd (ping e w))) = Inr ()"
    and "rs_Status resp \<in> {200, 503}"
  using assms
  by (cases "ping e w"; cases "fst (ping e w)"; cases "attrs url e (snd (ping e w))"; cases "fst (attrs url e (snd (ping e w)))";
      auto simp: handleReady_def dbChecker_def sqsChecker_def bindM_apply attempting_apply split: if_splits)+

section \<open>Observability\<close>

datatype level = LevelDebug | LevelInfo

record logger =
  lo_level :: level
  lo_attrs :: "(string \<times> string) list"

definition NewLogger :: "Config \<Rightarrow> logger" where
  "NewLogger cfg = \<lparr>lo_level = (if cf_Environment cfg = ''development'' then LevelDebug else LevelInfo),
     lo_attrs = [(''service'', ''wager-ledger''), (''env'', cf_Environment cfg)]\<rparr>"

text \<open>A collector with its name and labels; help texts and the default buckets are left out.\<close>

datatype collector = Counter (collectorName: string) | CounterVec (collectorName: string) (collectorLabels: "string list")
  | Histogram (collectorName: string) | HistogramVec (collectorName: string) (collectorLabels: "string list")

definition collectors :: "collector list" where
  "collectors = [
     CounterVec ''wager_transactions_total'' [''status'', ''kind''],
     Counter ''wager_idempotent_replays_total'',
     Counter ''wager_optimistic_lock_retries_total'',
     Counter ''wager_too_many_retries_total'',
     Histogram ''outbox_publish_latency_seconds'',
     Counter ''outbox_publish_failures_total'',
     HistogramVec ''message_processing_seconds'' [''channel''],
     Counter ''sqs_inbox_duplicates_total'',
     Counter ''sqs_message_delivery_failures_total'',
     Counter ''wallet_reconciliation_checks_total'',
     Counter ''wallet_reconciliation_divergences_total'']"

text \<open>\<open>MustRegister\<close>, which panics on a collector it refuses, is a parameter; the counters start at zero.\<close>

definition NewMetrics :: "(collector list \<Rightarrow> bool) \<Rightarrow> metrics option" where
  "NewMetrics mustRegister = (if mustRegister collectors then Some \<lparr>WagerTransactionsTotal = [], IdempotentReplaysTotal = 0,
     OptimisticLockRetriesTotal = 0, TooManyRetriesTotal = 0, ReconciliationChecksTotal = 0, ReconciliationDivergentTotal = 0,
     OutboxPublishFailuresTotal = 0, InboxDuplicatesTotal = 0, MessageDeliveryFailuresTotal = 0\<rparr> else None)"

text \<open>
  Prometheus' registry accepts valid names that differ: letters, digits, underscores and colons, no
  digit first. A registry that keeps this promise never panics here.
\<close>

definition metricChar :: "char \<Rightarrow> bool" where
  "metricChar c \<longleftrightarrow> (let n = of_char c :: nat in 97 \<le> n \<and> n \<le> 122 \<or> 65 \<le> n \<and> n \<le> 90 \<or> n = 95 \<or> n = 58)"

definition metricName :: "string \<Rightarrow> bool" where
  "metricName s \<longleftrightarrow> s \<noteq> [] \<and> metricChar (hd s) \<and> list_all (\<lambda>c. metricChar c \<or> is_digit c) s"

lemma NewMetrics_registers:
  assumes "\<And>cs. distinct (map collectorName cs) \<Longrightarrow> list_all (\<lambda>c. metricName (collectorName c)) cs \<Longrightarrow> mustRegister cs"
  shows "NewMetrics mustRegister = Some no_counts"
proof -
  have "distinct (map collectorName collectors)" "list_all (\<lambda>c. metricName (collectorName c)) collectors" by code_simp+
  then show ?thesis using assms by (simp add: NewMetrics_def no_counts_def)
qed

section \<open>Constructors\<close>

text \<open>
  Clients of the queue: \<open>awsconfig.LoadDefaultConfig\<close> on the region and the static credentials is a
  parameter, the endpoint is set on what it returns.
\<close>

type_synonym 'aws load_aws = "string \<Rightarrow> string \<Rightarrow> string \<Rightarrow> 'aws result"

record 'aws queueClient =
  qc_config :: 'aws
  qc_BaseEndpoint :: string

record 'aws PublisherStruct =
  pb_client :: "'aws queueClient"
  pb_queueURL :: string
  pb_workerID :: string
  pb_loop :: "publisher_at background"

definition NewPublisher :: "'aws load_aws \<Rightarrow> string \<Rightarrow> Config \<Rightarrow> 'aws PublisherStruct result" where
  "NewPublisher loadAws newUUID cfg =
     bindE (loadAws (cf_AWSRegion cfg) (cf_AWSAccessKeyID cfg) (cf_AWSSecretKey cfg)) (\<lambda>awsCfg.
       Inr \<lparr>pb_client = \<lparr>qc_config = awsCfg, qc_BaseEndpoint = cf_SQSEndpoint cfg\<rparr>, pb_queueURL = cf_EventsQueueURL cfg,
         pb_workerID = newUUID, pb_loop = constructed Claiming\<rparr>)"

record 'aws ConsumerStruct =
  co_client :: "'aws queueClient"
  co_queueURL :: string
  co_loop :: "consumer_at background"

definition NewConsumer :: "'aws load_aws \<Rightarrow> Config \<Rightarrow> 'aws ConsumerStruct result" where
  "NewConsumer loadAws cfg =
     bindE (loadAws (cf_AWSRegion cfg) (cf_AWSAccessKeyID cfg) (cf_AWSSecretKey cfg)) (\<lambda>awsCfg.
       Inr \<lparr>co_client = \<lparr>qc_config = awsCfg, qc_BaseEndpoint = cf_SQSEndpoint cfg\<rparr>, co_queueURL = cf_SQSQueueURL cfg,
         co_loop = constructed ConsumerTop\<rparr>)"

record ReferenceRetryWorker =
  rr_ttl :: int64
  rr_loop :: "worker_at background"

definition NewReferenceRetryWorker :: "Config \<Rightarrow> ReferenceRetryWorker" where
  "NewReferenceRetryWorker cfg = \<lparr>rr_ttl = cf_ReferencePendingTTL cfg, rr_loop = constructed new_worker\<rparr>"

text \<open>\<open>pgxpool.New\<close> on the database's URL, and the key set on the answer of the provider's URL.\<close>

definition NewPool :: "(string \<Rightarrow> 'pool result) \<Rightarrow> Config \<Rightarrow> 'pool result" where
  "NewPool newPool cfg = newPool (cf_DatabaseURL cfg)"

definition NewKeySetFromConfig :: "(string \<Rightarrow> jwksAnswer) \<Rightarrow> Time \<Rightarrow> Config \<Rightarrow> keySet result" where
  "NewKeySetFromConfig fetch finished cfg = NewKeySet (fetch (cf_OIDCJWKSURL cfg)) finished"

text \<open>
  Its hooks start and stop the goroutine of \<open>StartAutoRefresh\<close>: \<open>stop\<close> is nil before \<open>OnStart\<close> and closes
  \<open>done\<close> afterwards; a tick that is ready together with \<open>done\<close> may still be taken. The application
  calls each hook once.
\<close>

datatype keysLoop = KeysIdle | KeysTicking | KeysClosed | KeysReturned

datatype keysEvent = KeysStart | KeysTick jwksAnswer Time | KeysStop | KeysReturn

fun keys_step :: "keysEvent \<Rightarrow> keysLoop \<times> keySet \<Rightarrow> (keysLoop \<times> keySet) option" where
  "keys_step KeysStart (l, ks) = (if l = KeysIdle then Some (KeysTicking, ks) else None)"
| "keys_step (KeysTick ans finished) (l, ks) =
     (if l = KeysTicking \<or> l = KeysClosed then Some (l, autoRefresh ans finished ks) else None)"
| "keys_step KeysStop (l, ks) =
     (if l = KeysIdle then Some (KeysIdle, ks) else if l = KeysTicking then Some (KeysClosed, ks) else None)"
| "keys_step KeysReturn (l, ks) = (if l = KeysClosed then Some (KeysReturned, ks) else None)"

text \<open>The server listens on all addresses of its port; \<open>listen\<close> is \<open>net.Listen\<close> on TCP.\<close>

record server =
  sv_Addr :: string
  sv_ReadHeaderTimeout :: int64
  sv_serving :: bool

definition NewServer :: "Config \<Rightarrow> server" where
  "NewServer cfg = \<lparr>sv_Addr = '':'' @ cf_HTTPPort cfg, sv_ReadHeaderTimeout = 5000000000, sv_serving = False\<rparr>"

definition ServerOnStart :: "(string \<Rightarrow> unit result) \<Rightarrow> server \<Rightarrow> server result" where
  "ServerOnStart listen srv = bindE (listen (sv_Addr srv)) (\<lambda>_. Inr (srv\<lparr>sv_serving := True\<rparr>))"

text \<open>\<open>srv.Shutdown\<close> stops listening, whatever it returns.\<close>

definition ServerOnStop :: "server \<Rightarrow> server" where
  "ServerOnStop srv = srv\<lparr>sv_serving := False\<rparr>"

end
