(* ===== verification/Service.thy ===== *)
theory Service
  imports Use_Cases Worker Consumer Publisher Http_Api
begin

text \<open>
  The service as a whole: any sequence of requests, messages, turns of the background loops and calls
  of its use cases, on one database, while other sessions work on it and statements fail. The books
  stay balanced along every such history, and the ledger only grows.
\<close>

section \<open>Histories\<close>

text \<open>
  What may run: a use case, a request to a route whose header some authentication decided, or the
  background loops for a number of turns.
\<close>

datatype call = CallExecute ProcessInput | CallOpen OpenWalletInput | CallResume string | CallExpire string
  | CallReconcile string
  | CallHttp "string \<Rightarrow> string + Identity" endpoint request
  | RunPublisher nat int64 string | RunConsumer nat | RunWorker nat int64

text \<open>What a call leaves, whatever it returns.\<close>

fun serve :: "UseCase \<Rightarrow> call \<Rightarrow> env \<Rightarrow> world \<Rightarrow> world" where
  "serve uc (CallExecute inp) e w = snd (Execute uc inp e w)"
| "serve uc (CallOpen inp) e w = snd (OpenWalletExecute inp e w)"
| "serve uc (CallResume i) e w = snd (ResumePendingReference i e w)"
| "serve uc (CallExpire i) e w = snd (ExpirePendingReference i e w)"
| "serve uc (CallReconcile i) e w = snd (ReconcileWalletExecute (uc_metrics uc) i e w)"
| "serve uc (CallHttp auth ep r) e w = snd (route uc (uc_metrics uc) auth ep r e w)"
| "serve uc (RunPublisher n big workerID) e w = snd (publisherRun n (uc_metrics uc) big workerID e w)"
| "serve uc (RunConsumer n) e w = snd (consumerRun n uc (uc_metrics uc) e w)"
| "serve uc (RunWorker n ttl) e w = snd (workerRun n ttl e w)"

text \<open>Between two calls other sessions go on committing.\<close>

inductive reachable :: "UseCase \<Rightarrow> env \<Rightarrow> world \<Rightarrow> world \<Rightarrow> bool" for uc e w0 where
  start: "reachable uc e w0 w0"
| call: "reachable uc e w0 w \<Longrightarrow> reachable uc e w0 (serve uc c e w)"
| others: "reachable uc e w0 w \<Longrightarrow> reachable uc e w0 (interfere e w)"

interpretation httpCall: book_keeper "route uc b auth ep r" for uc b auth ep r
  by (rule keeper_route)

interpretation publisherLoop: book_keeper "publisherRun n b big workerID" for n b big workerID
  by (rule keeper_publisherRun)

interpretation consumerLoop: book_keeper "consumerRun n uc b" for n uc b
  by (rule keeper_consumerRun)

interpretation workerLoop: book_keeper "workerRun n ttl" for n ttl
  by (rule keeper_workerRun)

lemma serve_outside: "rely e \<Longrightarrow> outside g w \<Longrightarrow> outside g (serve uc c e w)"
  by (cases c) (simp_all add: executeCall.keeps_outside openCall.keeps_outside resumeCall.keeps_outside
      expireCall.keeps_outside reconcileCall.keeps_outside httpCall.keeps_outside publisherLoop.keeps_outside
      consumerLoop.keeps_outside workerLoop.keeps_outside)

lemma reachable_outside:
  assumes "reachable uc e w0 w" "rely e" "outside g w0"
  shows "outside g w"
  using assms by induction (simp_all add: serve_outside interfere_outside)

section \<open>What no call undoes\<close>

lemma out_queue [out_intros]: "keeps_out p ReceiveMessage"
  by (auto simp: keeps_out_def triple_def resting_def ReceiveMessage_def split: sum.split)

context write_stable
begin

lemma out_update_outbox: "keeps_out p (stmt (\<lambda>now. update_outbox (osel now) (og now)))"
  by (rule out_stmt) (erule table_writes, assumption)

lemma out_Claim [out_intros]: "keeps_out p (OutboxClaim workerID limit ttl)"
  unfolding keeps_out_def OutboxClaim_def
proof (intro allI impI)
  fix e assume o: "others_keep e p"
  have c: "keeps_out p (bindM (stmt (claim_rows lk ar workerID limit ttl)) (\<lambda>rows. ret (map outbox_record rows)))" for lk ar
    by (intro out_intros out_stmt) (auto simp: claim_rows_def Let_def bindE_Inr_iff dest: table_writes(7))
  have t: "triple e (at_rest p) (bindM (stmt (claim_rows lk ar workerID limit ttl)) (\<lambda>rows. ret (map outbox_record rows)))
      (\<lambda>_. at_rest p) (\<lambda>_. at_rest p)" for lk ar
    using c o unfolding keeps_out_def by blast
  show "triple e (at_rest p) (\<lambda>e w. bindM (stmt (claim_rows (row_locked e (ticks w)) (arrange e (ticks w)) workerID limit ttl))
       (\<lambda>rows. ret (map outbox_record rows)) e w) (\<lambda>_. at_rest p) (\<lambda>_. at_rest p)"
    unfolding triple_def by (intro allI impI tripleD [OF t])
qed

lemma out_marks [out_intros]: "keeps_out p (OutboxMarkPublished i)" "keeps_out p (OutboxMarkFailed i t)"
  unfolding OutboxMarkPublished_def OutboxMarkFailed_def by (intro out_intros out_update_outbox)+

lemma out_publishOne [out_intros]: "keeps_out p (publishOne b big rec)"
  unfolding publishOne_def publisherMarkFailed_def SendMessage_def by (intro out_intros)

lemma out_publishAll [out_intros]: "keeps_out p (publishAll b big recs)"
  by (induction recs) (simp_all only: publishAll.simps, (intro out_intros | assumption)+)

lemma out_publisherRun [out_intros]: "keeps_out p (publisherRun n b big workerID)"
  by (induction n) (simp_all only: publisherRun.simps publishPending_def, (intro out_intros | assumption)+)

lemma handle_tx_keeps [keeps_intros]: "keeps p (handle_tx uc b i h inp)"
  unfolding handle_tx_def by (intro keeps_intros)

lemma out_handle [out_intros]: "keeps_out p (handle uc b body i)"
  unfolding handle_def UowExecute_def by (intro out_intros keeps_intros)

lemma out_release [out_intros]: "keeps_out p (releaseVisibility ms)"
  by (induction ms) (simp_all only: releaseVisibility.simps ChangeVisibility_def, (intro out_intros | assumption)+)

lemma out_consumeBatch [out_intros]: "keeps_out p (consumeBatch uc b ms)"
  by (induction ms) (simp_all only: consumeBatch.simps DeleteMessage_def, (intro out_intros | assumption)+)

lemma out_consumerRun [out_intros]: "keeps_out p (consumerRun n uc b)"
  by (induction n) (simp_all only: consumerRun.simps, (intro out_intros | assumption)+)

lemma out_batches [out_intros]: "keeps_out p (resumeAll is)" "keeps_out p (expireAll is)"
  by (induction "is") (simp_all only: resumeAll.simps expireAll.simps, (intro out_intros | assumption)+)

lemma out_workerRun [out_intros]: "keeps_out p (workerRun n ttl)"
proof -
  have w: "keeps_out p (processPending ttl)"
    unfolding processPending_def expireStale_def TxListPendingReferenceIDs_def TxListStalePendingReferenceIDs_def
    by (intro out_intros)
  show ?thesis by (induction n) (simp_all only: workerRun.simps, (intro out_intros w | assumption)+)
qed

lemma out_posts [out_intros]: "keeps_out p (handleProcessWagerTransaction uc r)" "keeps_out p (handleOpenWallet r)"
  unfolding handleProcessWagerTransaction_def handleOpenWallet_def by (intro out_intros)+

lemma out_route [out_intros]: "keeps_out p (route uc b auth ep r)"
proof -
  have m: "keeps_out p (authenticated auth h r)" "keeps_out p (RequireRole role h r)" if "\<And>r. keeps_out p (h r)" for h role r
    unfolding authenticated_def RequireRole_def by (intro out_intros that)+
  show ?thesis by (cases ep) (simp_all add: chain_def m out_posts out_gets)
qed

lemma serve_rest:
  assumes "others_keep e p" "at_rest p w"
  shows "at_rest p (serve uc c e w)"
proof -
  have r: "at_rest p (snd (m e w))" if "keeps_out p m" for m :: "'x io"
  proof -
    have "triple e (at_rest p) m (\<lambda>_. at_rest p) (\<lambda>_. at_rest p)" using that assms(1) unfolding keeps_out_def by blast
    from tripleD [OF this assms(2)] show ?thesis by (cases "m e w"; cases "fst (m e w)") auto
  qed
  show ?thesis by (cases c) (simp_all only: serve.simps, (rule r, intro out_intros)+)
qed

lemma reachable_rest: "reachable uc e w0 w \<Longrightarrow> others_keep e p \<Longrightarrow> at_rest p w0 \<Longrightarrow> at_rest p w"
  by (induction rule: reachable.induct) (simp_all add: serve_rest interfere_resting others_keep2_def)

end

section \<open>What the invariant says\<close>

lemma db_inv_unique:
  assumes d: "db_inv d" and r: "r \<in> set (txs d)" "r' \<in> set (txs d)"
  shows "xr_key r = Some k \<Longrightarrow> xr_key r' = Some k \<Longrightarrow> r = r'"
    and "processed_reversal r \<Longrightarrow> processed_reversal r' \<Longrightarrow> xr_resolved r = Some i \<Longrightarrow> xr_resolved r' = Some i \<Longrightarrow> r = r'"
  using xt.no_clash [OF db_inv_tables(2) [OF d] r]
  by (auto simp: tx_clash_def same_key_def)

lemma db_inv_wallets:
  assumes d: "db_inv d" and r: "r \<in> set (wallets d)"
  shows "0 \<le> sint (wr_balance r)"
  using db_inv_tables(1) [OF d] r by (auto simp: table_ok_def list_all_iff wallet_check_def)

text \<open>Such books are balanced.\<close>

lemma outside_books:
  assumes "outside (\<lambda>_. 0) w"
  shows "(\<forall>r\<in>set (wallets (committed w)).
       0 \<le> sint (wr_balance r) \<and> sint (wr_balance r) = ledger_sum (committed w) (wr_id r)) \<and>
    (\<forall>r\<in>set (txs (committed w)). \<forall>r'\<in>set (txs (committed w)).
       (\<forall>k. xr_key r = Some k \<and> xr_key r' = Some k \<longrightarrow> r = r') \<and>
       (\<forall>i. processed_reversal r \<and> processed_reversal r' \<and> xr_resolved r = Some i \<and> xr_resolved r' = Some i \<longrightarrow> r = r'))"
proof -
  have d: "db_inv (committed w)" "\<And>i. gap (committed w) i = 0" using assms by (simp_all add: outside_def committed_ok_def)
  have "sint (wr_balance r) = ledger_sum (committed w) (wr_id r)" if "r \<in> set (wallets (committed w))" for r
    using d(2) [of "wr_id r"] stored_balance_row [OF _ that] d(1) by (simp add: gap_def db_inv_def)
  then show ?thesis using db_inv_wallets [OF d(1)] db_inv_unique [OF d(1)] by blast
qed

text \<open>
  From the empty database, every sequence of calls of the use cases, requests and whole turns of the loops
  keeps the books balanced; \<open>Program\<close> has the same for the steps of all goroutines.
\<close>

lemma service_books_balance:
  assumes "reachable uc e (world_of empty_db) w" "rely e"
  shows "(\<forall>r\<in>set (wallets (committed w)).
       0 \<le> sint (wr_balance r) \<and> sint (wr_balance r) = ledger_sum (committed w) (wr_id r)) \<and>
    (\<forall>r\<in>set (txs (committed w)). \<forall>r'\<in>set (txs (committed w)).
       (\<forall>k. xr_key r = Some k \<and> xr_key r' = Some k \<longrightarrow> r = r') \<and>
       (\<forall>i. processed_reversal r \<and> processed_reversal r' \<and> xr_resolved r = Some i \<and> xr_resolved r' = Some i \<longrightarrow> r = r'))"
proof (rule outside_books)
  have "outside (\<lambda>_. 0) (world_of empty_db)"
    by (simp add: outside_def committed_ok_def world_of_def db_inv_empty gap_empty)
  then show "outside (\<lambda>_. 0) w" by (rule reachable_outside [OF assms])
qed

definition sample_opening :: OpenWalletInput where
  "sample_opening = \<lparr>ow_PlayerID = ''p1'', ow_InitialBalance = \<lparr>minorUnits = 10000, currency = ''BRL''\<rparr>\<rparr>"

text \<open>A wallet is opened with 100.00.\<close>

lemma service_opens_wallet:
  "\<exists>r. wallets (committed (serve sample_uc (CallOpen sample_opening) sample_env (world_of empty_db))) = [r] \<and>
     sint (wr_balance r) = 10000 \<and>
     ledger_sum (committed (serve sample_uc (CallOpen sample_opening) sample_env (world_of empty_db))) (wr_id r) = 10000"
proof -
  let ?w = "serve sample_uc (CallOpen sample_opening) sample_env (world_of empty_db)"
  have "map (\<lambda>r. sint (wr_balance r)) (wallets (committed ?w)) = [10000]" by code_simp
  then obtain r where r: "wallets (committed ?w) = [r]" "sint (wr_balance r) = 10000" by auto
  have "reachable sample_uc sample_env (world_of empty_db) ?w" by (intro reachable.intros)
  from service_books_balance [OF this sample_rely] r show ?thesis by auto
qed

text \<open>C24: The ledger is append-only: whatever the service is asked to do and whatever fails, as long as the
  other sessions only append too, every entry that was committed at some time is still there later,
  unchanged and at its place, and so is every message id of the inbox.\<close>

theorem Ledger_append_only:
  assumes "reachable uc e w0 w" "session w0 = None" "\<not> snapshot w0"
    and "\<And>n d. prefix (entries d) (entries (interf e n d)) \<and> inbox_keys d \<subseteq> inbox_keys (interf e n d)"
  shows "prefix (entries (committed w0)) (entries (committed w)) \<and> inbox_keys (committed w0) \<subseteq> inbox_keys (committed w)"
proof -
  have "others_keep e (\<lambda>d. prefix (entries (committed w0)) (entries d))" "others_keep e (\<lambda>d. inbox_keys (committed w0) \<subseteq> inbox_keys d)"
    using assms(4) unfolding others_keep_def by (meson prefix_order.trans subset_trans)+
  then show ?thesis
    using ledgerPrefix.reachable_rest [OF assms(1), of "entries (committed w0)"]
      inboxKeys.reachable_rest [OF assms(1), of "inbox_keys (committed w0)"] assms(2,3)
    by (simp add: resting_def)
qed

theorem Ledger_append_only_witness:
  "\<exists>r. entries (committed (serve sample_uc (CallExecute (sample_bet ''k1'' 8000)) sample_env (world_of sample_db))) = [sample_entry_row, r]"
proof -
  let ?w = "serve sample_uc (CallExecute (sample_bet ''k1'' 8000)) sample_env (world_of sample_db)"
  have "reachable sample_uc sample_env (world_of sample_db) ?w" by (intro reachable.intros)
  from Ledger_append_only [OF this]
  have "prefix [sample_entry_row] (entries (committed ?w))" by (simp add: world_of_def sample_env_def sample_db_def)
  moreover have "length (entries (committed ?w)) = 2" by code_simp
  ultimately show ?thesis by (auto simp: prefix_def length_Suc_conv numeral_2_eq_2)
qed

end
