(* ===== verification/Program.thy ===== *)
theory Program
  imports Server Service
begin

text \<open>
  The process as \<open>cmd/api/main.go\<close> and the modules put it together: the configuration is loaded,
  everything is constructed from it, and then the loops, their goroutines and the requests interleave in any order,
  step by step, on one database, until the hooks stop them. The dependency injection framework is
  not modelled: the order in which it calls constructors and hooks shows only in which error is
  reported first, so constructors run in a fixed order and hooks whenever they may.
\<close>

section \<open>Construction\<close>

record ('aws, 'pool) externals =
  ex_fraction :: fraction
  ex_environ :: environ
  ex_sha256 :: "string \<Rightarrow> string"
  ex_mustRegister :: "collector list \<Rightarrow> bool"
  ex_newPool :: "string \<Rightarrow> 'pool result"
  ex_loadAws :: "'aws load_aws"
  ex_newUUID :: string
  ex_fetch :: "string \<Rightarrow> jwksAnswer"
  ex_fetched :: Time
  ex_jwt :: "string \<Rightarrow> string \<Rightarrow> jwtLib"

record ('aws, 'pool) app =
  ap_config :: Config
  ap_logger :: logger
  ap_pool :: 'pool
  ap_useCase :: UseCase
  ap_publisher :: "'aws PublisherStruct"
  ap_consumer :: "'aws ConsumerStruct"
  ap_worker :: ReferenceRetryWorker
  ap_keySet :: keySet
  ap_jwt :: jwtLib
  ap_server :: server

datatype start_err = ConfigFailed config_err | MetricsPanic | ConstructorFailed go_error

definition constructor :: "'a result \<Rightarrow> start_err + 'a" where
  "constructor r = (case r of Inl x \<Rightarrow> Inl (ConstructorFailed x) | Inr a \<Rightarrow> Inr a)"

text \<open>The modules of \<open>main\<close>. \<open>Authenticate\<close> is given the issuer and the audience of the configuration.\<close>

definition main_app :: "('aws, 'pool) externals \<Rightarrow> start_err + ('aws, 'pool) app" where
  "main_app ex =
     (case Load (ex_fraction ex) (ex_environ ex) of Inl x \<Rightarrow> Inl (ConfigFailed x)
      | Inr cfg \<Rightarrow>
     (case NewMetrics (ex_mustRegister ex) of None \<Rightarrow> Inl MetricsPanic
      | Some _ \<Rightarrow>
        bindE (constructor (NewPool (ex_newPool ex) cfg)) (\<lambda>pool.
        bindE (constructor (NewConsumer (ex_loadAws ex) cfg)) (\<lambda>consumer.
        bindE (constructor (NewPublisher (ex_loadAws ex) (ex_newUUID ex) cfg)) (\<lambda>publisher.
        bindE (constructor (NewKeySetFromConfig (ex_fetch ex) (ex_fetched ex) cfg)) (\<lambda>ks.
        Inr \<lparr>ap_config = cfg, ap_logger = NewLogger cfg, ap_pool = pool,
          ap_useCase = NewProcessWagerTransaction (ex_sha256 ex) True,
          ap_publisher = publisher, ap_consumer = consumer, ap_worker = NewReferenceRetryWorker cfg,
          ap_keySet = ks, ap_jwt = ex_jwt ex (cf_OIDCIssuerURL cfg) (cf_OIDCAudience cfg), ap_server = NewServer cfg\<rparr>))))))"

lemma main_app_Inr:
  assumes "main_app ex = Inr a"
  shows "Load (ex_fraction ex) (ex_environ ex) = Inr (ap_config a)"
    and "ap_useCase a = NewProcessWagerTransaction (ex_sha256 ex) True"
    and "pb_loop (ap_publisher a) = constructed Claiming" "pb_workerID (ap_publisher a) = ex_newUUID ex"
    and "co_loop (ap_consumer a) = constructed ConsumerTop"
    and "ap_worker a = NewReferenceRetryWorker (ap_config a)"
    and "sv_serving (ap_server a) = False"
  using assms by (auto simp: main_app_def bindE_Inr_iff constructor_def NewPublisher_def NewConsumer_def NewServer_def
      split: sum.splits option.splits)

section \<open>Running\<close>

text \<open>What changes while the process runs, besides the world: the loops, the cache of keys and whether the server serves.\<close>

record running =
  ru_publisher :: "publisher_at background"
  ru_consumer :: "consumer_at background"
  ru_worker :: "worker_at background"
  ru_keys :: keySet
  ru_keysLoop :: keysLoop
  ru_server :: server

text \<open>
  One event: of a loop, of the refresh of the key set, the start and stop of the server, or a request that the
  multiplexer has dispatched; a request looks its key up at \<open>now\<close>, may ask the provider, whose answer
  ends at \<open>finished\<close>, and is then handled. \<open>big\<close> is the parameter of the publisher's backoff.
\<close>

datatype program_event = PublisherEvent "select_branch bg_event" | ConsumerEvent "unit bg_event"
  | WorkerEvent "worker_choice bg_event" | KeysEvent keysEvent
  | ServerStart "string \<Rightarrow> unit result" | ServerStop
  | Request endpoint wireRequest Time jwksAnswer Time

fun program_step :: "('aws, 'pool) app \<Rightarrow> int64 \<Rightarrow> program_event \<Rightarrow> env \<Rightarrow> running \<times> world \<Rightarrow> (running \<times> world) option" where
  "program_step a big (PublisherEvent ev) e (s, w) =
     map_option (\<lambda>(b, w'). (s\<lparr>ru_publisher := b\<rparr>, w'))
       (publisher_step True big (pb_workerID (ap_publisher a)) ev e (ru_publisher s, w))"
| "program_step a big (ConsumerEvent ev) e (s, w) =
     map_option (\<lambda>(b, w'). (s\<lparr>ru_consumer := b\<rparr>, w')) (consumer_step (ap_useCase a) True ev e (ru_consumer s, w))"
| "program_step a big (WorkerEvent ev) e (s, w) =
     map_option (\<lambda>(b, w'). (s\<lparr>ru_worker := b\<rparr>, w')) (worker_step (rr_ttl (ap_worker a)) ev e (ru_worker s, w))"
| "program_step a big (KeysEvent ev) e (s, w) =
     map_option (\<lambda>(l, ks). (s\<lparr>ru_keys := ks, ru_keysLoop := l\<rparr>, w)) (keys_step ev (ru_keysLoop s, ru_keys s))"
| "program_step a big (ServerStart listen) e (s, w) =
     (case ServerOnStart listen (ru_server s) of Inl _ \<Rightarrow> None | Inr srv \<Rightarrow> Some (s\<lparr>ru_server := srv\<rparr>, w))"
| "program_step a big ServerStop e (s, w) = Some (s\<lparr>ru_server := ServerOnStop (ru_server s)\<rparr>, w)"
| "program_step a big (Request ep req now ans finished) e (s, w) =
     (if \<not> sv_serving (ru_server s) then None
      else let (verdict, keys) = Authenticate (ap_jwt a) (rq_Authorization (wi_Request req)) now ans finished (ru_keys s) in
        Some (s\<lparr>ru_keys := keys\<rparr>, snd (WithRequestLogging (route (ap_useCase a) True (\<lambda>_. verdict) ep) req e w)))"

definition start_of :: "('aws, 'pool) app \<Rightarrow> running" where
  "start_of a = \<lparr>ru_publisher = pb_loop (ap_publisher a), ru_consumer = co_loop (ap_consumer a), ru_worker = rr_loop (ap_worker a),
     ru_keys = ap_keySet a, ru_keysLoop = KeysIdle, ru_server = ap_server a\<rparr>"

section \<open>The books of the process\<close>

lemma program_step_outside:
  assumes "rely e" "outside g (snd s)" "program_step a big ev e s = Some s'"
  shows "outside g (snd s')"
proof -
  obtain ru w where s: "s = (ru, w)" by (cases s)
  have w: "outside g w" using assms(2) s by simp
  show ?thesis
  proof (cases ev)
    case (PublisherEvent x)
    then obtain b w' where p: "publisher_step True big (pb_workerID (ap_publisher a)) x e (ru_publisher ru, w) = Some (b, w')"
      "snd s' = w'" using assms(3) s by auto
    show ?thesis using publisherGo.step_keeps [OF assms(1) _ p(1) [unfolded publisher_step_def]] w p(2) by simp
  next
    case (ConsumerEvent x)
    then obtain b w' where p: "consumer_step (ap_useCase a) True x e (ru_consumer ru, w) = Some (b, w')" "snd s' = w'"
      using assms(3) s by auto
    show ?thesis using consumerGo.step_keeps [OF assms(1) _ p(1) [unfolded consumer_step_def]] w p(2) by simp
  next
    case (WorkerEvent x)
    then obtain b w' where p: "worker_step (rr_ttl (ap_worker a)) x e (ru_worker ru, w) = Some (b, w')" "snd s' = w'"
      using assms(3) s by auto
    show ?thesis using workerGo.step_keeps [OF assms(1) _ p(1) [unfolded worker_step_def]] w p(2) by simp
  next
    case (Request ep req now ans finished)
    have "outside g (snd (WithRequestLogging (route uc True auth ep) req e w))" for uc auth
      by (rule keeper_outside [OF keeper_logging [OF keeper_route] assms(1) w])
    then show ?thesis using assms(3) s Request by (auto split: if_splits prod.splits)
  qed (use assms(3) s w in \<open>auto split: sum.splits\<close>)
qed

lemma program_outside:
  assumes "history (program_step a big) e s0 s" "rely e" "outside g (snd s0)"
  shows "outside g (snd s)"
  using assms by induction (auto intro: program_step_outside interfere_outside)

text \<open>C1: Start the process on any database that satisfies the constraints and whose books balance, the empty one
  for instance, with any configuration that loads. Whatever the loops, the goroutines of the worker, the requests,
  the key set and the hooks do, in whatever order their steps interleave, whenever the hooks cancel a loop,
  whatever fails, and whatever other sessions do that keep the same promises: in every state each
  wallet's stored balance is non-negative and equals the signed sum of its ledger entries, no two transactions
  share an idempotency key, and no transaction has been reversed twice.\<close>

theorem program_books_balance:
  assumes "main_app ex = Inr a" "db_inv d" "\<And>i. gap d i = 0" "rely e"
    and "history (program_step a big) e (start_of a, world_of d) (s, w)"
  shows "(\<forall>r\<in>set (wallets (committed w)).
       0 \<le> sint (wr_balance r) \<and> sint (wr_balance r) = ledger_sum (committed w) (wr_id r)) \<and>
    (\<forall>r\<in>set (txs (committed w)). \<forall>r'\<in>set (txs (committed w)).
       (\<forall>k. xr_key r = Some k \<and> xr_key r' = Some k \<longrightarrow> r = r') \<and>
       (\<forall>i. processed_reversal r \<and> processed_reversal r' \<and> xr_resolved r = Some i \<and> xr_resolved r' = Some i \<longrightarrow> r = r'))"
proof (rule outside_books)
  have "outside (\<lambda>_. 0) (world_of d)" using assms(2,3) by (simp add: outside_def committed_ok_def world_of_def)
  then show "outside (\<lambda>_. 0) w" using program_outside [OF assms(5,4), of "\<lambda>_. 0"] by simp
qed

section \<open>What no step undoes\<close>

context write_stable
begin

lemma out_leaves:
  assumes "keeps_out p m" "others_keep e p" "at_rest p w"
  shows "at_rest p (snd (m e w))"
proof -
  have "triple e (at_rest p) m (\<lambda>_. at_rest p) (\<lambda>_. at_rest p)" using assms(1,2) unfolding keeps_out_def by blast
  from tripleD [OF this assms(3)] show ?thesis by (cases "m e w"; cases "fst (m e w)") auto
qed

lemma out_leaves_pair: "keeps_out p m \<Longrightarrow> others_keep e p \<Longrightarrow> at_rest p w \<Longrightarrow> m e w = (r, w') \<Longrightarrow> at_rest p w'"
  using out_leaves [of m e w] by simp

lemma bg_step_rest:
  assumes "\<And>c ch pc w pc' w'. at_rest p w \<Longrightarrow> nxt c ch pc e w = Some (pc', w') \<Longrightarrow> at_rest p w'"
    and "at_rest p w" "bg_step nxt returned a e (b, w) = Some (b', w')"
  shows "at_rest p w'"
  using assms(2,3) by (cases a) (auto split: if_splits dest: assms(1))

lemma publisher_rest:
  assumes o: "others_keep e p" and w: "at_rest p w" and s: "publisher_next b big wid c br pc e w = Some (pc', w')"
  shows "at_rest p w'"
  using s w by (cases "(b, big, wid, c, br, pc, e, w)" rule: publisher_next.cases)
    (auto split: prod.splits sum.splits if_splits select_branch.splits
      intro: out_leaves_pair [OF out_Claim o] out_leaves [OF out_publishOne o])

lemma consumer_rest:
  assumes o: "others_keep e p" and w: "at_rest p w" and s: "consumer_next uc b c u pc e w = Some (pc', w')"
  shows "at_rest p w'"
proof -
  have d: "keeps_out p (DeleteMessage i)" for i unfolding DeleteMessage_def by (intro out_intros)
  note k = out_leaves_pair [OF out_handle o w] out_leaves_pair [OF out_queue o w] out_leaves [OF out_release o] out_leaves [OF d o]
  show ?thesis
    using s w by (cases "(uc, b, c, u, pc, e, w)" rule: consumer_next.cases)
      (auto split: prod.splits sum.splits if_splits dest: k(1,2) intro: k(3,4) simp del: releaseVisibility.simps)
qed

lemma run_job_rest: "others_keep e p \<Longrightarrow> at_rest p w \<Longrightarrow> at_rest p (run_job j e w)"
  by (cases j) (auto intro!: out_leaves out_intros)

lemma worker_rests:
  assumes o: "others_keep e p" and w: "at_rest p w" and s: "worker_next ttl c ch pc e w = Some (pc', w')"
  shows "at_rest p w'"
proof (cases ch)
  case (MainStep br)
  have l: "keeps_out p (TxListPendingReferenceIDs 32)"
    "keeps_out p (bindM timeNow (\<lambda>now. TxListStalePendingReferenceIDs (now + sint (- ttl)) 32))"
    unfolding TxListPendingReferenceIDs_def TxListStalePendingReferenceIDs_def by (intro out_intros)+
  note k = out_leaves_pair [OF l(1) o w] out_leaves_pair [OF l(2) o w]
  show ?thesis
    using s w MainStep by (cases "(ttl, c, br, wk_pc pc, pc, e, w)" rule: worker_main.cases)
      (auto split: prod.splits sum.splits if_splits select_branch.splits dest: k)
qed (use s w run_job_rest [OF o] in \<open>auto split: if_splits\<close>)

lemma program_step_rest:
  assumes o: "others_keep e p" and w: "at_rest p w" and s: "program_step a big ev e (ru, w) = Some (ru', w')"
  shows "at_rest p w'"
proof (cases ev)
  case (Request ep req now ans finished)
  have "keeps_out p (WithRequestLogging (route uc True auth ep) req)" for uc auth
    unfolding WithRequestLogging_def Let_def by (intro out_intros)
  from out_leaves [OF this o w] show ?thesis using s Request by (auto split: if_splits prod.splits)
next
  case (PublisherEvent x)
  then obtain b where "bg_step (publisher_next True big (pb_workerID (ap_publisher a))) (\<lambda>p. p = PublisherReturned) x e (ru_publisher ru, w) =
      Some (b, w')" using s by (auto simp: publisher_step_def)
  from bg_step_rest [OF _ w this] publisher_rest [OF o] show ?thesis by blast
next
  case (ConsumerEvent x)
  then obtain b where "bg_step (consumer_next (ap_useCase a) True) (\<lambda>p. p = ConsumerReturned) x e (ru_consumer ru, w) = Some (b, w')"
    using s by (auto simp: consumer_step_def)
  from bg_step_rest [OF _ w this] consumer_rest [OF o] show ?thesis by blast
next
  case (WorkerEvent x)
  then obtain b where "bg_step (worker_next (rr_ttl (ap_worker a))) (\<lambda>p. wk_pc p = WorkerReturned) x e (ru_worker ru, w) = Some (b, w')"
    using s by (auto simp: worker_step_def)
  from bg_step_rest [OF _ w this] worker_rests [OF o] show ?thesis by blast
qed (use s w in \<open>auto split: sum.splits\<close>)

lemma program_rest:
  assumes "history (program_step a big) e s0 s" "others_keep e p" "at_rest p (snd s0)"
  shows "at_rest p (snd s)"
  using assms
proof (induction rule: history.induct)
  case (history_event s ev s')
  then show ?case by (cases s; cases s') (auto intro: program_step_rest)
qed (simp_all add: interfere_resting others_keep2_def)

end

text \<open>The process only appends to the ledger and to the inbox, whatever the interleaving.\<close>

lemma program_appends_only:
  assumes "history (program_step a big) e (s0, w0) (s, w)" "session w0 = None" "\<not> snapshot w0"
    and "\<And>n d. prefix (entries d) (entries (interf e n d)) \<and> inbox_keys d \<subseteq> inbox_keys (interf e n d)"
  shows "prefix (entries (committed w0)) (entries (committed w)) \<and> inbox_keys (committed w0) \<subseteq> inbox_keys (committed w)"
proof -
  have "others_keep e (\<lambda>d. prefix (entries (committed w0)) (entries d))" "others_keep e (\<lambda>d. inbox_keys (committed w0) \<subseteq> inbox_keys d)"
    using assms(4) unfolding others_keep_def by (meson prefix_order.trans subset_trans)+
  then show ?thesis
    using ledgerPrefix.program_rest [OF assms(1), of "entries (committed w0)"]
      inboxKeys.program_rest [OF assms(1), of "inbox_keys (committed w0)"] assms(2,3)
    by (simp add: resting_def)
qed

section \<open>Replays after anything else\<close>

text \<open>Other sessions, too, leave a transaction alone that does not wait for a reference.\<close>

definition leaves_finished :: "env \<Rightarrow> bool" where
  "leaves_finished e \<longleftrightarrow> (\<forall>r. others_keep e (final_row r))"

lemma quiet_leaves_finished: "quiet e \<Longrightarrow> leaves_finished e"
  by (simp add: leaves_finished_def others_keep_def quiet_def)

lemma program_leaves_finished:
  assumes "history (program_step a big) e (s0, w0) (s, w)" "leaves_finished e" "session w0 = None" "\<not> snapshot w0"
    and "final_row r (committed w0)"
  shows "final_row r (committed w) \<and> session w = None \<and> \<not> snapshot w"
  using finalRow.program_rest [OF assms(1), of r] assms(2-5) by (auto simp: resting_def leaves_finished_def)

lemma quiet_Execute_inv:
  assumes "quiet e" "db_inv (committed w)" "session w = None" "\<not> snapshot w" "Execute uc inp e w = (r, w')"
  shows "db_inv (committed w')"
proof -
  have "rely e" using assms(1) by (intro rely_alone) (simp add: quiet_def)
  moreover have "outside (gap (committed w)) w" using assms(2-4) by (simp add: outside_def committed_ok_def)
  ultimately have "outside (gap (committed w)) (snd (Execute uc inp e w))" by (rule executeCall.keeps_outside)
  then show ?thesis using assms(5) by (simp add: outside_def committed_ok_def)
qed

lemma final_row_of_key:
  assumes "db_inv d" "row_of_key key (txs d) = Some r" "xr_status r \<noteq> StatusPendingReference"
  shows "final_row r d"
proof -
  have r: "r \<in> set (txs d)" "xr_key r = Some key" using assms(2) by (auto simp: row_of_key_def find_Some_iff)
  have "r' = r" if "r' \<in> set (txs d)" "xr_id r' = xr_id r \<or> same_key (xr_key r') (xr_key r)" for r'
    using xt.no_clash [OF db_inv_tables(2) [OF assms(1)] that(1) r(1)] that(2) by (auto simp: tx_clash_def)
  then show ?thesis using r(1) assms(3) by (auto simp: final_row_def)
qed

lemma row_of_final: "final_row r d \<Longrightarrow> xr_key r = Some key \<Longrightarrow> row_of_key key (txs d) = Some r"
proof -
  assume r: "final_row r d" "xr_key r = Some key"
  then obtain r' where r': "row_of_key key (txs d) = Some r'"
    unfolding row_of_key_def final_row_def by (cases "find (\<lambda>r. xr_key r = Some key) (txs d)") (auto simp: find_None_iff)
  then have "r' \<in> set (txs d)" "xr_key r' = Some key" by (auto simp: row_of_key_def find_Some_iff)
  then show ?thesis using r r' by (auto simp: final_row_def same_key_def)
qed

lemma program_at_rest:
  assumes "history (program_step a big) e (s0, w0) (s, w)" "session w0 = None" "\<not> snapshot w0"
  shows "session w = None \<and> \<not> snapshot w"
  using ledgerPrefix.program_rest [OF assms(1), of "[]"] assms(2,3) by (simp add: resting_def others_keep_def)

lemma scanned_balance: "scanWagerTx (Some r) = Inr t \<Longrightarrow> t_walletID t = xr_wallet r \<and> (xr_fr_minor r = None \<longrightarrow> t_financialResult t = None)"
  by (auto simp: scanWagerTx_def bindE_Inr_iff RehydrateTx_def split: if_splits option.splits)

text \<open>C3: Idempotency of \<open>Execute\<close>. Repeating a request right after a call that returned an output gives that output,
  flagged as a replay, and changes nothing. If that call made the transaction and it is processed or rejected, the
  same holds at any later time: whatever the loops, the requests and the hooks of the process and other
  sessions have done meanwhile, with whatever failures, as long as those sessions leave finished
  transactions alone too, the balance answered is the one recorded by the first call and not the one the wallet
  has by then. A transaction without a recorded balance, one that waits for its reference, is answered as
  it was as long as its row is the same, but with the balance its wallet has at that time. The call itself, and its
  repetition, run without failing statements and without other sessions.\<close>

theorem Execute_idempotent:
  assumes "quiet e" "db_inv (committed w)" "session w = None" "\<not> snapshot w"
    and "in_IdempotencyKey inp \<noteq> []" "money_ok (in_Money inp)"
    and "Execute uc inp e w = (Inr out, w')"
    and "history (program_step a big) e1 (s0, w') (s, w2)" "leaves_finished e1" "quiet e2"
  shows "(\<exists>w''. Execute uc inp e w' = (Inr (out\<lparr>out_IdempotentReplay := True\<rparr>), w'') \<and> committed w'' = committed w') \<and>
    (\<not> out_IdempotentReplay out \<and> out_Status out \<noteq> ''PENDING_REFERENCE'' \<longrightarrow>
      (\<exists>w''. Execute uc inp e2 w2 = (Inr (out\<lparr>out_IdempotentReplay := True\<rparr>), w'') \<and> committed w'' = committed w2)) \<and>
    (\<forall>r wl. row_of_key (in_IdempotencyKey inp) (txs (committed w')) = Some r \<and> xr_fr_minor r = None \<and>
      row_of_key (in_IdempotencyKey inp) (txs (committed w2)) = Some r \<and>
      scanWallet (wallet_of (committed w2) (xr_wallet r)) = Inr wl \<longrightarrow>
      (\<exists>w''. Execute uc inp e2 w2 = (Inr (out\<lparr>out_Balance := w_balance wl, out_IdempotentReplay := True\<rparr>), w'') \<and>
         committed w'' = committed w2))"
proof (intro conjI impI allI)
  let ?key = "in_IdempotencyKey inp"
  obtain hash where h: "inputHash uc inp = Inr hash" "supportedKind (Kind_of (in_Kind inp))" "0 < uc_maxRetries uc"
    "replayable ?key hash out (committed w')" "session w' = None" "\<not> snapshot w'"
    by (rule Execute_leaves [OF assms(1-7)])
  then obtain t where t: "scanWagerTx (row_of_key ?key (txs (committed w'))) = Inr t" "t_payloadHash t = hash"
    "answers t out (wallets (committed w'))"
    and recorded: "t_financialResult t = None \<Longrightarrow> out_IdempotentReplay out \<or> t_status t = StatusPendingReference"
    by (auto simp: replayable_def)
  note w2 = program_at_rest [OF assms(8) h(5,6)]
  note later = Execute_later [OF h(1-3) refl assms(5) t assms(10) w2 [THEN conjunct1] w2 [THEN conjunct2]]
  show "\<exists>w''. Execute uc inp e w' = (Inr (out\<lparr>out_IdempotentReplay := True\<rparr>), w'') \<and> committed w'' = committed w'"
    by (rule Execute_again [OF assms(1-7)])
  show "\<exists>w''. Execute uc inp e2 w2 = (Inr (out\<lparr>out_IdempotentReplay := True\<rparr>), w'') \<and> committed w'' = committed w2"
    if o: "\<not> out_IdempotentReplay out \<and> out_Status out \<noteq> ''PENDING_REFERENCE''"
  proof -
    obtain r where r: "row_of_key ?key (txs (committed w')) = Some r"
      using t(1) by (cases "row_of_key ?key (txs (committed w'))") (simp_all add: scanWagerTx_def)
    have "t_status t \<noteq> StatusPendingReference" using o t(3) by (auto simp: answers_def)
    moreover have "t_status t = xr_status r" using scanned_row t(1) unfolding r by blast
    ultimately have "xr_status r \<noteq> StatusPendingReference" by simp
    from final_row_of_key [OF quiet_Execute_inv [OF assms(1-4,7)] r this] have "final_row r (committed w')" .
    from program_leaves_finished [OF assms(8,9) h(5,6) this] have "final_row r (committed w2)" by simp
    moreover have "xr_key r = Some ?key" using r by (auto simp: row_of_key_def find_Some_iff)
    ultimately have "row_of_key ?key (txs (committed w2)) = Some r" by (rule row_of_final)
    then show ?thesis using later(1) r recorded o \<open>t_status t \<noteq> StatusPendingReference\<close> by auto
  qed
  fix r wl
  assume r: "row_of_key ?key (txs (committed w')) = Some r \<and> xr_fr_minor r = None \<and> row_of_key ?key (txs (committed w2)) = Some r \<and>
    scanWallet (wallet_of (committed w2) (xr_wallet r)) = Inr wl"
  then have "scanWagerTx (Some r) = Inr t" using t(1) by simp
  from scanned_balance [OF this] r later(2) [of wl]
  show "\<exists>w''. Execute uc inp e2 w2 = (Inr (out\<lparr>out_Balance := w_balance wl, out_IdempotentReplay := True\<rparr>), w'') \<and>
      committed w'' = committed w2" by simp
qed

section \<open>The lifetime of pending references\<close>

text \<open>With a lifetime of zero or less the worker never spawns an expiry.\<close>

definition expires_nothing :: "worker_at \<Rightarrow> bool" where
  "expires_nothing p \<longleftrightarrow> (\<forall>is. wk_pc p \<noteq> ExpiringAll is) \<and> (\<forall>i. ExpireJob i \<notin> set (wk_batch p @ wk_left p))"

lemma in_drop_nth: "x \<in> set (drop_nth n xs) \<Longrightarrow> x \<in> set xs"
  by (auto simp: drop_nth_def dest: in_set_takeD in_set_dropD)

lemma worker_expires_nothing:
  assumes "ttl \<le>s 0" "expires_nothing p" "worker_next ttl c ch p e w = Some (p', w')"
  shows "expires_nothing p'"
proof (cases ch)
  case (MainStep br)
  then show ?thesis using assms
    by (cases "(ttl, c, br, wk_pc p, p, e, w)" rule: worker_main.cases)
      (auto simp: expires_nothing_def abandon_def split: prod.splits sum.splits if_splits select_branch.splits)
next
  case (BatchJob n)
  then have "p' = p\<lparr>wk_batch := drop_nth n (wk_batch p)\<rparr>" using assms(3) by (simp split: if_splits)
  then show ?thesis using assms(2) in_drop_nth [of _ n "wk_batch p"] unfolding expires_nothing_def by fastforce
next
  case (LeftJob n)
  then have "p' = p\<lparr>wk_left := drop_nth n (wk_left p)\<rparr>" using assms(3) by (simp split: if_splits)
  then show ?thesis using assms(2) in_drop_nth [of _ n "wk_left p"] unfolding expires_nothing_def by fastforce
qed

lemma program_expires_nothing:
  assumes a: "main_app ex = Inr a" and t: "cf_ReferencePendingTTL (ap_config a) \<le>s 0"
    and h: "history (program_step a big) e (start_of a, w0) s"
  shows "expires_nothing (bg_at (ru_worker (fst s)))"
  using h
proof (induction rule: history.induct)
  case history_start
  show ?case using main_app_Inr(6) [OF a]
    by (simp add: start_of_def NewReferenceRetryWorker_def constructed_def new_worker_def expires_nothing_def)
next
  case (history_event s ev s')
  have ttl: "rr_ttl (ap_worker a) \<le>s 0" using main_app_Inr(6) [OF a] t by (simp add: NewReferenceRetryWorker_def)
  obtain ru w where s: "s = (ru, w)" by (cases s)
  show ?case
  proof (cases ev)
    case (WorkerEvent x)
    then obtain b w' where p: "worker_step (rr_ttl (ap_worker a)) x e (ru_worker ru, w) = Some (b, w')"
      "fst s' = ru\<lparr>ru_worker := b\<rparr>" using history_event.hyps s by auto
    then show ?thesis using history_event.IH s worker_expires_nothing [OF ttl]
      by (cases x) (auto simp: worker_step_def split: if_splits)
  qed (use history_event s in \<open>auto split: sum.splits if_splits prod.splits\<close>)
qed simp

section \<open>A process on the sample database\<close>

definition sample_externals :: "(unit, unit) externals" where
  "sample_externals = \<lparr>ex_fraction = \<lambda>_ _ _. 0, ex_environ = \<lambda>_. None, ex_sha256 = \<lambda>_. ''d'', ex_mustRegister = \<lambda>_. True,
     ex_newPool = \<lambda>_. Inr (), ex_loadAws = \<lambda>_ _ _. Inr (), ex_newUUID = ''u1'', ex_fetch = \<lambda>_. Answer 200 sample_jwks,
     ex_fetched = 0, ex_jwt = \<lambda>_ _. sample_jwt\<rparr>"

lemma sample_app: "\<exists>a. main_app sample_externals = Inr a \<and> ap_useCase a = sample_uc \<and> ap_keySet a = sample_keySet \<and>
    ap_jwt a = sample_jwt \<and> cf_ReferencePendingTTL (ap_config a) = 900000000000"
proof -
  have "Load frac (\<lambda>_. None) = Inr ((loadTexts (\<lambda>_. None))\<lparr>cf_ShutdownTimeout := 15000000000, cf_ReferencePendingTTL := 900000000000\<rparr>)"
    for frac by (simp add: Load_def Let_def loadTexts_def getEnv_def default_port default_durations)
  then show ?thesis
    by (simp add: main_app_def sample_externals_def NewMetrics_def constructor_def NewPool_def NewConsumer_def NewPublisher_def
        NewKeySetFromConfig_def sample_NewKeySet sample_uc_def)
qed

definition sample_wire :: wireRequest where
  "sample_wire = \<lparr>wi_CorrelationID = ''c1'', wi_Method = ''POST'', wi_Path = ''/wagering/transactions'', wi_Request = sample_request\<rparr>"

text \<open>The server starts and a provider bets 80.00.\<close>

lemma sample_run:
  assumes a: "ap_useCase a = sample_uc" "ap_keySet a = sample_keySet" "ap_jwt a = sample_jwt" "sv_serving (ap_server a) = False"
  shows "\<exists>s. history (program_step a 0) sample_env (start_of a, w) (s, snd (Execute sample_uc (sample_bet ''k1'' 8000) sample_env w))"
proof -
  let ?bet = "Execute sample_uc (sample_bet ''k1'' 8000) sample_env w"
  have v: "Authenticate sample_jwt ''Bearer t1'' 7 (NoAnswer InfraUnavailable) 7 sample_keySet =
     (Inr \<lparr>id_Subject = ''s1'', id_ClientID = ''prov'', id_Roles = [''provider'']\<rparr>, sample_keySet)"
    by (simp add: Authenticate_def extractBearerToken_def parseToken_def Key_cases sample_jwt_def sample_keySet_def)
  have r: "route sample_uc True (\<lambda>_. Inr \<lparr>id_Subject = ''s1'', id_ClientID = ''prov'', id_Roles = [''provider'']\<rparr>) PostTransaction
      sample_request e w = route sample_uc True sample_auth PostTransaction sample_request e w" for e w
    by (simp add: chain_def authenticated_def sample_auth_def sample_request_def)
  have "snd (WithRequestLogging (route sample_uc True sample_auth PostTransaction) sample_wire sample_env w) = snd ?bet"
    by (simp add: WithRequestLogging_def sample_wire_def bindM_apply sample_route attempting_apply Let_def
        writeProcessWagerTransactionError_def del: route_simps split: prod.split sum.split)
  then have "\<exists>s. scheduled (program_step a 0) [ServerStart (\<lambda>_. Inr ()), Request PostTransaction sample_wire 7 (NoAnswer InfraUnavailable) 7]
      sample_env (start_of a, w) = Some (s, snd ?bet)"
    using v r by (simp add: ServerOnStart_def start_of_def a sample_wire_def sample_request_def WithRequestLogging_def bindM_apply del: route_simps)
  then show ?thesis using scheduled_history by blast
qed

theorem program_books_balance_witness:
  "\<exists>a s w r. main_app sample_externals = Inr a \<and>
     history (program_step a 0) sample_env (start_of a, world_of sample_db) (s, w) \<and>
     wallets (committed w) = [r] \<and> sint (wr_balance r) = 2000 \<and> ledger_sum (committed w) (wr_id r) = 2000"
proof -
  obtain a where a: "main_app sample_externals = Inr a" "ap_useCase a = sample_uc" "ap_keySet a = sample_keySet" "ap_jwt a = sample_jwt"
    using sample_app by blast
  let ?bet = "Execute sample_uc (sample_bet ''k1'' 8000) sample_env (world_of sample_db)"
  obtain s where s: "history (program_step a 0) sample_env (start_of a, world_of sample_db) (s, snd ?bet)"
    using sample_run [OF a(2-4) main_app_Inr(7) [OF a(1)]] by blast
  have "map (\<lambda>r. sint (wr_balance r)) (wallets (committed (snd ?bet))) = [2000]" by code_simp
  then obtain r where r: "wallets (committed (snd ?bet)) = [r]" "sint (wr_balance r) = 2000" by auto
  from program_books_balance [OF a(1) sample_db_inv sample_gap sample_rely s] r
  show ?thesis using a(1) s r by (intro exI [of _ a] exI [of _ s] exI [of _ "snd ?bet"] exI [of _ r]) simp
qed

text \<open>
  A bet of 10.00 leaves 90.00 in the wallet; then the process serves the bet of 80.00, which leaves 10.00. The first
  bet, repeated, is still answered with 90.00.
\<close>

definition earlier_call :: "ProcessOutput result \<times> world" where
  "earlier_call = Execute sample_uc (sample_bet ''k0'' 1000) sample_env (world_of sample_db)"

theorem Execute_idempotent_witness:
  "\<exists>a s out w3. main_app sample_externals = Inr a \<and> earlier_call = (Inr out, snd earlier_call) \<and> sint (minorUnits (out_Balance out)) = 9000 \<and>
     history (program_step a 0) sample_env (start_of a, snd earlier_call)
       (s, snd (Execute sample_uc (sample_bet ''k1'' 8000) sample_env (snd earlier_call))) \<and>
     map (\<lambda>r. sint (wr_balance r)) (wallets (committed (snd (Execute sample_uc (sample_bet ''k1'' 8000) sample_env (snd earlier_call))))) = [1000] \<and>
     Execute sample_uc (sample_bet ''k0'' 1000) sample_env (snd (Execute sample_uc (sample_bet ''k1'' 8000) sample_env (snd earlier_call))) =
       (Inr (out\<lparr>out_IdempotentReplay := True\<rparr>), w3)"
proof -
  obtain a where a: "main_app sample_externals = Inr a" "ap_useCase a = sample_uc" "ap_keySet a = sample_keySet" "ap_jwt a = sample_jwt"
    using sample_app by blast
  let ?w2 = "snd (Execute sample_uc (sample_bet ''k1'' 8000) sample_env (snd earlier_call))"
  obtain s where s: "history (program_step a 0) sample_env (start_of a, snd earlier_call) (s, ?w2)"
    using sample_run [OF a(2-4) main_app_Inr(7) [OF a(1)]] by blast
  have "case fst earlier_call of Inl _ \<Rightarrow> False | Inr out \<Rightarrow> out_Status out = ''PROCESSED'' \<and> \<not> out_IdempotentReplay out \<and>
      sint (minorUnits (out_Balance out)) = 9000" by code_simp
  then obtain out where out: "fst earlier_call = Inr out" "out_Status out = ''PROCESSED''" "\<not> out_IdempotentReplay out"
      "sint (minorUnits (out_Balance out)) = 9000" by (auto split: sum.splits)
  then have first: "Execute sample_uc (sample_bet ''k0'' 1000) sample_env (world_of sample_db) = (Inr out, snd earlier_call)"
    by (simp add: earlier_call_def prod_eq_iff)
  have ok: "in_IdempotencyKey (sample_bet ''k0'' 1000) \<noteq> []" "money_ok (in_Money (sample_bet ''k0'' 1000))"
    by (simp_all add: sample_bet_def money_ok_def iso4217Currencies_def)
  have bal: "map (\<lambda>r. sint (wr_balance r)) (wallets (committed ?w2)) = [1000]" by code_simp
  note later = Execute_idempotent [OF sample_quiet sample_request_ok(1-3) ok first s quiet_leaves_finished [OF sample_quiet] sample_quiet]
  have "out_Status out \<noteq> ''PENDING_REFERENCE''" using out(2) by simp
  with later [THEN conjunct2, THEN conjunct1] out(3)
  obtain w3 where w3: "Execute sample_uc (sample_bet ''k0'' 1000) sample_env ?w2 = (Inr (out\<lparr>out_IdempotentReplay := True\<rparr>), w3)" by blast
  have "earlier_call = (Inr out, snd earlier_call)" using out(1) by (metis prod.collapse)
  then show ?thesis using a(1) out(4) s bal w3 by (intro exI [of _ a] exI [of _ s] exI [of _ out] exI [of _ w3] conjI)
qed

end
