(* ===== verification/Spec2Isabelle.thy ===== *)
theory Spec2Isabelle
  imports Money_Text Accounts Rows Opening Turns Program
begin

text \<open>
  A model of wager-ledger, a Go service that keeps players' wallets, the wager transactions that
  move them and the append-only ledger that records every movement. Game providers send wagers over
  HTTP and over a queue; each is applied once, whatever is retried, redelivered or lost, and its
  events leave through a transactional outbox. File and function names are those under \<open>src/\<close>.

  \<^bold>\<open>The parts.\<close>

  Foundations. \<open>Prelude\<close> has Go's \<open>int64\<close>, the error monad \<open>bindE\<close> and decimal digits; \<open>Errors\<close> the
  sentinel errors of every package. \<open>Json\<close>, \<open>Json_Reader\<close> and \<open>Json_Decode\<close> model what the program uses of
  \<open>encoding/json\<close>, \<open>Time_Text\<close> of \<open>time\<close> and \<open>Base64\<close> of \<open>encoding/base64\<close>, each with the proof that
  reading undoes writing; \<open>Duration\<close> models \<open>time.ParseDuration\<close> with the texts it accepts.

  Domain (\<open>internal/domain\<close>). \<open>Money\<close> and \<open>Money_Text\<close>: amounts in 64-bit minor units, their arithmetic
  with overflow detection, their text and JSON object. \<open>Wallet\<close>: the aggregate with \<open>Debit\<close> and \<open>Credit\<close>.
  \<open>Wager_Tx\<close>: the transaction and its state machine, with the step relation its methods implement.
  \<open>Ledger\<close>: an entry and its constructor. \<open>Event\<close>: the five domain events.

  Persistence (\<open>internal/infra/postgres\<close>, \<open>migrations\<close>). \<open>Store\<close>: the five tables with their CHECK, UNIQUE
  and FOREIGN KEY constraints, and statements on them. \<open>Books\<close>: the invariant of the database and the gap
  between a stored balance and the sum of its ledger. \<open>World\<close>: the oracles of the environment, the state
  of a session, units of work and snapshots (\<open>txmanager.go\<close>), and triples over them. \<open>Rely\<close>: what other
  sessions promise. \<open>Wallet_Repository\<close>, \<open>Tx_Repository\<close>, \<open>Ledger_Repository\<close>, \<open>Ledger_Listing\<close>,
  \<open>Event_Repositories\<close> and \<open>Outbox_Repository\<close>: every query and statement.

  Use cases (\<open>internal/application/usecase\<close>). \<open>Idempotency\<close>, \<open>Process_Wager\<close>, \<open>Open_Wallet\<close>,
  \<open>Reconcile\<close>, \<open>Reference_Retry\<close> (the second half of \<open>process_wager_transaction.go\<close>) and \<open>Worker\<close>.

  Adapters. \<open>Publisher\<close> (\<open>internal/infra/outbox\<close>), \<open>Consumer\<close> (\<open>internal/infra/sqs\<close>), \<open>Identity\<close>
  (\<open>internal/infra/idp\<close>) and \<open>Http_Api\<close> (\<open>internal/infra/http\<close>). \<open>Lifecycle\<close>: the publisher, the consumer and the
  worker as goroutines, step by step, with the hooks that start and stop them and the goroutines the worker spawns;
  \<open>Turns\<close> relates them to the loops whose turn is one function. \<open>Config\<close> (\<open>internal/config\<close>) and \<open>Server\<close>
  (\<open>http/logging.go\<close>, \<open>http/server.go\<close>, \<open>internal/observability\<close>, constructors).

  Everything together. \<open>Service\<close>: any history of requests, messages, calls and whole turns of the loops.
  \<open>Program\<close>: the process \<open>cmd/api/main.go\<close> assembles from a configuration, with all its goroutines and requests
  interleaved.

  \<^bold>\<open>How they interact.\<close> A handler or the consumer decodes a request and calls \<open>Execute\<close> or \<open>ExecuteWithin\<close>.
  \<open>attempt\<close> runs in one unit of work: it looks the request up by idempotency key and by operation, builds
  the transaction, moves the wallet under its version, books the entry and queues the events. A lost
  optimistic lock or a unique violation is retried a bounded number of times; \<open>ExecuteWithin\<close> joins the
  transaction in which the consumer has inserted the inbox row. A transaction whose reference is missing
  waits; the worker resumes it later or expires it. The publisher claims outbox rows under a lock that
  expires, sends them and marks them.

  \<^bold>\<open>State and effects.\<close> An operation of type \<open>'a io\<close> maps the oracles (\<open>env\<close>) and a \<open>world\<close> to a result, an
  error or a value, and the world it leaves. A world has the committed database, the view of the open
  transaction, counters, and what the queue has taken. Oracles decide what other sessions commit before a
  statement, whether a statement, a commit or a call to the queue fails before or after it took effect,
  the clocks, fresh ids, which outbox rows others hold locked, the order of rows no \<open>ORDER BY\<close> binds, the
  messages received and the cancellation of a context. Theorems hold for every oracle they do not restrict:
  \<open>rely\<close> (others keep the invariant, the gaps and the version rule), \<open>alone\<close> (no other session, and no
  failure reported after it took effect), \<open>quiet\<close> (no other session, no failure). Pure code returns
  \<open>'a result\<close>; methods that mutate their receiver return the error and the new value.

  \<^bold>\<open>What is shown.\<close> \<open>Money\<close>, \<open>Wallet\<close>, \<open>Wager_Tx\<close>, \<open>Ledger\<close>: every operation on every branch, invariants of
  any sequence of calls. \<open>Rows\<close>: what constructors build fits the schema and is read back. \<open>Process_Safety\<close>,
  \<open>Open_Wallet\<close>, \<open>Reference_Retry\<close>, \<open>Use_Cases\<close>: each use case keeps the books under faults and other
  sessions; the interfaces are the locales \<open>sql_table\<close>, \<open>double_entry\<close>, \<open>neutral_op\<close>, \<open>session_frame\<close> and
  \<open>book_keeper\<close>, each interpreted by the operations that meet it. \<open>Atomicity\<close>, \<open>Retry_Loop\<close>: a call that fails has
  committed nothing, and the retry loop is bounded and counted. \<open>Replay\<close>: a request sent again is answered from
  what was stored; \<open>Program\<close> extends this to repetitions after anything the process has done meanwhile. \<open>Accounts\<close>: \<open>Execute\<close> refines bookkeeping on a map of balances. \<open>Opening\<close>, \<open>Pending\<close>: exactly what
  opening a wallet and expiring a reference write. \<open>Append_Only\<close>: the locale \<open>write_stable\<close> of properties no write
  undoes, for the ledger, the inbox and transactions that do not wait for a reference. \<open>Publisher\<close>: events are sent before they are marked, and delivered
  when nothing fails. \<open>Consumer\<close>: a message has its effect once and is deleted only when it is in the inbox.
  \<open>Worker\<close>: only transactions that waited too long expire. \<open>Identity\<close>: an identity comes from a verified token,
  and concurrent lookups ask the key provider only five seconds after the last refresh that was stored, but then
  all of them do. \<open>Http_Api\<close>: a provider sees its own transactions only, a refused
  request has done nothing, a repeated wager is answered with its first result. \<open>Ledger_Listing\<close>: the pages
  of the ledger are the ledger. \<open>Service\<close>: all of it together only appends. \<open>Lifecycle\<close>: the locales \<open>goroutine\<close> and
  \<open>single_goroutine\<close>; a stopped publisher or consumer does nothing more, a stopped worker may still have goroutines
  it abandoned (\<open>worker_outlives_stop\<close>), a cancelled consumer returns within three steps and a cancelled publisher is
  silent. \<open>Config\<close>: what is refused and what is loaded. \<open>Program\<close>: the books balance in every
  reachable state of the process, ledger and inbox only grow, a finished transaction keeps its row and answers its replays, and without a positive
  lifetime nothing expires.

  \<^bold>\<open>Bounds.\<close> \<open>executeLoop\<close> counts the retries \<open>NewProcessWagerTransaction\<close> fixes down to zero, as the code's
  \<open>for\<close> does. The background loops run for a given number of turns; their properties hold for every number,
  and every turn ends because a batch is a finite list. \<open>followPages\<close>, the client of the listing, needs one
  page more than the wallet has entries at most. JSON and durations are read by recursion on the text. The
  histories of \<open>Lifecycle\<close> and \<open>Program\<close> are unbounded.

  \<^bold>\<open>What is assumed.\<close> Ids are compared as text: Postgres' UUIDs are in canonical form, for which text order is
  UUID order; a text that is no UUID, to which Postgres answers with an error, is not found. Any CHECK violation
  is the one error \<open>PgCheck\<close>. \<open>FOR UPDATE\<close> reads like a plain query; that nobody changes the row meanwhile is
  part of what is relied on. JSONB gives members back in an order of its own, which matters to no reader.
  No caller nests units of work. SHA-256 and the JWT library are parameters; so are an unrepresentable float
  conversion in the publisher's backoff, the floating-point fraction of a duration, and the third-party constructors.
  A step of a goroutine is a call of a repository or a use case: what others do within it is work of other sessions.
  In \<open>Program\<close> a request looks its key up in one step; \<open>Identity\<close> has the interleaving of lookups between the
  sections that hold the lock of \<open>KeySet\<close>, and shows that the cache holds nothing a sequence of ticks would not give it.

  \<^bold>\<open>Not modelled.\<close> Log lines other than the request log, the observations of the two histograms and the help
  texts of metrics; connection pools and queue clients, which are objects of libraries; the order in which the dependency
  injection framework calls constructors and hooks (\<open>module.go\<close> files), and the hook that closes the pool;
  \<open>idgen\<close>, a call of \<open>uuid.NewString\<close>; the encoding of response bodies, which are the
  values given to \<open>json.Encoder\<close>, and the patterns of the multiplexer; the interfaces of
  \<open>ports.go\<close>, which have no code.
\<close>

end
